(* ===== verification/Prelude.thy ===== *)
theory Prelude
  imports Main "HOL-Library.Word" "HOL-Library.Sublist"
begin

section \<open>Shared types, the error monad and generic lemmas\<close>

text \<open>
  What every component uses: source locations (\<^verbatim>\<open>include/STELA/location.hpp\<close>), the ways a
  phase of the compiler can stop without a result, the sequencing of fallible steps, and a few
  facts on lists. A phase stops in one of four ways:
  \<^item> \<open>Fatal loc msg\<close>: \<^verbatim>\<open>log.error(loc) << msg << fatal\<close>, which writes the message to the log sink
    and throws \<^verbatim>\<open>FatalError\<close>;
  \<^item> \<open>Out_of_range msg\<close>: a \<^verbatim>\<open>std::out_of_range\<close> exception thrown by
    \<^verbatim>\<open>Utils::ParseString::advance\<close>;
  \<^item> \<open>Undefined what\<close>: the C++ has no defined behaviour here (a read past the end of a vector, a
    variable returned without having been assigned, a float out of range converted to an integer);
  \<^item> \<open>Out_of_fuel\<close>: never a behaviour of the code; the value of a model loop whose step counter
    ran out. Every use of a counter comes with the lemma that this value is not reached.
\<close>

named_theorems prelude_simps \<open>rules for sequencing fallible steps\<close>

type_synonym name = string
type_synonym u32 = "32 word"

text \<open>A location in the source: \<^verbatim>\<open>struct Loc { Line l = 0; Col c = 0; }\<close>.\<close>

datatype loc = Loc (loc_l: u32) (loc_c: u32)

definition no_loc :: loc where
  "no_loc = Loc 0 0"

datatype error =
    Fatal loc string
  | Out_of_range string
  | Undefined string
  | Out_of_fuel

type_synonym 'a res = "error + 'a"

fun bindE :: "'a res \<Rightarrow> ('a \<Rightarrow> 'b res) \<Rightarrow> 'b res" where
  "bindE (Inl e) f = Inl e"
| "bindE (Inr x) f = f x"

lemma bindE_Inr_iff [simp]: "bindE m f = Inr y \<longleftrightarrow> (\<exists>x. m = Inr x \<and> f x = Inr y)"
  by (cases m) auto

lemma bindE_Inl_iff: "bindE m f = Inl e \<longleftrightarrow> m = Inl e \<or> (\<exists>x. m = Inr x \<and> f x = Inl e)"
  by (cases m) auto

lemma bindE_assoc [prelude_simps]: "bindE (bindE m f) g = bindE m (\<lambda>x. bindE (f x) g)"
  by (cases m) auto

lemma bindE_cong [fundef_cong]:
  "m = m' \<Longrightarrow> (\<And>x. m' = Inr x \<Longrightarrow> f x = f' x) \<Longrightarrow> bindE m f = bindE m' f'"
  by (cases m') auto

text \<open>A loop over a list that threads a state and may fail, and its invariant rule.\<close>

fun foldE :: "('a \<Rightarrow> 's \<Rightarrow> 's res) \<Rightarrow> 'a list \<Rightarrow> 's \<Rightarrow> 's res" where
  "foldE f [] s = Inr s"
| "foldE f (x # xs) s = bindE (f x s) (foldE f xs)"

lemma foldE_cong [fundef_cong]:
  "xs = ys \<Longrightarrow> s = t \<Longrightarrow> (\<And>x s. x \<in> set ys \<Longrightarrow> f x s = g x s) \<Longrightarrow> foldE f xs s = foldE g ys t"
proof (induction ys arbitrary: xs s t)
  case (Cons y ys)
  then show ?case by (cases "g y t") auto
qed simp

lemma foldE_rule:
  assumes "P [] s"
    and "\<And>ys x zs s. xs = ys @ x # zs \<Longrightarrow> P ys s
      \<Longrightarrow> (case f x s of Inl e \<Rightarrow> Q e | Inr s' \<Rightarrow> P (ys @ [x]) s')"
  shows "case foldE f xs s of Inl e \<Rightarrow> Q e | Inr s' \<Rightarrow> P xs s'"
proof -
  have "case foldE f zs s of Inl e \<Rightarrow> Q e | Inr s' \<Rightarrow> P xs s'" if "P ys s" "xs = ys @ zs" for ys zs s
    using that
  proof (induction zs arbitrary: ys s)
    case (Cons z zs)
    have "case f z s of Inl e \<Rightarrow> Q e | Inr s' \<Rightarrow> P (ys @ [z]) s'"
      using assms(2) Cons.prems by blast
    then show ?case using Cons.IH [of "ys @ [z]"] Cons.prems by (cases "f z s") auto
  qed simp
  from this [of "[]" s xs] assms(1) show ?thesis by simp
qed

text \<open>\<^verbatim>\<open>std::to_string\<close> and the stream output of an unsigned number, in decimal.\<close>

definition digit_char :: "nat \<Rightarrow> char" where
  "digit_char n = char_of (48 + n)"

fun show_nat :: "nat \<Rightarrow> string" where
  "show_nat n = (if n < 10 then [digit_char n] else show_nat (n div 10) @ [digit_char (n mod 10)])"

declare show_nat.simps [simp del]

text \<open>Facts on lists that several components use.\<close>

lemma takeWhile_append_dropWhile_length:
  "length (dropWhile P xs) = length xs - length (takeWhile P xs)"
proof -
  have "length (takeWhile P xs) + length (dropWhile P xs) = length xs"
    by (metis length_append takeWhile_dropWhile_id)
  then show ?thesis by simp
qed

lemma dropWhile_suffix: "suffix (dropWhile P xs) xs"
  by (metis suffix_def takeWhile_dropWhile_id)

lemma drop_suffix: "suffix (drop n xs) xs"
  by (metis append_take_drop_id suffix_def)

lemma suffix_take_diff:
  assumes "suffix ys xs"
  shows "take (length xs - length ys) xs @ ys = xs"
  using assms by (auto simp: suffix_def)

lemma strict_suffix_length: "strict_suffix xs ys \<Longrightarrow> length xs < length ys"
  by (auto simp: strict_suffix_def suffix_def)

lemma suffix_length_less: "suffix xs ys \<Longrightarrow> length xs < length ys \<Longrightarrow> strict_suffix xs ys"
  by (auto simp: strict_suffix_def)

end
