(* ===== verification/Ast.thy ===== *)
theory Ast
  imports Prelude
begin

section \<open>The abstract syntax tree\<close>

text \<open>
  \<^verbatim>\<open>include/STELA/ast.hpp\<close>: one datatype per node family, one constructor per node class, with the
  fields the parser writes, in the order of the source. A \<^verbatim>\<open>retain_ptr\<close> that may be null is an
  \<open>option\<close>. \<^verbatim>\<open>Declaration\<close> and \<^verbatim>\<open>Assignment\<close> derive from \<^verbatim>\<open>Statement\<close>: \<open>SDecl\<close> and \<open>SAsgn\<close> are the two
  upcasts. Every node carries its \<^verbatim>\<open>loc\<close>. The fields that later phases write into a node
  (\<^verbatim>\<open>exprType\<close>, \<^verbatim>\<open>symbol\<close>, the LLVM handles) are not part of the tree, but for the definition of a
  named type and the flag of a switch that \<^verbatim>\<open>checkMissingRet\<close> sets.
\<close>

subsection \<open>Types\<close>

datatype BtnTypeEnum = Void | Opaq | Bool | Byte | Char | Real | Sint | Uint

datatype ParamRef = val | ref

record user_ctor =
  addr :: nat
  ctor_name :: string

definition user_ctor_none :: nat where "user_ctor_none = 0"

record user_ops =
  dtor :: user_ctor
  defCtor :: user_ctor
  copCtor :: user_ctor
  copAsgn :: user_ctor
  movCtor :: user_ctor
  movAsgn :: user_ctor
  op_eq :: user_ctor
  op_lt :: user_ctor
  boolConv :: user_ctor

text \<open>
  The semantic phase fills in the field \<^verbatim>\<open>definition\<close> of every \<^verbatim>\<open>NamedType\<close> when it validates a type. A
  type all of whose names have a definition is an \<open>rty\<close>: a name comes with what the phase reads of its
  \<^verbatim>\<open>TypeAlias\<close>, the flag \<^verbatim>\<open>strong\<close> and the type, and there are no locations, which only validation reads.
\<close>

datatype rty =
    RBtn BtnTypeEnum
  | RArray rty
  | RFunc "(ParamRef \<times> rty) list" "rty option"
  | RNamed name bool rty
  | RStruct "(name \<times> rty) list"
  | RUser "(name \<times> rty \<times> nat) list" nat nat user_ops

text \<open>
  The types of the tree. The parser leaves \<^verbatim>\<open>definition\<close> null; the reflection of host types, which makes
  all \<^verbatim>\<open>UserType\<close>s, sets it.
\<close>

datatype ty =
    BtnType loc BtnTypeEnum
  | ArrayType loc ty
  | FuncType loc "(ParamRef \<times> ty) list" "ty option"
  | NamedType loc name "(bool \<times> rty) option"
  | StructType loc "(name \<times> ty \<times> loc) list"
  | UserType loc "(name \<times> rty \<times> nat) list" nat nat user_ops

subsection \<open>Operators\<close>

datatype BinOp =
    bool_or | bool_and
  | bit_or | bit_xor | bit_and | bit_shl | bit_shr
  | eq | ne | lt | le | gt | ge
  | add | sub | mul | div_op | mod_op

datatype UnOp = neg | bool_not | bit_not

datatype AssignOp =
    a_add | a_sub | a_mul | a_div | a_mod
  | a_bit_or | a_bit_xor | a_bit_and | a_bit_shl | a_bit_shr

datatype BtnFuncEnum =
  fn_capacity | fn_size | fn_data | fn_push_back | fn_append | fn_pop_back | fn_resize | fn_reserve

text \<open>A function parameter: \<^verbatim>\<open>loc\<close>, \<^verbatim>\<open>name\<close>, \<^verbatim>\<open>ref\<close>, \<^verbatim>\<open>type\<close>.\<close>

datatype FuncParam = FuncParam (param_loc: loc) (param_name: name) (param_ref: ParamRef) (param_type: ty)

subsection \<open>Expressions, statements, declarations and assignments\<close>

text \<open>
  A \<^verbatim>\<open>Block\<close> held by value (the body of a function or lambda) is its location and its nodes. A switch
  case is its location, its expression (none for \<^verbatim>\<open>default\<close>) and its body; the last field of a switch
  is \<^verbatim>\<open>alwaysReturns\<close>, which the parser leaves false. A node that a later phase makes without a location
  has \<open>no_loc\<close>.
\<close>

datatype expr =
    BinaryExpr loc expr BinOp expr
  | UnaryExpr loc UnOp expr
  | FuncCall loc expr "expr list"
  | MemberIdent loc expr name
  | Subscript loc expr expr
  | Identifier loc name
  | Ternary loc expr expr expr
  | Make loc ty expr
  | StringLiteral loc string
  | CharLiteral loc string
  | NumberLiteral loc string
  | BoolLiteral loc bool
  | ArrayLiteral loc "expr list"
  | InitList loc "expr list"
  | Lambda loc "FuncParam list" "ty option" loc "stat list"
and stat =
    Block loc "stat list"
  | If loc expr stat "stat option"
  | Switch loc expr "(loc \<times> expr option \<times> stat) list" bool
  | Terminate
  | Break loc
  | Continue loc
  | Return loc "expr option"
  | While loc expr stat
  | For loc "asgn option" expr "asgn option" stat
  | SDecl decl
  | SAsgn asgn
and decl =
    Func loc bool "FuncParam option" name "FuncParam list" "ty option" loc "stat list"
  | ExtFunc name "(ParamRef \<times> ty) option" "(ParamRef \<times> ty) list" ty string nat
  | BtnFunc BtnFuncEnum
  | Var loc bool name "ty option" "expr option"
  | Let loc bool name "ty option" expr
  | TypeAlias loc name ty bool
and asgn =
    CompAssign loc expr AssignOp expr
  | IncrDecr loc expr bool
  | Assign loc expr expr
  | DeclAssign loc name expr
  | CallAssign loc expr "expr list" loc

record ast =
  ast_global :: "decl list"
  ast_name :: name
  ast_imports :: "name list"

text \<open>\<^verbatim>\<open>expr->loc\<close>.\<close>

fun expr_loc :: "expr \<Rightarrow> loc" where
  "expr_loc (BinaryExpr l _ _ _) = l"
| "expr_loc (UnaryExpr l _ _) = l"
| "expr_loc (FuncCall l _ _) = l"
| "expr_loc (MemberIdent l _ _) = l"
| "expr_loc (Subscript l _ _) = l"
| "expr_loc (Identifier l _) = l"
| "expr_loc (Ternary l _ _ _) = l"
| "expr_loc (Make l _ _) = l"
| "expr_loc (StringLiteral l _) = l"
| "expr_loc (CharLiteral l _) = l"
| "expr_loc (NumberLiteral l _) = l"
| "expr_loc (BoolLiteral l _) = l"
| "expr_loc (ArrayLiteral l _) = l"
| "expr_loc (InitList l _) = l"
| "expr_loc (Lambda l _ _ _ _) = l"

text \<open>\<^verbatim>\<open>stat->loc\<close>.\<close>

fun decl_loc :: "decl \<Rightarrow> loc" where
  "decl_loc (Func l _ _ _ _ _ _ _) = l"
| "decl_loc (ExtFunc _ _ _ _ _ _) = no_loc"
| "decl_loc (BtnFunc _) = no_loc"
| "decl_loc (Var l _ _ _ _) = l"
| "decl_loc (Let l _ _ _ _) = l"
| "decl_loc (TypeAlias l _ _ _) = l"

fun asgn_loc :: "asgn \<Rightarrow> loc" where
  "asgn_loc (CompAssign l _ _ _) = l"
| "asgn_loc (IncrDecr l _ _) = l"
| "asgn_loc (Assign l _ _) = l"
| "asgn_loc (DeclAssign l _ _) = l"
| "asgn_loc (CallAssign l _ _ _) = l"

fun stat_loc :: "stat \<Rightarrow> loc" where
  "stat_loc (Block l _) = l"
| "stat_loc (If l _ _ _) = l"
| "stat_loc (Switch l _ _ _) = l"
| "stat_loc Terminate = no_loc"
| "stat_loc (Break l) = l"
| "stat_loc (Continue l) = l"
| "stat_loc (Return l _) = l"
| "stat_loc (While l _ _) = l"
| "stat_loc (For l _ _ _ _) = l"
| "stat_loc (SDecl d) = decl_loc d"
| "stat_loc (SAsgn a) = asgn_loc a"

end
