(* ===== verification/Parse_String.thy ===== *)
theory Parse_String
  imports Prelude
begin

section \<open>The string cursor of the lexer\<close>

text \<open>
  \<^verbatim>\<open>src/Utils/parse string.hpp\<close> and \<^verbatim>\<open>parse string.inl\<close>: \<^verbatim>\<open>Utils::LineCol\<close>, which follows line and
  column numbers through a text, and \<^verbatim>\<open>Utils::ParseString\<close>, a cursor over a string view. The
  cursor's pair of pointers \<^verbatim>\<open>beg\<close>, \<^verbatim>\<open>end\<close> is the list of characters from \<^verbatim>\<open>beg\<close> up to \<^verbatim>\<open>end\<close>.
  A C++ \<^verbatim>\<open>char\<close> is an Isabelle \<open>char\<close> (one byte); the \<^verbatim>\<open><cctype>\<close> predicates are those of the "C"
  locale. Operations that return \<^verbatim>\<open>*this\<close> return the new cursor, those that return a bool or an
  index return it beside the new cursor.
\<close>

subsection \<open>Character classes of the C locale\<close>

definition c_isprint :: "char \<Rightarrow> bool" where
  "c_isprint c = (32 \<le> (of_char c :: int) \<and> (of_char c :: int) \<le> 126)"

definition c_isspace :: "char \<Rightarrow> bool" where
  "c_isspace c = ((of_char c :: int) = 32 \<or> (9 \<le> (of_char c :: int) \<and> (of_char c :: int) \<le> 13))"

definition c_isdigit :: "char \<Rightarrow> bool" where
  "c_isdigit c = (48 \<le> (of_char c :: int) \<and> (of_char c :: int) \<le> 57)"

definition c_isalpha :: "char \<Rightarrow> bool" where
  "c_isalpha c = ((65 \<le> (of_char c :: int) \<and> (of_char c :: int) \<le> 90)
     \<or> (97 \<le> (of_char c :: int) \<and> (of_char c :: int) \<le> 122))"

definition c_isalnum :: "char \<Rightarrow> bool" where
  "c_isalnum c = (c_isalpha c \<or> c_isdigit c)"

definition c_isxdigit :: "char \<Rightarrow> bool" where
  "c_isxdigit c = (c_isdigit c \<or> (65 \<le> (of_char c :: int) \<and> (of_char c :: int) \<le> 70)
     \<or> (97 \<le> (of_char c :: int) \<and> (of_char c :: int) \<le> 102))"

lemmas ctype_defs = c_isprint_def c_isspace_def c_isdigit_def c_isalpha_def c_isalnum_def
  c_isxdigit_def

subsection \<open>Lines and columns\<close>

record line_col =
  mLine :: u32
  mCol :: u32

definition SIZE_OF_TAB :: u32 where "SIZE_OF_TAB = 8"
definition FIRST_LINE :: u32 where "FIRST_LINE = 1"
definition FIRST_COL :: u32 where "FIRST_COL = 1"

definition line_col_init :: line_col where
  "line_col_init = \<lparr>mLine = FIRST_LINE, mCol = FIRST_COL\<rparr>"

definition putChar :: "char \<Rightarrow> line_col \<Rightarrow> line_col" where
  "putChar c p =
     (if c = CHR 0x09 then p\<lparr>mCol := (mCol p + SIZE_OF_TAB - 1) div SIZE_OF_TAB * SIZE_OF_TAB\<rparr>
      else if c = CHR 0x0A then p\<lparr>mLine := mLine p + 1, mCol := FIRST_COL\<rparr>
      else if c = CHR 0x0B \<or> c = CHR 0x0C then p\<lparr>mLine := mLine p + 1\<rparr>
      else if c = CHR 0x0D then p\<lparr>mCol := FIRST_COL\<rparr>
      else if c = CHR 0x08 then (if mCol p \<noteq> FIRST_COL then p\<lparr>mCol := mCol p - 1\<rparr> else p)
      else if c_isprint c then p\<lparr>mCol := mCol p + 1\<rparr>
      else p)"

fun putString :: "string \<Rightarrow> line_col \<Rightarrow> line_col" where
  "putString [] p = p"
| "putString (c # cs) p = putString cs (putChar c p)"

lemma putString_append [simp]: "putString (xs @ ys) p = putString ys (putString xs p)"
  by (induction xs arbitrary: p) auto

subsection \<open>The cursor\<close>

record parse_string =
  beg :: string
  pos :: line_col

definition ParseString :: "string \<Rightarrow> parse_string" where
  "ParseString view = \<lparr>beg = view, pos = line_col_init\<rparr>"

definition lineCol :: "parse_string \<Rightarrow> line_col" where
  "lineCol s = pos s"

definition view :: "parse_string \<Rightarrow> string" where
  "view s = beg s"

definition empty_str :: "parse_string \<Rightarrow> bool" where
  "empty_str s = (beg s = [])"

definition advanceNoCheck :: "nat \<Rightarrow> parse_string \<Rightarrow> parse_string" where
  "advanceNoCheck n s = s\<lparr>beg := drop n (beg s), pos := putString (take n (beg s)) (pos s)\<rparr>"

definition advance :: "nat \<Rightarrow> parse_string \<Rightarrow> parse_string res" where
  "advance n s =
     (if n > length (beg s) then Inl (Out_of_range ''Advanced parse string too many characters'')
      else Inr (advanceNoCheck n s))"

text \<open>The loop of \<^verbatim>\<open>skip\<close>: advance by one character while the predicate holds of the front.\<close>

function skip :: "(char \<Rightarrow> bool) \<Rightarrow> parse_string \<Rightarrow> parse_string" where
  "skip P s =
     (if beg s \<noteq> [] \<and> P (hd (beg s)) then skip P (advanceNoCheck 1 s) else s)"
  by pat_completeness auto
termination
  by (relation "measure (\<lambda>(P, s). length (beg s))") (auto simp: advanceNoCheck_def)

declare skip.simps [simp del]

definition skipWhitespace :: "parse_string \<Rightarrow> parse_string" where
  "skipWhitespace s = skip c_isspace s"

definition skipUntil :: "(char \<Rightarrow> bool) \<Rightarrow> parse_string \<Rightarrow> parse_string" where
  "skipUntil P s = skip (\<lambda>c. \<not> P c) s"

definition check_pred :: "(char \<Rightarrow> bool) \<Rightarrow> parse_string \<Rightarrow> bool \<times> parse_string" where
  "check_pred P s =
     (if beg s = [] \<or> \<not> P (hd (beg s)) then (False, s) else (True, advanceNoCheck 1 s))"

definition check_char :: "char \<Rightarrow> parse_string \<Rightarrow> bool \<times> parse_string" where
  "check_char c s =
     (if beg s = [] \<or> hd (beg s) \<noteq> c then (False, s) else (True, advanceNoCheck 1 s))"

definition check_str :: "string \<Rightarrow> parse_string \<Rightarrow> bool \<times> parse_string" where
  "check_str d s =
     (if d = [] then (True, s)
      else if length (beg s) < length d then (False, s)
      else if take (length d) (beg s) = d then (True, advanceNoCheck (length d) s)
      else (False, s))"

text \<open>
  The two overloads of \<^verbatim>\<open>tryParseEnum\<close>: the index of the first name that matches the front, or the
  number of names. The second one also asks that the name is followed by the end or by a character
  that satisfies the predicate; a name of size zero that matches does not move the cursor.
\<close>

fun tryParseEnum_from :: "nat \<Rightarrow> string list \<Rightarrow> parse_string \<Rightarrow> nat \<times> parse_string" where
  "tryParseEnum_from i [] s = (i, s)"
| "tryParseEnum_from i (n # ns) s =
     (case check_str n s of
        (True, s') \<Rightarrow> (i, s')
      | (False, _) \<Rightarrow> tryParseEnum_from (Suc i) ns s)"

definition tryParseEnum :: "string list \<Rightarrow> parse_string \<Rightarrow> nat \<times> parse_string" where
  "tryParseEnum names s = tryParseEnum_from 0 names s"

fun tryParseEnumPred_from ::
  "nat \<Rightarrow> string list \<Rightarrow> (char \<Rightarrow> bool) \<Rightarrow> parse_string \<Rightarrow> nat \<times> parse_string" where
  "tryParseEnumPred_from i [] P s = (i, s)"
| "tryParseEnumPred_from i (n # ns) P s =
     (if length (beg s) < length n then tryParseEnumPred_from (Suc i) ns P s
      else if n = [] \<and> (beg s = [] \<or> P (hd (beg s))) then (i, s)
      else if (length n = length (beg s) \<or> P (beg s ! length n)) \<and> take (length n) (beg s) = n
      then (i, advanceNoCheck (length n) s)
      else tryParseEnumPred_from (Suc i) ns P s)"

definition tryParseEnumPred ::
  "string list \<Rightarrow> (char \<Rightarrow> bool) \<Rightarrow> parse_string \<Rightarrow> nat \<times> parse_string" where
  "tryParseEnumPred names P s = tryParseEnumPred_from 0 names P s"

text \<open>
  \<^verbatim>\<open>beginViewing\<close> remembers the cursor's position, \<^verbatim>\<open>endViewing\<close> is the text from that position up
  to the current one.
\<close>

definition beginViewing :: "parse_string \<Rightarrow> string" where
  "beginViewing s = beg s"

definition endViewing :: "string \<Rightarrow> parse_string \<Rightarrow> string" where
  "endViewing start s = take (length start - length (beg s)) start"


subsection \<open>Every operation of the cursor only moves it forward\<close>

text \<open>
  \<open>moves s s'\<close>: the cursor went from \<open>s\<close> to \<open>s'\<close> by passing over some text, and the line and column
  were carried through exactly that text. This is the contract that the lexer relies on.
\<close>

definition moves :: "parse_string \<Rightarrow> parse_string \<Rightarrow> bool" where
  "moves s s' \<longleftrightarrow> (\<exists>w. beg s = w @ beg s' \<and> pos s' = putString w (pos s))"

lemma moves_refl [simp, intro]: "moves s s"
  by (auto simp: moves_def)

lemma moves_trans [trans]: "moves s s' \<Longrightarrow> moves s' s'' \<Longrightarrow> moves s s''"
  by (force simp: moves_def)

lemma moves_suffix: "moves s s' \<Longrightarrow> suffix (beg s') (beg s)"
  by (auto simp: moves_def suffix_def)

lemma moves_length: "moves s s' \<Longrightarrow> length (beg s') \<le> length (beg s)"
  by (auto simp: moves_def)

lemma moves_same_length: "moves s s' \<Longrightarrow> length (beg s') = length (beg s) \<Longrightarrow> s' = s"
  by (auto simp: moves_def)

lemma endViewing_moves:
  assumes "moves s s'"
  shows "beg s = endViewing (beginViewing s) s' @ beg s'"
    and "pos s' = putString (endViewing (beginViewing s) s') (pos s)"
  using assms by (auto simp: moves_def endViewing_def beginViewing_def)

lemma advanceNoCheck_moves [intro]: "moves s (advanceNoCheck n s)"
  unfolding moves_def advanceNoCheck_def by (intro exI [of _ "take n (beg s)"]) simp

lemma advanceNoCheck_length: "length (beg (advanceNoCheck n s)) = length (beg s) - n"
  by (simp add: advanceNoCheck_def)

lemma advance_moves: "advance n s = Inr s' \<Longrightarrow> moves s s'"
  by (auto simp: advance_def split: if_splits)

lemma advance_length: "advance n s = Inr s' \<Longrightarrow> length (beg s') + n = length (beg s)"
  by (auto simp: advance_def advanceNoCheck_length split: if_splits)

lemma skip_moves [intro]: "moves s (skip P s)"
proof (induction P s rule: skip.induct)
  case (1 P s)
  then show ?case
    by (subst skip.simps) (auto intro: moves_trans [OF advanceNoCheck_moves])
qed

text \<open>The loop computes \<open>dropWhile\<close>.\<close>

lemma skip_eq:
  "skip P s = s\<lparr>beg := dropWhile P (beg s), pos := putString (takeWhile P (beg s)) (pos s)\<rparr>"
proof (induction P s rule: skip.induct)
  case (1 P s)
  show ?case
  proof (cases "beg s")
    case Nil
    then show ?thesis by (subst skip.simps) simp
  next
    case (Cons c cs)
    then show ?thesis using "1.IH"
      by (subst skip.simps) (auto simp: advanceNoCheck_def)
  qed
qed

lemma beg_skip [simp]: "beg (skip P s) = dropWhile P (beg s)"
  by (simp add: skip_eq)

lemma skipWhitespace_moves [intro]: "moves s (skipWhitespace s)"
  by (auto simp: skipWhitespace_def)

lemma skipUntil_moves [intro]: "moves s (skipUntil P s)"
  by (auto simp: skipUntil_def)

lemma beg_skipUntil [simp]: "beg (skipUntil P s) = dropWhile (\<lambda>c. \<not> P c) (beg s)"
  by (simp add: skipUntil_def)

lemma check_pred_moves: "check_pred P s = (b, s') \<Longrightarrow> moves s s'"
  by (auto simp: check_pred_def split: if_splits)

lemma check_char_moves: "check_char c s = (b, s') \<Longrightarrow> moves s s'"
  by (auto simp: check_char_def split: if_splits)

lemma check_str_moves: "check_str d s = (b, s') \<Longrightarrow> moves s s'"
  by (auto simp: check_str_def split: if_splits)

lemma check_pred_True:
  "check_pred P s = (True, s') \<Longrightarrow> \<exists>c. P c \<and> beg s = c # beg s'"
  by (cases "beg s") (auto simp: check_pred_def advanceNoCheck_def split: if_splits)

lemma check_char_True: "check_char c s = (True, s') \<Longrightarrow> beg s = c # beg s'"
  by (cases "beg s") (auto simp: check_char_def advanceNoCheck_def split: if_splits)

lemma check_char_False: "check_char c s = (False, s') \<Longrightarrow> s' = s"
  by (auto simp: check_char_def split: if_splits)

lemma check_str_True: "check_str d s = (True, s') \<Longrightarrow> beg s = d @ beg s'"
  by (auto simp: check_str_def advanceNoCheck_def split: if_splits)
     (metis append_take_drop_id)

lemma check_str_False: "check_str d s = (False, s') \<Longrightarrow> s' = s"
  by (auto simp: check_str_def split: if_splits)

lemma check_str_iff: "fst (check_str d s) \<longleftrightarrow> prefix d (beg s)"
  by (auto simp: check_str_def prefix_def)
     (metis append_take_drop_id)

text \<open>What the two enumeration parsers return: the first matching name and the cursor behind it.\<close>

lemma tryParseEnum_from_cases:
  assumes "tryParseEnum_from i names s = (k, s')"
  obtains (found) xs n ys where "names = xs @ n # ys" and "k = i + length xs"
      and "check_str n s = (True, s')" and "\<forall>m \<in> set xs. \<not> prefix m (beg s)"
  | (none) "k = i + length names" and "s' = s" and "\<forall>m \<in> set names. \<not> prefix m (beg s)"
  using assms
proof (induction names arbitrary: i thesis)
  case Nil
  then show ?case by simp
next
  case (Cons n ns)
  obtain b s1 where ch: "check_str n s = (b, s1)" by (cases "check_str n s")
  show ?case
  proof (cases b)
    case True
    with ch Cons.prems(3) have "k = i" "s' = s1" by auto
    with True ch Cons.prems(1) [of "[]" n ns] show ?thesis by simp
  next
    case False
    with ch have np: "\<not> prefix n (beg s)" using check_str_iff [of n s] by simp
    from False ch Cons.prems(3) have rec: "tryParseEnum_from (Suc i) ns s = (k, s')" by simp
    show ?thesis
    proof (rule Cons.IH [OF _ _ rec])
      fix xs m ys
      assume "ns = xs @ m # ys" "k = Suc i + length xs" "check_str m s = (True, s')"
        "\<forall>m \<in> set xs. \<not> prefix m (beg s)"
      with np Cons.prems(1) [of "n # xs" m ys] show thesis by simp
    next
      assume "k = Suc i + length ns" "s' = s" "\<forall>m \<in> set ns. \<not> prefix m (beg s)"
      with np Cons.prems(2) show thesis by simp
    qed
  qed
qed

lemma tryParseEnumPred_from_cases:
  assumes "tryParseEnumPred_from i names P s = (k, s')" and "[] \<notin> set names"
  obtains (found) xs n ys where "names = xs @ n # ys" and "k = i + length xs"
      and "beg s = n @ beg s'" and "s' = advanceNoCheck (length n) s"
      and "beg s' = [] \<or> P (hd (beg s'))"
  | (none) "k = i + length names" and "s' = s"
      and "\<forall>n \<in> set names. \<forall>r. beg s = n @ r \<longrightarrow> r \<noteq> [] \<and> \<not> P (hd r)"
  using assms
proof (induction names arbitrary: i thesis)
  case Nil
  then show ?case by simp
next
  case (Cons n ns)
  let ?hit = "length n \<le> length (beg s) \<and> (length n = length (beg s) \<or> P (beg s ! length n))
    \<and> take (length n) (beg s) = n"
  show ?case
  proof (cases ?hit)
    case True
    with Cons.prems(3,4) have eq: "k = i" "s' = advanceNoCheck (length n) s" by auto
    from True obtain r where "beg s = n @ r"
      by (metis append_take_drop_id)
    with True eq have "beg s = n @ beg s'" "beg s' = [] \<or> P (hd (beg s'))"
      by (auto simp: advanceNoCheck_def nth_append neq_Nil_conv) (metis hd_conv_nth)
    with eq Cons.prems(1) [of "[]" n ns] show ?thesis by simp
  next
    case False
    with Cons.prems(3,4) have rec: "tryParseEnumPred_from (Suc i) ns P s = (k, s')"
      by (auto split: if_splits)
    have miss: "\<forall>r. beg s = n @ r \<longrightarrow> r \<noteq> [] \<and> \<not> P (hd r)"
      using False by (auto simp: hd_conv_nth nth_append)
    show ?thesis
    proof (rule Cons.IH [OF _ _ rec])
      fix xs m ys
      assume "ns = xs @ m # ys" "k = Suc i + length xs" "beg s = m @ beg s'"
        "s' = advanceNoCheck (length m) s" "beg s' = [] \<or> P (hd (beg s'))"
      with Cons.prems(1) [of "n # xs" m ys] show thesis by simp
    next
      assume "k = Suc i + length ns" "s' = s"
        "\<forall>n \<in> set ns. \<forall>r. beg s = n @ r \<longrightarrow> r \<noteq> [] \<and> \<not> P (hd r)"
      with miss Cons.prems(2) show thesis by simp
    qed (use Cons.prems(4) in simp)
  qed
qed

end
