(* ===== verification/Number_Literal.thy ===== *)
theory Number_Literal
  imports Parse_String Complex_Main
begin

section \<open>Number, string and character literals\<close>

text \<open>
  \<^verbatim>\<open>src/Lex/number literal.cpp\<close>. The C library functions it calls, \<^verbatim>\<open>strtoll\<close>, \<^verbatim>\<open>strtoull\<close> and
  \<^verbatim>\<open>strtold\<close>, are modelled here: what they accept, how many characters they consume, the value and
  \<^verbatim>\<open>ERANGE\<close>. The format of \<^verbatim>\<open>long double\<close> is left to the implementation by the C++ standard, so its
  precision and exponent range are a parameter \<open>ld\<close>; \<^verbatim>\<open>float\<close> is IEEE single precision. A floating
  point value is an exact rational, an infinity or a NaN (the sign of zero is not kept). Reading
  one past the end of the literal's view (\<^verbatim>\<open>*res.ptr\<close> in \<^verbatim>\<open>validNumberLiteral\<close>) yields the byte that
  follows the source text in memory, the parameter \<open>past\<close>.
\<close>

subsection \<open>Integers from the C library\<close>

definition digit_of :: "char \<Rightarrow> int" where
  "digit_of c =
     (if c_isdigit c then of_char c - 48
      else if 97 \<le> (of_char c :: int) \<and> (of_char c :: int) \<le> 102 then of_char c - 87
      else if 65 \<le> (of_char c :: int) \<and> (of_char c :: int) \<le> 70 then of_char c - 55
      else 99)"

definition horner :: "int \<Rightarrow> string \<Rightarrow> int" where
  "horner b ds = foldl (\<lambda>a c. a * b + digit_of c) 0 ds"

text \<open>\<^verbatim>\<open>std::string nullTerm(first, min(32, last - first))\<close> read through \<^verbatim>\<open>c_str()\<close>.\<close>

definition nullTerm :: "string \<Rightarrow> string" where
  "nullTerm s = takeWhile (\<lambda>c. c \<noteq> CHR 0x00) (take 32 s)"

text \<open>White space and a sign: how many characters, and whether the sign is a minus.\<close>

definition scan_sign :: "string \<Rightarrow> bool \<times> nat" where
  "scan_sign s =
     (let ws = length (takeWhile c_isspace s); r = drop ws s in
      if r \<noteq> [] \<and> hd r = CHR ''-'' then (True, ws + 1)
      else if r \<noteq> [] \<and> hd r = CHR ''+'' then (False, ws + 1)
      else (False, ws))"

definition hex_prefix :: "string \<Rightarrow> bool" where
  "hex_prefix s = (2 \<le> length s \<and> s ! 0 = CHR ''0'' \<and> (s ! 1 = CHR ''x'' \<or> s ! 1 = CHR ''X''))"

definition int_base :: "int \<Rightarrow> string \<Rightarrow> int \<times> nat" where
  "int_base b s =
     (if (b = 0 \<or> b = 16) \<and> hex_prefix s \<and> 2 < length s \<and> digit_of (s ! 2) < 16 then (16, 2)
      else if b = 0 then (if s \<noteq> [] \<and> hd s = CHR ''0'' then (8, 0) else (10, 0))
      else (b, 0))"

text \<open>Sign, magnitude and number of characters of the integer at the front; no digit: nothing.\<close>

definition scan_int :: "int \<Rightarrow> string \<Rightarrow> (bool \<times> int \<times> nat) option" where
  "scan_int b s =
     (let (neg, k) = scan_sign s; r = drop k s; (b', p) = int_base b r;
          ds = takeWhile (\<lambda>c. digit_of c < b') (drop p r) in
      if ds = [] then None else Some (neg, horner b' ds, k + p + length ds))"

text \<open>Value, number of characters consumed, and whether \<^verbatim>\<open>errno\<close> is set.\<close>

definition strtoll :: "int \<Rightarrow> string \<Rightarrow> int \<times> nat \<times> bool" where
  "strtoll b s =
     (case scan_int b s of
        None \<Rightarrow> (0, 0, False)
      | Some (neg, n, k) \<Rightarrow>
          let v = (if neg then - n else n) in
          if v < - (2 ^ 63) then (- (2 ^ 63), k, True)
          else if v > 2 ^ 63 - 1 then (2 ^ 63 - 1, k, True)
          else (v, k, False))"

definition strtoull :: "int \<Rightarrow> string \<Rightarrow> int \<times> nat \<times> bool" where
  "strtoull b s =
     (case scan_int b s of
        None \<Rightarrow> (0, 0, False)
      | Some (neg, n, k) \<Rightarrow>
          if n > 2 ^ 64 - 1 then (2 ^ 64 - 1, k, True)
          else ((if neg then - n mod 2 ^ 64 else n), k, False))"

subsection \<open>Floating point from the C library\<close>

datatype fval = Fin rat | Inf bool | NaN

record fp_format =
  prec :: nat
  emin :: int
  emax :: int

definition float32 :: fp_format where
  "float32 = \<lparr>prec = 24, emin = -126, emax = 127\<rparr>"

definition pow_int :: "int \<Rightarrow> int \<Rightarrow> rat" where
  "pow_int b e = (if 0 \<le> e then of_int (b ^ nat e) else 1 / of_int (b ^ nat (- e)))"

function flog2 :: "int \<Rightarrow> int" where
  "flog2 n = (if n < 2 then 0 else 1 + flog2 (n div 2))"
  by pat_completeness auto
termination
  by (relation "measure nat") auto

declare flog2.simps [simp del]

text \<open>The exponent of a positive rational: \<open>2\<^sup>e \<le> q < 2\<^sup>e\<^sup>+\<^sup>1\<close>.\<close>

definition ilog2 :: "rat \<Rightarrow> int" where
  "ilog2 q =
     (let (a, b) = quotient_of q; d = flog2 a - flog2 b in
      if pow_int 2 d \<le> q then d else d - 1)"

definition round_half_even :: "rat \<Rightarrow> int" where
  "round_half_even x =
     (let f = \<lfloor>x\<rfloor>; r = x - of_int f in
      if r < 1 / 2 then f else if 1 / 2 < r then f + 1 else if even f then f else f + 1)"

text \<open>Rounding to nearest, ties to even, of a non-negative rational; unbounded above.\<close>

definition round_abs :: "fp_format \<Rightarrow> rat \<Rightarrow> rat" where
  "round_abs f q =
     (if q = 0 then 0
      else let e = max (ilog2 q) (emin f); u = pow_int 2 (e - int (prec f) + 1) in
        of_int (round_half_even (q / u)) * u)"

definition round_fp :: "fp_format \<Rightarrow> rat \<Rightarrow> rat" where
  "round_fp f q = (if q < 0 then - round_abs f (- q) else round_abs f q)"

definition fp_max :: "fp_format \<Rightarrow> rat" where
  "fp_max f = (2 - pow_int 2 (1 - int (prec f))) * pow_int 2 (emax f)"

text \<open>
  Digits, an optional point with digits (at least one digit in all), an optional exponent: the
  integer made of all digits, the number of digits after the point, the exponent and the number
  of characters.
\<close>

definition scan_exponent :: "char list \<Rightarrow> string \<Rightarrow> int \<times> nat" where
  "scan_exponent es s =
     (if s \<noteq> [] \<and> hd s \<in> set es then
        (let r = tl s;
             sg = (if r \<noteq> [] \<and> (hd r = CHR ''+'' \<or> hd r = CHR ''-'') then 1 else 0);
             ds = takeWhile c_isdigit (drop sg r) in
         if ds = [] then (0, 0)
         else ((if sg = 1 \<and> hd r = CHR ''-'' then - horner 10 ds else horner 10 ds),
               1 + sg + length ds))
      else (0, 0))"

definition scan_mantissa :: "int \<Rightarrow> char list \<Rightarrow> string \<Rightarrow> (int \<times> nat \<times> int \<times> nat) option" where
  "scan_mantissa b es s =
     (let ip = takeWhile (\<lambda>c. digit_of c < b) s; r = drop (length ip) s;
          dot = (if r \<noteq> [] \<and> hd r = CHR ''.'' then 1 else 0);
          fp = (if dot = 1 then takeWhile (\<lambda>c. digit_of c < b) (tl r) else []) in
      if ip @ fp = [] then None
      else (let k = length ip + dot + length fp; (e, ke) = scan_exponent es (drop k s) in
            Some (horner b (ip @ fp), length fp, e, k + ke)))"

definition c_tolower :: "char \<Rightarrow> char" where
  "c_tolower c = (if 65 \<le> (of_char c :: int) \<and> (of_char c :: int) \<le> 90
     then char_of ((of_char c :: int) + 32) else c)"

text \<open>The characters of \<^verbatim>\<open>nan\<close>, with the optional \<^verbatim>\<open>(n-char-sequence)\<close>.\<close>

definition scan_nan :: "string \<Rightarrow> nat" where
  "scan_nan r =
     (let r' = drop 3 r; cs = takeWhile (\<lambda>c. c_isalnum c \<or> c = CHR ''_'') (tl r') in
      if r' \<noteq> [] \<and> hd r' = CHR ''('' \<and> drop (length cs) (tl r') \<noteq> []
         \<and> hd (drop (length cs) (tl r')) = CHR '')''
      then 5 + length cs else 3)"

datatype real_lit = Exact rat | Infinite | Not_a_number

definition scan_real :: "string \<Rightarrow> (bool \<times> real_lit \<times> nat) option" where
  "scan_real s =
     (let (neg, k) = scan_sign s; r = drop k s; low = map c_tolower r in
      if take 8 low = ''infinity'' then Some (neg, Infinite, k + 8)
      else if take 3 low = ''inf'' then Some (neg, Infinite, k + 3)
      else if take 3 low = ''nan'' then Some (neg, Not_a_number, k + scan_nan r)
      else case (if hex_prefix r then scan_mantissa 16 ''pP'' (drop 2 r) else None) of
        Some (n, f, e, j) \<Rightarrow> Some (neg, Exact (of_int n * pow_int 2 (e - 4 * int f)), k + 2 + j)
      | None \<Rightarrow>
          (case scan_mantissa 10 ''eE'' (if hex_prefix r then take 1 r else r) of
             Some (n, f, e, j) \<Rightarrow> Some (neg, Exact (of_int n * pow_int 10 (e - int f)), k + j)
           | None \<Rightarrow> None))"

definition strtold :: "fp_format \<Rightarrow> string \<Rightarrow> fval \<times> nat \<times> bool" where
  "strtold ld s =
     (case scan_real s of
        None \<Rightarrow> (Fin 0, 0, False)
      | Some (neg, Infinite, k) \<Rightarrow> (Inf neg, k, False)
      | Some (neg, Not_a_number, k) \<Rightarrow> (NaN, k, False)
      | Some (neg, Exact q, k) \<Rightarrow>
          let r = round_abs ld q in
          if fp_max ld < r then (Inf neg, k, True)
          else (Fin (if neg then - r else r), k, r < pow_int 2 (emin ld) \<and> r \<noteq> q))"

subsection \<open>from\_chars\<close>

text \<open>
  The three instantiations of the template; \<open>None\<close> is \<^verbatim>\<open>{first, true}\<close>, otherwise the number and
  the offset of \<^verbatim>\<open>ptr\<close> from \<^verbatim>\<open>first\<close>. Integers: the limits of the number type are arguments.
\<close>

definition from_chars_real :: "fp_format \<Rightarrow> string \<Rightarrow> (fval \<times> nat) option" where
  "from_chars_real ld s =
     (let (v, k, erange) = strtold ld (nullTerm s) in
      if erange \<or> (k = 0 \<and> v = Fin 0) then None
      else case v of
        Fin q \<Rightarrow> if q < - fp_max float32 \<or> fp_max float32 < q then None
                  else Some (Fin (round_fp float32 q), k)
      | Inf _ \<Rightarrow> None
      | NaN \<Rightarrow> Some (NaN, k))"

definition from_chars_signed :: "int \<Rightarrow> int \<Rightarrow> int \<Rightarrow> string \<Rightarrow> (int \<times> nat) option" where
  "from_chars_signed lo hi b s =
     (let (v, k, erange) = strtoll b (nullTerm s) in
      if erange \<or> (k = 0 \<and> v = 0) then None
      else if v < lo \<or> hi < v then None
      else Some (v, k))"

definition from_chars_unsigned :: "int \<Rightarrow> int \<Rightarrow> string \<Rightarrow> (int \<times> nat) option" where
  "from_chars_unsigned hi b s =
     (let (v, k, erange) = strtoull b (nullTerm s) in
      if erange \<or> (k = 0 \<and> v = 0) then None
      else if hi < v then None
      else Some (v, k))"

subsection \<open>Suffixes and ranges\<close>

datatype int_ty = TByte | TChar | TSint | TUint

fun lowest :: "int_ty \<Rightarrow> int" where
  "lowest TByte = 0" | "lowest TChar = -128" | "lowest TSint = - (2 ^ 31)" | "lowest TUint = 0"

fun highest :: "int_ty \<Rightarrow> int" where
  "highest TByte = 255" | "highest TChar = 127" | "highest TSint = 2 ^ 31 - 1"
| "highest TUint = 2 ^ 32 - 1"

definition trunc_rat :: "rat \<Rightarrow> int" where
  "trunc_rat q = (if q < 0 then - \<lfloor>- q\<rfloor> else \<lfloor>q\<rfloor>)"

text \<open>
  \<^verbatim>\<open>inRange<Dst>(num)\<close> for \<^verbatim>\<open>Src = Real\<close>: the limits are rounded to float, and the conversion of
  \<^verbatim>\<open>num\<close> to \<^verbatim>\<open>Dst\<close> is undefined when the truncated value does not fit.
\<close>

definition inRange_real :: "int_ty \<Rightarrow> fval \<Rightarrow> bool res" where
  "inRange_real dst v =
     (case v of
        Fin q \<Rightarrow>
          if round_fp float32 (of_int (lowest dst)) \<le> q \<and> q \<le> round_fp float32 (of_int (highest dst))
          then (if lowest dst \<le> trunc_rat q \<and> trunc_rat q \<le> highest dst
                then Inr (q = round_fp float32 (of_int (trunc_rat q)))
                else Inl (Undefined ''float to integer conversion out of range''))
          else Inr False
      | _ \<Rightarrow> Inr False)"

text \<open>\<^verbatim>\<open>inRange<Real>(num)\<close> for \<^verbatim>\<open>Src = Real\<close>.\<close>

definition inRange_real_real :: "fval \<Rightarrow> bool" where
  "inRange_real_real v = (case v of Fin q \<Rightarrow> - fp_max float32 \<le> q \<and> q \<le> fp_max float32 | _ \<Rightarrow> False)"

text \<open>
  \<^verbatim>\<open>inRange<Dst>(num)\<close> for an integral \<^verbatim>\<open>Src\<close>: the limits are converted to \<^verbatim>\<open>Src\<close>, which wraps for an
  unsigned \<^verbatim>\<open>Src\<close>.
\<close>

definition inRange_uint :: "int_ty \<Rightarrow> int \<Rightarrow> bool" where
  "inRange_uint dst n =
     (lowest dst mod 2 ^ 32 \<le> n \<and> n \<le> highest dst mod 2 ^ 32
      \<and> lowest dst \<le> n \<and> n \<le> highest dst)"

definition inRange_sint :: "int_ty \<Rightarrow> int \<Rightarrow> bool" where
  "inRange_sint dst n =
     (let wrap = (\<lambda>i :: int. (i + 2 ^ 31) mod 2 ^ 32 - 2 ^ 31) in
      wrap (lowest dst) \<le> n \<and> n \<le> wrap (highest dst) \<and>
      (if dst = TUint then True else lowest dst \<le> n \<and> n \<le> highest dst))"

definition eqEither :: "char \<Rightarrow> char \<Rightarrow> char \<Rightarrow> bool" where
  "eqEither value a b = (value = a \<or> value = b)"

datatype src_num = SReal fval | SUint int | SSint int

definition inRange :: "int_ty \<Rightarrow> src_num \<Rightarrow> bool res" where
  "inRange dst num =
     (case num of
        SReal v \<Rightarrow> inRange_real dst v
      | SUint n \<Rightarrow> Inr (inRange_uint dst n)
      | SSint n \<Rightarrow> Inr (inRange_sint dst n))"

definition inRangeReal :: "src_num \<Rightarrow> bool res" where
  "inRangeReal num =
     (case num of
        SReal v \<Rightarrow> Inr (inRange_real_real v)
      | _ \<Rightarrow> Inl (Undefined ''float to integer conversion out of range''))"

definition hasValidSuffix :: "char \<Rightarrow> src_num \<Rightarrow> loc \<Rightarrow> bool res" where
  "hasValidSuffix suf num loc =
     (let require = (\<lambda>r msg. bindE r (\<lambda>ok. if ok then Inr True else Inl (Fatal loc msg))) in
      if eqEither suf CHR ''b'' CHR ''B'' then
        require (inRange TByte num) ''Number literal cannot be represented as byte''
      else if eqEither suf CHR ''c'' CHR ''C'' then
        require (inRange TChar num) ''Number literal cannot be represented as char''
      else if eqEither suf CHR ''r'' CHR ''R'' then
        require (inRangeReal num) ''Number literal cannot be represented as real''
      else if eqEither suf CHR ''s'' CHR ''S'' then
        require (inRange TSint num) ''Number literal cannot be represented as sint''
      else if eqEither suf CHR ''u'' CHR ''U'' then
        require (inRange TUint num) ''Number literal cannot be represented as uint''
      else Inr False)"

definition char_at :: "char \<Rightarrow> string \<Rightarrow> nat \<Rightarrow> char" where
  "char_at past s k = (if k < length s then s ! k else past)"

definition with_suffix :: "char \<Rightarrow> string \<Rightarrow> loc \<Rightarrow> src_num \<Rightarrow> nat \<Rightarrow> nat res" where
  "with_suffix past s loc num sz =
     bindE (hasValidSuffix (char_at past s sz) num loc)
       (\<lambda>ok. Inr (if ok then sz + 1 else sz))"

definition validNumberLiteral :: "fp_format \<Rightarrow> char \<Rightarrow> string \<Rightarrow> loc \<Rightarrow> nat res" where
  "validNumberLiteral ld past s loc =
     (if s = [] then Inl (Undefined ''assertion: empty literal'')
      else case from_chars_real ld s of
        Some (rl, sz) \<Rightarrow> with_suffix past s loc (SReal rl) sz
      | None \<Rightarrow>
          (case from_chars_unsigned 4294967295 0 s of
             Some (un, sz) \<Rightarrow> with_suffix past s loc (SUint un) sz
           | None \<Rightarrow>
               (case from_chars_signed (- 2147483648) 2147483647 0 s of
                  Some (sn, sz) \<Rightarrow> with_suffix past s loc (SSint sn) sz
                | None \<Rightarrow> Inr 0)))"

subsection \<open>The value of a number literal\<close>

text \<open>\<^verbatim>\<open>NumberVariant\<close>: \<^verbatim>\<open>std::variant<monostate, Byte, Char, Real, Sint, Uint>\<close>.\<close>

datatype number_variant =
    Monostate | NByte "8 word" | NChar "8 word" | NReal fval | NSint "32 word" | NUint "32 word"

text \<open>
  With a suffix, the result of \<^verbatim>\<open>from_chars\<close> is not looked at: when it fails, the variable that is
  returned has never been assigned.
\<close>

definition assigned :: "('a \<times> nat) option \<Rightarrow> ('a \<Rightarrow> number_variant) \<Rightarrow> number_variant res" where
  "assigned r mk =
     (case r of
        Some (v, _) \<Rightarrow> Inr (mk v)
      | None \<Rightarrow> Inl (Undefined ''number returned without a value''))"

definition reaches_end :: "string \<Rightarrow> ('a \<times> nat) option \<Rightarrow> bool" where
  "reaches_end s r = (case r of Some (_, k) \<Rightarrow> k = length s | None \<Rightarrow> s = [])"

abbreviation from_chars_byte :: "string \<Rightarrow> (int \<times> nat) option" where
  "from_chars_byte s \<equiv> from_chars_unsigned 255 0 s"
abbreviation from_chars_char :: "string \<Rightarrow> (int \<times> nat) option" where
  "from_chars_char s \<equiv> from_chars_signed (- 128) 127 0 s"
abbreviation from_chars_sint :: "string \<Rightarrow> (int \<times> nat) option" where
  "from_chars_sint s \<equiv> from_chars_signed (- 2147483648) 2147483647 0 s"
abbreviation from_chars_uint :: "string \<Rightarrow> (int \<times> nat) option" where
  "from_chars_uint s \<equiv> from_chars_unsigned 4294967295 0 s"

definition parseNumberLiteral :: "fp_format \<Rightarrow> string \<Rightarrow> number_variant res" where
  "parseNumberLiteral ld s =
     (if s = [] then Inl (Undefined ''assertion: empty literal'')
      else if eqEither (last s) CHR ''b'' CHR ''B'' then
        assigned (from_chars_byte s) (\<lambda>v. NByte (word_of_int v))
      else if eqEither (last s) CHR ''c'' CHR ''C'' then
        assigned (from_chars_char s) (\<lambda>v. NChar (word_of_int v))
      else if eqEither (last s) CHR ''r'' CHR ''R'' then assigned (from_chars_real ld s) NReal
      else if eqEither (last s) CHR ''s'' CHR ''S'' then
        assigned (from_chars_sint s) (\<lambda>v. NSint (word_of_int v))
      else if eqEither (last s) CHR ''u'' CHR ''U'' then
        assigned (from_chars_uint s) (\<lambda>v. NUint (word_of_int v))
      else if reaches_end s (from_chars_sint s) then
        assigned (from_chars_sint s) (\<lambda>v. NSint (word_of_int v))
      else if reaches_end s (from_chars_uint s) then
        assigned (from_chars_uint s) (\<lambda>v. NUint (word_of_int v))
      else if reaches_end s (from_chars_real ld s) then assigned (from_chars_real ld s) NReal
      else Inl (Undefined ''UNREACHABLE''))"

subsection \<open>Escape sequences\<close>

definition isOctDigit :: "char \<Rightarrow> bool" where
  "isOctDigit c = (c_isdigit c \<and> c \<noteq> CHR ''8'' \<and> c \<noteq> CHR ''9'')"

definition isHexDigit :: "char \<Rightarrow> bool" where
  "isHexDigit c = c_isxdigit c"

text \<open>
  \<^verbatim>\<open>parseOctChar\<close> and \<^verbatim>\<open>parseHexChar\<close>: the character and the text behind the digits (the iterator is
  left on the last digit and the caller's loop steps over it).
\<close>

definition parseDigitsChar ::
  "(char \<Rightarrow> bool) \<Rightarrow> int \<Rightarrow> string \<Rightarrow> loc \<Rightarrow> string \<Rightarrow> (char \<times> string) res" where
  "parseDigitsChar isDig b msg loc s =
     (let ds = takeWhile isDig s in
      case from_chars_signed (- (2 ^ 63)) (2 ^ 63 - 1) b ds of
        None \<Rightarrow> Inl (Fatal loc msg)
      | Some (code, _) \<Rightarrow>
          if lowest TChar \<le> code \<and> code \<le> highest TChar
          then Inr (char_of (code mod 256), drop (length ds) s)
          else Inl (Fatal loc msg))"

definition parseOctChar :: "loc \<Rightarrow> string \<Rightarrow> (char \<times> string) res" where
  "parseOctChar loc s = parseDigitsChar isOctDigit 8 ''Octal sequence out of range'' loc s"

definition parseHexChar :: "loc \<Rightarrow> string \<Rightarrow> (char \<times> string) res" where
  "parseHexChar loc s = parseDigitsChar isHexDigit 16 ''Hex sequence out of range'' loc s"

definition simple_escape :: "char \<Rightarrow> char option" where
  "simple_escape c =
     (if c = CHR 0x27 \<or> c = CHR 0x22 \<or> c = CHR ''?'' \<or> c = CHR 0x5C then Some c
      else if c = CHR ''a'' then Some (CHR 0x07)
      else if c = CHR ''b'' then Some (CHR 0x08)
      else if c = CHR ''f'' then Some (CHR 0x0C)
      else if c = CHR ''n'' then Some (CHR 0x0A)
      else if c = CHR ''r'' then Some (CHR 0x0D)
      else if c = CHR ''t'' then Some (CHR 0x09)
      else if c = CHR ''v'' then Some (CHR 0x0B)
      else None)"

lemma parseDigitsChar_rest:
  "parseDigitsChar isDig b msg loc s = Inr p \<Longrightarrow> snd p = dropWhile isDig s"
  by (auto simp: parseDigitsChar_def Let_def dropWhile_eq_drop split: option.splits if_splits)

text \<open>The loop over the literal, with the accumulated string and the flag \<^verbatim>\<open>prevWasBack\<close>.\<close>

function parseStringLiteral_loop :: "loc \<Rightarrow> string \<Rightarrow> bool \<Rightarrow> string \<Rightarrow> string res" where
  "parseStringLiteral_loop loc str prevWasBack [] =
     (if prevWasBack then Inl (Undefined ''assertion: literal ends in a backslash'') else Inr str)"
| "parseStringLiteral_loop loc str prevWasBack (c # cs) =
     (if prevWasBack then
        (case simple_escape c of
           Some e \<Rightarrow> parseStringLiteral_loop loc (str @ [e]) False cs
         | None \<Rightarrow>
             if isOctDigit c then
               bindE (parseOctChar loc (c # cs))
                 (\<lambda>p. parseStringLiteral_loop loc (str @ [fst p]) False (snd p))
             else if c = CHR ''x'' then
               bindE (parseHexChar loc cs)
                 (\<lambda>p. parseStringLiteral_loop loc (str @ [fst p]) False (snd p))
             else parseStringLiteral_loop loc str False cs)
      else if c = CHR 0x5C then parseStringLiteral_loop loc str True cs
      else parseStringLiteral_loop loc (str @ [c]) False cs)"
  by pat_completeness auto
termination
  by (relation "measure (\<lambda>(loc, str, b, cs). length cs)")
     (auto simp: parseOctChar_def parseHexChar_def less_Suc_eq_le length_dropWhile_le
       dest!: parseDigitsChar_rest)

declare parseStringLiteral_loop.simps [simp del]

definition parseStringLiteral :: "string \<Rightarrow> loc \<Rightarrow> string res" where
  "parseStringLiteral lit loc = parseStringLiteral_loop loc [] False lit"

end
