(* ===== verification/Lexer.thy ===== *)
theory Lexer
  imports Number_Literal
begin

section \<open>Lexical analysis\<close>

text \<open>
  \<^verbatim>\<open>src/Lex/lexical analysis.cpp\<close> and \<^verbatim>\<open>include/STELA/token.hpp\<close>. Each \<^verbatim>\<open>parseX(token, str)\<close> of the
  source is a function from the cursor to \<open>None\<close> (it returned false and left the cursor) or the new
  cursor; the token type it would set is supplied by \<open>next_token\<close>, which is one turn of the loop
  of \<^verbatim>\<open>tokenize\<close>. The loop itself is \<open>tokenize_from\<close>. The verbose log lines are not modelled.
\<close>

datatype token_type = T_keyword | T_identifier | T_number | T_string | T_character | T_oper

record token =
  tview :: string
  tloc :: loc
  ttype :: token_type

definition stela_keywords :: "string list" where
  "stela_keywords =
    [''extern'', ''func'', ''ref'', ''return'', ''struct'', ''true'', ''false'', ''let'', ''var'',
     ''type'', ''make'', ''if'', ''else'', ''switch'', ''case'', ''default'', ''while'', ''for'',
     ''break'', ''continue'', ''module'', ''import'']"

definition oper :: "string list" where
  "oper =
    [''<<='', ''>>='', ''=='', ''!='', ''<='', ''>='', ''&&'', ''||'', ''--'', ''++'', ''->'', '':='',
     ''+='', ''-='', ''*='', ''/='', ''%='', ''&='', ''|='', ''^='', ''<<'', ''>>'', ''='', ''!'', ''<'',
     ''>'', ''&'', ''|'', ''^'', ''~'', ''{'', ''}'', ''('', '')'', ''['', '']'', ''+'', ''-'', ''*'', ''/'',
     ''%'', ''.'', '','', ''?'', '':'', '';'']"

definition loc_of :: "line_col \<Rightarrow> loc" where
  "loc_of p = Loc (mLine p) (mCol p)"

definition startIdent :: "char \<Rightarrow> bool" where
  "startIdent c = (c_isalpha c \<or> c = CHR ''_'')"

definition continueIdent :: "char \<Rightarrow> bool" where
  "continueIdent c = (c_isalnum c \<or> c = CHR ''_'')"

definition parseKeyword :: "parse_string \<Rightarrow> parse_string option" where
  "parseKeyword s =
     (let (k, s') = tryParseEnumPred stela_keywords (\<lambda>c. \<not> continueIdent c) s in
      if k \<noteq> length stela_keywords then Some s' else None)"

definition parseIdent :: "parse_string \<Rightarrow> parse_string option" where
  "parseIdent s =
     (let (b, s') = check_pred startIdent s in
      if b then Some (skip continueIdent s') else None)"

definition parseNumber :: "fp_format \<Rightarrow> char \<Rightarrow> parse_string \<Rightarrow> parse_string option res" where
  "parseNumber ld past s =
     bindE (validNumberLiteral ld past (view s) (loc_of (lineCol s)))
       (\<lambda>numberChars.
          if numberChars = 0 then Inr None
          else bindE (advance numberChars s) (\<lambda>s'. Inr (Some s')))"

text \<open>
  The loop of \<^verbatim>\<open>parseString\<close> and \<^verbatim>\<open>parseChar\<close>, which differ in the quote and the message. Behind a
  backslash, \<^verbatim>\<open>advance()\<close> throws at the end of the text.
\<close>

function quoted_loop :: "char \<Rightarrow> string \<Rightarrow> parse_string \<Rightarrow> parse_string res" where
  "quoted_loop q msg s =
     (let s1 = skipUntil (\<lambda>c. c = CHR 0x0A \<or> c = CHR 0x5C \<or> c = q) s;
          (b, s2) = check_char q s1 in
      if b then Inr s2
      else let (b', s3) = check_char CHR 0x5C s1 in
        if b' then bindE (advance 1 s3) (\<lambda>s4. quoted_loop q msg s4)
        else Inl (Fatal (loc_of (lineCol s1)) msg))"
  by pat_completeness auto
termination
proof (relation "measure (\<lambda>(q, msg, s). length (beg s))", goal_cases)
  case (2 q msg s s1 x b s2 y b' s3 s4)
  then have "check_char CHR 0x5C s1 = (True, s3)" by simp
  then have "beg s1 = CHR 0x5C # beg s3" by (rule check_char_True)
  moreover have "length (beg s1) \<le> length (beg s)" using 2 by (simp add: length_dropWhile_le)
  moreover have "length (beg s4) + 1 = length (beg s3)" using 2 by (auto dest: advance_length)
  ultimately show ?case by simp
qed simp

declare quoted_loop.simps [simp del]

definition parseString :: "parse_string \<Rightarrow> parse_string option res" where
  "parseString s =
     (let (b, s') = check_char CHR 0x22 s in
      if b then bindE (quoted_loop CHR 0x22 ''Unterminated string literal'' s') (\<lambda>r. Inr (Some r))
      else Inr None)"

definition parseChar :: "parse_string \<Rightarrow> parse_string option res" where
  "parseChar s =
     (let (b, s') = check_char CHR 0x27 s in
      if b then bindE (quoted_loop CHR 0x27 ''Unterminated character literal'' s') (\<lambda>r. Inr (Some r))
      else Inr None)"

definition parseOper :: "parse_string \<Rightarrow> parse_string option" where
  "parseOper s =
     (let (k, s') = tryParseEnum oper s in
      if k \<noteq> length oper then Some s' else None)"

definition parseLineComment :: "parse_string \<Rightarrow> parse_string option" where
  "parseLineComment s =
     (let (b, s') = check_str ''//'' s in
      if b then Some (skipUntil (\<lambda>c. c = CHR 0x0A) s') else None)"

text \<open>
  The loop of \<^verbatim>\<open>parseMultiComment\<close>; \<^verbatim>\<open>depth\<close> is a \<^verbatim>\<open>uint32_t\<close>. At its end the cursor is either
  empty (fatal) or on a \<^verbatim>\<open>*\<close> or \<^verbatim>\<open>/\<close> that is skipped.
\<close>

function multi_loop :: "loc \<Rightarrow> u32 \<Rightarrow> parse_string \<Rightarrow> parse_string res" where
  "multi_loop loc depth s =
     (let s1 = skipUntil (\<lambda>c. c = CHR ''*'' \<or> c = CHR ''/'') s;
          (b, s2) = check_str ''*/'' s1 in
      if b then (if depth - 1 = 0 then Inr s2 else multi_loop loc (depth - 1) s2)
      else let (b', s3) = check_str ''/*'' s1 in
        if b' then multi_loop loc (depth + 1) s3
        else if empty_str s1 then Inl (Fatal loc ''Unterminated multi-line comment'')
        else bindE (advance 1 s1) (\<lambda>s4. multi_loop loc depth s4))"
  by pat_completeness auto
termination
proof (relation "measure (\<lambda>(loc, depth, s). length (beg s))", goal_cases)
  case (2 loc depth s s1 x b s2)
  then have "check_str ''*/'' s1 = (True, s2)" by simp
  then have "beg s1 = ''*/'' @ beg s2" by (rule check_str_True)
  moreover have "length (beg s1) \<le> length (beg s)" using 2 by (simp add: length_dropWhile_le)
  ultimately show ?case by simp
next
  case (3 loc depth s s1 x b s2 y b' s3)
  then have "check_str ''/*'' s1 = (True, s3)" by simp
  then have "beg s1 = ''/*'' @ beg s3" by (rule check_str_True)
  moreover have "length (beg s1) \<le> length (beg s)" using 3 by (simp add: length_dropWhile_le)
  ultimately show ?case by simp
next
  case (4 loc depth s s1 x b s2 y b' s3 s4)
  then have "length (beg s1) \<le> length (beg s)" "length (beg s4) + 1 = length (beg s1)"
    by (auto simp: length_dropWhile_le dest: advance_length)
  then show ?case by simp
qed simp

declare multi_loop.simps [simp del]

definition parseMultiComment :: "parse_string \<Rightarrow> parse_string option res" where
  "parseMultiComment s =
     (let (b, s') = check_str ''/*'' s in
      if b then bindE (multi_loop (loc_of (lineCol s)) 1 s') (\<lambda>r. Inr (Some r))
      else Inr None)"

text \<open>
  One turn of the loop behind \<^verbatim>\<open>skipWhitespace\<close>, on a non-empty cursor: the type of the token that
  was read (nothing for a comment) and the cursor behind it.
\<close>

definition next_token ::
  "fp_format \<Rightarrow> char \<Rightarrow> parse_string \<Rightarrow> (token_type option \<times> parse_string) res" where
  "next_token ld past s =
     (case parseLineComment s of Some s' \<Rightarrow> Inr (None, s') | None \<Rightarrow>
      bindE (parseMultiComment s) (\<lambda>r. case r of Some s' \<Rightarrow> Inr (None, s') | None \<Rightarrow>
      (case parseKeyword s of Some s' \<Rightarrow> Inr (Some T_keyword, s') | None \<Rightarrow>
      bindE (parseNumber ld past s) (\<lambda>r. case r of Some s' \<Rightarrow> Inr (Some T_number, s') | None \<Rightarrow>
      (case parseOper s of Some s' \<Rightarrow> Inr (Some T_oper, s') | None \<Rightarrow>
      (case parseIdent s of Some s' \<Rightarrow> Inr (Some T_identifier, s') | None \<Rightarrow>
      bindE (parseString s) (\<lambda>r. case r of Some s' \<Rightarrow> Inr (Some T_string, s') | None \<Rightarrow>
      bindE (parseChar s) (\<lambda>r. case r of Some s' \<Rightarrow> Inr (Some T_character, s') | None \<Rightarrow>
        Inl (Fatal (loc_of (lineCol s)) ''Invalid token'')))))))))"

subsection \<open>Every step moves the cursor forward over at least one character\<close>

lemma keywords_nonempty: "[] \<notin> set stela_keywords"
  by (simp add: stela_keywords_def)

lemma oper_nonempty: "[] \<notin> set oper"
  by (simp add: oper_def)

definition advances :: "parse_string \<Rightarrow> parse_string \<Rightarrow> bool" where
  "advances s s' \<longleftrightarrow> moves s s' \<and> length (beg s') < length (beg s)"

lemma advances_moves_trans [trans]: "advances s s' \<Longrightarrow> moves s' s'' \<Longrightarrow> advances s s''"
  by (auto simp: advances_def dest: moves_trans moves_length)

lemma moves_advances_trans [trans]: "moves s s' \<Longrightarrow> advances s' s'' \<Longrightarrow> advances s s''"
  by (auto simp: advances_def dest: moves_trans moves_length)

lemma check_char_advances: "check_char c s = (True, s') \<Longrightarrow> advances s s'"
  by (auto simp: advances_def dest: check_char_moves check_char_True)

lemma check_str_advances: "check_str d s = (True, s') \<Longrightarrow> d \<noteq> [] \<Longrightarrow> advances s s'"
  by (auto simp: advances_def dest: check_str_moves check_str_True)

lemma quoted_loop_moves: "quoted_loop q msg s = Inr s' \<Longrightarrow> moves s s'"
proof (induction q msg s rule: quoted_loop.induct)
  case (1 q msg s)
  define s1 where "s1 = skipUntil (\<lambda>c. c = CHR 0x0A \<or> c = CHR 0x5C \<or> c = q) s"
  obtain b s2 where ch: "check_char q s1 = (b, s2)" by force
  obtain b' s3 where ch': "check_char CHR 0x5C s1 = (b', s3)" by force
  have m1: "moves s s1" by (auto simp: s1_def)
  show ?case
  proof (cases b)
    case True
    with "1.prems" ch have "s' = s2"
      by (subst (asm) quoted_loop.simps) (simp add: s1_def [symmetric] Let_def)
    with m1 ch show ?thesis by (auto intro: moves_trans check_char_moves)
  next
    case False
    with "1.prems" ch ch' obtain s4 where b': b' and s4: "advance 1 s3 = Inr s4"
      and rec: "quoted_loop q msg s4 = Inr s'"
      by (subst (asm) quoted_loop.simps) (auto simp: s1_def [symmetric] Let_def split: if_splits)
    have "moves s4 s'"
      by (rule "1.IH" [OF s1_def ch [symmetric] refl False ch' [symmetric] refl b' s4 rec])
    with m1 ch' s4 show ?thesis
      by (blast intro: moves_trans check_char_moves advance_moves)
  qed
qed

lemma multi_loop_moves: "multi_loop loc depth s = Inr s' \<Longrightarrow> moves s s'"
proof (induction loc depth s rule: multi_loop.induct)
  case (1 loc depth s)
  define s1 where "s1 = skipUntil (\<lambda>c. c = CHR ''*'' \<or> c = CHR ''/'') s"
  obtain b s2 where ch: "check_str ''*/'' s1 = (b, s2)" by force
  obtain b' s3 where ch': "check_str ''/*'' s1 = (b', s3)" by force
  have m1: "moves s s1" by (auto simp: s1_def)
  note unf = "1.prems" [unfolded multi_loop.simps [of loc depth s] Let_def, folded s1_def]
  consider (close) b | (nested) "\<not> b" b' | (other) "\<not> b" "\<not> b'" by blast
  then show ?case
  proof cases
    case close
    then have "moves s2 s'"
      using unf ch "1.IH"(1) [OF s1_def ch [symmetric] refl] by (auto split: if_splits)
    with m1 ch show ?thesis by (blast intro: moves_trans check_str_moves)
  next
    case nested
    then have "moves s3 s'"
      using unf ch ch' "1.IH"(2) [OF s1_def ch [symmetric] refl _ ch' [symmetric] refl]
      by (auto split: if_splits)
    with m1 ch' show ?thesis by (blast intro: moves_trans check_str_moves)
  next
    case other
    with unf ch ch' obtain s4 where e: "\<not> empty_str s1" and s4: "advance 1 s1 = Inr s4"
      and rec: "multi_loop loc depth s4 = Inr s'" by (auto split: if_splits)
    have "moves s4 s'"
      by (rule "1.IH"(3) [OF s1_def ch [symmetric] refl other(1) ch' [symmetric] refl other(2) e s4 rec])
    with m1 s4 show ?thesis by (blast intro: moves_trans advance_moves)
  qed
qed

lemma parseLineComment_advances: "parseLineComment s = Some s' \<Longrightarrow> advances s s'"
  by (auto simp: parseLineComment_def split: prod.splits if_splits
      intro: advances_moves_trans [OF check_str_advances])

lemma parseMultiComment_advances: "parseMultiComment s = Inr (Some s') \<Longrightarrow> advances s s'"
  by (auto simp: parseMultiComment_def split: prod.splits if_splits
      intro: advances_moves_trans [OF check_str_advances multi_loop_moves])

lemma parseString_advances: "parseString s = Inr (Some s') \<Longrightarrow> advances s s'"
  by (auto simp: parseString_def split: prod.splits if_splits
      intro: advances_moves_trans [OF check_char_advances quoted_loop_moves])

lemma parseChar_advances: "parseChar s = Inr (Some s') \<Longrightarrow> advances s s'"
  by (auto simp: parseChar_def split: prod.splits if_splits
      intro: advances_moves_trans [OF check_char_advances quoted_loop_moves])

lemma parseIdent_advances: "parseIdent s = Some s' \<Longrightarrow> advances s s'"
  by (auto simp: parseIdent_def advances_def less_Suc_eq_le length_dropWhile_le
      split: prod.splits if_splits dest: check_pred_moves check_pred_True
      intro: moves_trans [OF _ skip_moves])

lemma parseNumber_advances: "parseNumber ld past s = Inr (Some s') \<Longrightarrow> advances s s'"
  by (auto simp: parseNumber_def advances_def split: if_splits dest: advance_moves advance_length)

lemma parseKeyword_cases:
  assumes "parseKeyword s = Some s'"
  obtains kw where "kw \<in> set stela_keywords" "beg s = kw @ beg s'" "s' = advanceNoCheck (length kw) s"
    "beg s' = [] \<or> \<not> continueIdent (hd (beg s'))"
proof -
  obtain k where k: "tryParseEnumPred_from 0 stela_keywords (\<lambda>c. \<not> continueIdent c) s = (k, s')"
    "k \<noteq> length stela_keywords"
    using assms by (auto simp: parseKeyword_def tryParseEnumPred_def split: prod.splits if_splits)
  from k(1) keywords_nonempty show thesis
  proof (cases rule: tryParseEnumPred_from_cases)
    case (found xs n ys)
    have "n \<in> set stela_keywords" by (subst found(1)) simp
    then show ?thesis using found(3-5) by (rule that)
  qed (use k(2) in simp)
qed

lemma parseOper_cases:
  assumes "parseOper s = Some s'"
  obtains xs op ys where "oper = xs @ op # ys" "check_str op s = (True, s')"
    "\<forall>m \<in> set xs. \<not> prefix m (beg s)"
proof -
  obtain k where k: "tryParseEnum_from 0 oper s = (k, s')" "k \<noteq> length oper"
    using assms by (auto simp: parseOper_def tryParseEnum_def split: prod.splits if_splits)
  from k(1) show thesis
  proof (cases rule: tryParseEnum_from_cases)
    case (found xs n ys)
    show ?thesis by (rule that [of xs n ys]) (use found in simp_all)
  qed (use k(2) in simp)
qed

lemma parseKeyword_advances: "parseKeyword s = Some s' \<Longrightarrow> advances s s'"
proof (erule parseKeyword_cases)
  fix kw
  assume kw: "kw \<in> set stela_keywords" "beg s = kw @ beg s'" "s' = advanceNoCheck (length kw) s"
  from kw(1) keywords_nonempty have "kw \<noteq> []" by auto
  with kw(2) have "length (beg s') < length (beg s)" by (metis append_eq_conv_conj length_append
        length_greater_0_conv less_add_same_cancel2)
  moreover have "moves s s'" unfolding kw(3) by blast
  ultimately show ?thesis by (simp add: advances_def)
qed

lemma parseOper_advances: "parseOper s = Some s' \<Longrightarrow> advances s s'"
  by (erule parseOper_cases) (metis check_str_advances in_set_conv_decomp oper_nonempty)

text \<open>
  The interface between the scanning functions and the loop of \<^verbatim>\<open>tokenize\<close>: a scanner that accepts
  has moved the cursor over at least one character. From this the loop knows the text of the token
  (the view between \<^verbatim>\<open>begin\<close> and \<^verbatim>\<open>end\<close>) and that it terminates.
\<close>

locale scanner =
  fixes scan :: "parse_string \<Rightarrow> parse_string option res"
  assumes scan_advances: "scan s = Inr (Some s') \<Longrightarrow> advances s s'"
begin

lemma scan_text: "scan s = Inr (Some s') \<Longrightarrow> beg s = endViewing (beginViewing s) s' @ beg s'"
  by (drule scan_advances) (simp add: advances_def endViewing_moves)

lemma scan_pos:
  "scan s = Inr (Some s') \<Longrightarrow> pos s' = putString (endViewing (beginViewing s) s') (pos s)"
  by (drule scan_advances) (simp add: advances_def endViewing_moves)

lemma scan_view: "scan s = Inr (Some s') \<Longrightarrow> beg s = v @ beg s' \<Longrightarrow> endViewing (beginViewing s) s' = v"
  by (simp add: endViewing_def beginViewing_def)

lemma scan_view_nonempty: "scan s = Inr (Some s') \<Longrightarrow> endViewing (beginViewing s) s' \<noteq> []"
  by (drule scan_advances) (auto simp: advances_def endViewing_def beginViewing_def)

lemma scan_shorter: "scan s = Inr (Some s') \<Longrightarrow> length (beg s') < length (beg s)"
  by (drule scan_advances) (simp add: advances_def)

end

interpretation lineComment: scanner "\<lambda>s. Inr (parseLineComment s)"
  by unfold_locales (simp add: parseLineComment_advances)

interpretation multiComment: scanner parseMultiComment
  by unfold_locales (rule parseMultiComment_advances)

interpretation keyword: scanner "\<lambda>s. Inr (parseKeyword s)"
  by unfold_locales (simp add: parseKeyword_advances)

interpretation number: scanner "parseNumber ld past" for ld past
  by unfold_locales (rule parseNumber_advances)

interpretation operator: scanner "\<lambda>s. Inr (parseOper s)"
  by unfold_locales (simp add: parseOper_advances)

interpretation ident: scanner "\<lambda>s. Inr (parseIdent s)"
  by unfold_locales (simp add: parseIdent_advances)

interpretation stringLit: scanner parseString
  by unfold_locales (rule parseString_advances)

interpretation charLit: scanner parseChar
  by unfold_locales (rule parseChar_advances)

lemmas lex_advances = parseLineComment_advances parseMultiComment_advances parseKeyword_advances
  parseNumber_advances parseOper_advances parseIdent_advances parseString_advances
  parseChar_advances

lemma next_token_advances: "next_token ld past s = Inr (t, s') \<Longrightarrow> advances s s'"
  by (auto simp: next_token_def split: option.splits dest: lex_advances)

subsection \<open>The loop of tokenize\<close>

function tokenize_from :: "fp_format \<Rightarrow> char \<Rightarrow> parse_string \<Rightarrow> token list \<Rightarrow> token list res" where
  "tokenize_from ld past s tokens =
     (let s1 = skipWhitespace s in
      if empty_str s1 then Inr tokens
      else bindE (next_token ld past s1)
        (\<lambda>(t, s2). tokenize_from ld past s2
          (case t of
             None \<Rightarrow> tokens
           | Some ty \<Rightarrow> tokens @ [\<lparr>tview = endViewing (beginViewing s1) s2,
                                   tloc = loc_of (lineCol s1), ttype = ty\<rparr>])))"
  by pat_completeness auto
termination
proof (relation "measure (\<lambda>(ld, past, s, tokens). length (beg s))", goal_cases)
  case (2 ld past s tokens s1 p t s2)
  then have "advances s1 s2" by (auto dest: next_token_advances)
  moreover have "moves s s1" using 2 by auto
  ultimately have "advances s s2" by (rule moves_advances_trans [rotated])
  then show ?case by (simp add: advances_def)
qed simp

declare tokenize_from.simps [simp del]

definition tokenize :: "fp_format \<Rightarrow> char \<Rightarrow> string \<Rightarrow> token list res" where
  "tokenize ld past source = tokenize_from ld past (ParseString source) []"


subsection \<open>What the tokens are\<close>

text \<open>
  The reference for \<open>tokenize\<close>: white space and comments between the tokens, and for every type of
  token which text it may have, given the text \<open>r\<close> that follows it.
\<close>

text \<open>\<open>nested d w\<close>: the text \<open>w\<close> takes a comment from nesting depth \<open>d\<close> to its end.\<close>

inductive nested :: "nat \<Rightarrow> string \<Rightarrow> bool" where
  nested_end: "nested (Suc 0) ''*/''"
| nested_close: "nested (Suc d) w \<Longrightarrow> nested (Suc (Suc d)) (''*/'' @ w)"
| nested_open: "nested (Suc d) w \<Longrightarrow> nested d (''/*'' @ w)"
| nested_char: "nested d w \<Longrightarrow> \<not> prefix ''*/'' (c # w) \<Longrightarrow> \<not> prefix ''/*'' (c # w) \<Longrightarrow> nested d (c # w)"

inductive gap :: "string \<Rightarrow> string \<Rightarrow> bool" where
  gap_nil: "gap [] r"
| gap_space: "c_isspace c \<Longrightarrow> gap g r \<Longrightarrow> gap (c # g) r"
| gap_line: "CHR 0x0A \<notin> set w \<Longrightarrow> g @ r = [] \<or> hd (g @ r) = CHR 0x0A \<Longrightarrow> gap g r
    \<Longrightarrow> gap (''//'' @ w @ g) r"
| gap_multi: "nested 1 w \<Longrightarrow> gap g r \<Longrightarrow> gap (''/*'' @ w @ g) r"

inductive quoted_body :: "char \<Rightarrow> string \<Rightarrow> bool" where
  body_nil: "quoted_body q []"
| body_char: "c \<noteq> CHR 0x0A \<Longrightarrow> c \<noteq> CHR 0x5C \<Longrightarrow> c \<noteq> q \<Longrightarrow> quoted_body q w \<Longrightarrow> quoted_body q (c # w)"
| body_escape: "quoted_body q w \<Longrightarrow> quoted_body q (CHR 0x5C # c # w)"

definition ident_ends :: "string \<Rightarrow> bool" where
  "ident_ends r \<longleftrightarrow> r = [] \<or> \<not> continueIdent (hd r)"

fun token_shape :: "fp_format \<Rightarrow> char \<Rightarrow> loc \<Rightarrow> token_type \<Rightarrow> string \<Rightarrow> string \<Rightarrow> bool" where
  "token_shape ld past loc T_keyword v r = (v \<in> set stela_keywords \<and> ident_ends r)"
| "token_shape ld past loc T_identifier v r =
     (v \<noteq> [] \<and> startIdent (hd v) \<and> list_all continueIdent v \<and> v \<notin> set stela_keywords \<and> ident_ends r)"
| "token_shape ld past loc T_number v r =
     (v \<noteq> [] \<and> validNumberLiteral ld past (v @ r) loc = Inr (length v))"
| "token_shape ld past loc T_string v r = (\<exists>w. v = CHR 0x22 # w @ [CHR 0x22] \<and> quoted_body CHR 0x22 w)"
| "token_shape ld past loc T_character v r = (\<exists>w. v = CHR 0x27 # w @ [CHR 0x27] \<and> quoted_body CHR 0x27 w)"
| "token_shape ld past loc T_oper v r =
     (v \<in> set oper \<and> (\<forall>op \<in> set oper. prefix op (v @ r) \<longrightarrow> length op \<le> length v))"

inductive lexed :: "fp_format \<Rightarrow> char \<Rightarrow> line_col \<Rightarrow> string \<Rightarrow> token list \<Rightarrow> bool"
  for ld past where
  lexed_end: "gap g [] \<Longrightarrow> lexed ld past p g []"
| lexed_token: "gap g (v @ r) \<Longrightarrow> token_shape ld past (loc_of (putString g p)) ty v r
    \<Longrightarrow> lexed ld past (putString (g @ v) p) r ts
    \<Longrightarrow> lexed ld past p (g @ v @ r) (\<lparr>tview = v, tloc = loc_of (putString g p), ttype = ty\<rparr> # ts)"

lemma continueIdent_startIdent: "startIdent c \<Longrightarrow> continueIdent c"
  by (auto simp: startIdent_def continueIdent_def c_isalnum_def)

lemma parseKeyword_shape:
  assumes "parseKeyword s = Some s'"
  shows "token_shape ld past loc T_keyword (endViewing (beginViewing s) s') (beg s')"
  using assms by (rule parseKeyword_cases) (auto simp: endViewing_def beginViewing_def ident_ends_def)

lemma parseKeyword_None:
  assumes "parseKeyword s = None" and "beg s = kw @ r" and "ident_ends r"
  shows "kw \<notin> set stela_keywords"
proof -
  obtain k s' where k: "tryParseEnumPred_from 0 stela_keywords (\<lambda>c. \<not> continueIdent c) s = (k, s')"
    "k = length stela_keywords"
    using assms(1) by (auto simp: parseKeyword_def tryParseEnumPred_def split: prod.splits if_splits)
  from k(1) keywords_nonempty show ?thesis
  proof (cases rule: tryParseEnumPred_from_cases)
    case (found xs n ys)
    from found(1) have "length stela_keywords = length xs + Suc (length ys)"
      by (metis length_Cons length_append)
    with found(2) k(2) show ?thesis by simp
  qed (use assms(2,3) in \<open>auto simp: ident_ends_def\<close>)
qed

lemma parseIdent_shape:
  assumes kw: "parseKeyword s = None" and id: "parseIdent s = Some s'"
  shows "token_shape ld past loc T_identifier (endViewing (beginViewing s) s') (beg s')"
proof -
  obtain c s1 where c: "startIdent c" "beg s = c # beg s1" and s': "s' = skip continueIdent s1"
    using id by (auto simp: parseIdent_def split: prod.splits if_splits dest: check_pred_True)
  define v where "v = c # takeWhile continueIdent (beg s1)"
  have tx: "beg s = v @ beg s'" by (simp add: v_def c(2) s')
  have ends: "ident_ends (beg s')"
    using hd_dropWhile [of continueIdent "beg s1"] by (auto simp: ident_ends_def s')
  have "list_all continueIdent v"
    using continueIdent_startIdent [OF c(1)] by (auto simp: v_def list_all_iff dest: set_takeWhileD)
  moreover have "v \<notin> set stela_keywords" by (rule parseKeyword_None [OF kw tx ends])
  moreover have "endViewing (beginViewing s) s' = v"
    using id tx by (auto intro: ident.scan_view)
  ultimately show ?thesis using c(1) ends by (simp add: v_def)
qed

lemma oper_longest_first: "sorted (map length (rev oper))"
  by (simp add: oper_def)

lemma parseOper_shape:
  assumes "parseOper s = Some s'"
  shows "token_shape ld past loc T_oper (endViewing (beginViewing s) s') (beg s')"
  using assms
proof (rule parseOper_cases)
  fix xs op ys
  assume op: "oper = xs @ op # ys" "check_str op s = (True, s')" "\<forall>m \<in> set xs. \<not> prefix m (beg s)"
  have tx: "beg s = op @ beg s'" using op(2) by (rule check_str_True)
  then have v: "endViewing (beginViewing s) s' = op"
    using assms by (auto intro: operator.scan_view)
  have "length m \<le> length op" if "m \<in> set oper" "prefix m (beg s)" for m
  proof -
    from that op(3) have "m = op \<or> m \<in> set ys" by (auto simp: op(1))
    moreover have "sorted (map length (rev ys @ op # rev xs))"
      using oper_longest_first by (simp add: op(1))
    ultimately show ?thesis by (auto simp: sorted_append)
  qed
  with v tx show ?thesis by (auto simp: op(1))
qed

lemma parseNumber_shape:
  assumes "parseNumber ld past s = Inr (Some s')"
  shows "token_shape ld past (loc_of (lineCol s)) T_number (endViewing (beginViewing s) s') (beg s')"
proof -
  obtain n where n: "validNumberLiteral ld past (beg s) (loc_of (lineCol s)) = Inr n" "n \<noteq> 0"
    "advance n s = Inr s'"
    using assms by (auto simp: parseNumber_def view_def split: if_splits)
  then have "length (endViewing (beginViewing s) s') = n"
    using advance_length [of n s s'] by (simp add: endViewing_def beginViewing_def)
  with n number.scan_text [OF assms] number.scan_view_nonempty [OF assms] show ?thesis by simp
qed


lemma quoted_body_append:
  assumes "\<forall>c \<in> set w. c \<noteq> CHR 0x0A \<and> c \<noteq> CHR 0x5C \<and> c \<noteq> q" and "quoted_body q v"
  shows "quoted_body q (w @ v)"
  using assms by (induction w) (auto intro: quoted_body.intros)

lemma quoted_loop_body:
  "quoted_loop q msg s = Inr s' \<Longrightarrow> \<exists>w. beg s = w @ q # beg s' \<and> quoted_body q w"
proof (induction q msg s rule: quoted_loop.induct)
  case (1 q msg s)
  define P where "P = (\<lambda>c. c = CHR 0x0A \<or> c = CHR 0x5C \<or> c = q)"
  define s1 where "s1 = skipUntil P s"
  define u where "u = takeWhile (\<lambda>c. \<not> P c) (beg s)"
  have u: "beg s = u @ beg s1" by (simp add: u_def s1_def)
  have u_ok: "\<forall>c \<in> set u. c \<noteq> CHR 0x0A \<and> c \<noteq> CHR 0x5C \<and> c \<noteq> q"
    by (auto simp: u_def P_def dest: set_takeWhileD)
  obtain b s2 where ch: "check_char q s1 = (b, s2)" by force
  obtain b' s3 where ch': "check_char CHR 0x5C s1 = (b', s3)" by force
  note unf = "1.prems" [unfolded quoted_loop.simps [of q msg s] Let_def, folded P_def s1_def]
  show ?case
  proof (cases b)
    case True
    with unf ch have "beg s1 = q # beg s'" by (auto dest: check_char_True)
    with u quoted_body_append [OF u_ok body_nil] show ?thesis by auto
  next
    case False
    with unf ch ch' obtain s4 where b': b' and s4: "advance 1 s3 = Inr s4"
      and rec: "quoted_loop q msg s4 = Inr s'"
      by (auto split: if_splits)
    obtain w where w: "beg s4 = w @ q # beg s'" "quoted_body q w"
      using "1.IH" [OF s1_def [unfolded P_def] ch [symmetric] refl False ch' [symmetric] refl b' s4 rec]
      by blast
    obtain c where "beg s3 = c # beg s4"
      using s4 by (cases "beg s3") (auto simp: advance_def advanceNoCheck_def split: if_splits)
    with b' ch' u w(1) have "beg s = (u @ CHR 0x5C # c # w) @ q # beg s'"
      by (auto dest: check_char_True)
    moreover have "quoted_body q (u @ CHR 0x5C # c # w)"
      by (rule quoted_body_append [OF u_ok body_escape [OF w(2)]])
    ultimately show ?thesis by blast
  qed
qed

lemma parseString_shape:
  assumes "parseString s = Inr (Some s')"
  shows "token_shape ld past loc T_string (endViewing (beginViewing s) s') (beg s')"
proof -
  obtain s1 where s1: "beg s = CHR 0x22 # beg s1"
    "quoted_loop CHR 0x22 ''Unterminated string literal'' s1 = Inr s'"
    using assms by (auto simp: parseString_def split: prod.splits if_splits dest: check_char_True)
  obtain w where w: "beg s1 = w @ CHR 0x22 # beg s'" "quoted_body CHR 0x22 w"
    using quoted_loop_body [OF s1(2)] by blast
  have "endViewing (beginViewing s) s' = CHR 0x22 # w @ [CHR 0x22]"
    using s1(1) w(1) by (auto intro: stringLit.scan_view [OF assms])
  with w(2) show ?thesis by auto
qed

lemma parseChar_shape:
  assumes "parseChar s = Inr (Some s')"
  shows "token_shape ld past loc T_character (endViewing (beginViewing s) s') (beg s')"
proof -
  obtain s1 where s1: "beg s = CHR 0x27 # beg s1"
    "quoted_loop CHR 0x27 ''Unterminated character literal'' s1 = Inr s'"
    using assms by (auto simp: parseChar_def split: prod.splits if_splits dest: check_char_True)
  obtain w where w: "beg s1 = w @ CHR 0x27 # beg s'" "quoted_body CHR 0x27 w"
    using quoted_loop_body [OF s1(2)] by blast
  have "endViewing (beginViewing s) s' = CHR 0x27 # w @ [CHR 0x27]"
    using s1(1) w(1) by (auto intro: charLit.scan_view [OF assms])
  with w(2) show ?thesis by auto
qed

lemma next_token_Some:
  assumes "next_token ld past s = Inr (Some ty, s')"
  shows "ty = T_keyword \<and> parseKeyword s = Some s'
    \<or> ty = T_number \<and> parseNumber ld past s = Inr (Some s')
    \<or> ty = T_oper \<and> parseOper s = Some s'
    \<or> ty = T_identifier \<and> parseKeyword s = None \<and> parseIdent s = Some s'
    \<or> ty = T_string \<and> parseString s = Inr (Some s')
    \<or> ty = T_character \<and> parseChar s = Inr (Some s')"
  using assms by (simp add: next_token_def split: option.splits) auto

lemma next_token_None:
  assumes "next_token ld past s = Inr (None, s')"
  shows "parseLineComment s = Some s' \<or> parseMultiComment s = Inr (Some s')"
  using assms by (simp add: next_token_def split: option.splits) auto

lemma next_token_shape:
  assumes "next_token ld past s = Inr (Some ty, s')"
  shows "token_shape ld past (loc_of (lineCol s)) ty (endViewing (beginViewing s) s') (beg s')"
proof -
  note shapes = parseKeyword_shape parseNumber_shape parseOper_shape parseIdent_shape
    parseString_shape parseChar_shape
  show ?thesis
    using next_token_Some [OF assms] by (elim disjE conjE) (simp only:, rule shapes, assumption+)+
qed

subsection \<open>Comments\<close>

lemma nested_append:
  assumes "\<forall>c \<in> set w. c \<noteq> CHR ''*'' \<and> c \<noteq> CHR ''/''" and "nested d v"
  shows "nested d (w @ v)"
  using assms
proof (induction w)
  case (Cons a w)
  then have "a \<noteq> CHR ''*''" "a \<noteq> CHR ''/''" and IH: "nested d (w @ v)" by simp_all
  then have "\<not> prefix ''*/'' (a # w @ v)" "\<not> prefix ''/*'' (a # w @ v)" by simp_all
  with IH have "nested d (a # w @ v)" by (rule nested_char)
  then show ?case by simp
qed simp

lemma gap_spaces:
  assumes "\<forall>c \<in> set w. c_isspace c" and "gap g r"
  shows "gap (w @ g) r"
  using assms by (induction w) (auto intro: gap_space)


text \<open>
  The depth is a \<^verbatim>\<open>uint32_t\<close>: a text of fewer than \<open>2\<^sup>3\<^sup>2\<close> characters cannot overflow it, since every
  level costs two characters. The hypothesis says so for the depth reached and the text left.
\<close>

lemma multi_loop_nested:
  assumes "multi_loop loc depth s = Inr s'" and "unat depth + length (beg s) < 2 ^ 32" and "0 < depth"
  shows "\<exists>w. beg s = w @ beg s' \<and> nested (unat depth) w"
  using assms
proof (induction loc depth s rule: multi_loop.induct)
  case (1 loc depth s)
  define P where "P = (\<lambda>c. c = CHR ''*'' \<or> c = CHR ''/'')"
  define s1 where "s1 = skipUntil P s"
  define u where "u = takeWhile (\<lambda>c. \<not> P c) (beg s)"
  have u: "beg s = u @ beg s1" by (simp add: u_def s1_def)
  have u_ok: "\<forall>c \<in> set u. c \<noteq> CHR ''*'' \<and> c \<noteq> CHR ''/''"
    by (auto simp: u_def P_def dest: set_takeWhileD)
  obtain b s2 where ch: "check_str ''*/'' s1 = (b, s2)" by force
  obtain b' s3 where ch': "check_str ''/*'' s1 = (b', s3)" by force
  note unf = "1.prems"(1) [unfolded multi_loop.simps [of loc depth s] Let_def, folded P_def s1_def]
  note s1d = s1_def [unfolded P_def]
  have goal: ?case if "beg s1 = w @ beg s'" "nested (unat depth) w" for w
    using that u nested_append [OF u_ok that(2)] by (intro exI [of _ "u @ w"]) simp
  consider (last) b "depth - 1 = 0" | (close) b "depth - 1 \<noteq> 0" | (deeper) "\<not> b" b'
    | (other) "\<not> b" "\<not> b'" by blast
  then show ?case
  proof cases
    case last
    then have d: "depth = 1" by simp
    from last unf ch have "beg s1 = ''*/'' @ beg s'" by (auto dest: check_str_True)
    with d show ?thesis by (intro goal [of "''*/''"]) (auto intro: nested_end)
  next
    case close
    from ch close(1) have b1: "beg s1 = ''*/'' @ beg s2" by (auto dest: check_str_True)
    have dec: "unat depth = Suc (unat (depth - 1))"
      using "1.prems"(3) unat_minus_one [of depth] unat_gt_0 [of depth] by (simp add: word_gt_0)
    have "0 < depth - 1" using close(2) by (simp add: word_gt_0)
    moreover have "unat (depth - 1) + length (beg s2) < 2 ^ 32"
      using "1.prems"(2) u b1 dec by simp
    ultimately obtain w where "beg s2 = w @ beg s'" "nested (unat (depth - 1)) w"
      using "1.IH"(1) [OF s1d ch [symmetric] refl close] unf ch close by auto
    moreover obtain d' where "unat (depth - 1) = Suc d'"
      using close(2) by (metis not0_implies_Suc unat_eq_zero)
    ultimately show ?thesis
      using b1 dec nested_close [of d' w] by (intro goal [of "''*/'' @ w"]) auto
  next
    case deeper
    from ch' deeper(2) have b1: "beg s1 = ''/*'' @ beg s3" by (auto dest: check_str_True)
    have inc: "unat (depth + 1) = Suc (unat depth)"
      using "1.prems"(2) u b1 by (subst unat_plus_simple [THEN iffD1]) (auto simp: no_olen_add_nat)
    have "0 < depth + 1" using inc by (metis unat_gt_0 word_neq_0_conv zero_less_Suc)
    moreover have "unat (depth + 1) + length (beg s3) < 2 ^ 32"
      using "1.prems"(2) u b1 inc by simp
    ultimately obtain w where "beg s3 = w @ beg s'" "nested (unat (depth + 1)) w"
      using "1.IH"(2) [OF s1d ch [symmetric] refl deeper(1) ch' [symmetric] refl deeper(2)] unf ch ch' deeper
      by auto
    with b1 inc nested_open [of "unat depth" w] show ?thesis
      by (intro goal [of "''/*'' @ w"]) auto
  next
    case other
    with unf ch ch' obtain s4 where e: "\<not> empty_str s1" and s4: "advance 1 s1 = Inr s4"
      and rec: "multi_loop loc depth s4 = Inr s'" by (auto split: if_splits)
    obtain c where b1: "beg s1 = c # beg s4"
      using s4 by (cases "beg s1") (auto simp: advance_def advanceNoCheck_def split: if_splits)
    have "unat depth + length (beg s4) < 2 ^ 32" using "1.prems"(2) u b1 by simp
    then obtain w where w: "beg s4 = w @ beg s'" "nested (unat depth) w"
      using "1.IH"(3) [OF s1d ch [symmetric] refl other(1) ch' [symmetric] refl other(2) e s4 rec _ "1.prems"(3)]
      by blast
    have "\<not> prefix ''*/'' (beg s1)" "\<not> prefix ''/*'' (beg s1)"
      using check_str_iff [of "''*/''" s1] check_str_iff [of "''/*''" s1] ch ch' other by auto
    then have "\<not> prefix ''*/'' (c # w)" "\<not> prefix ''/*'' (c # w)"
      using b1 w(1) by (metis append_Cons prefix_prefix)+
    with w b1 show ?thesis by (intro goal [of "c # w"]) (auto intro: nested_char)
  qed
qed

lemma parseLineComment_gap:
  assumes "parseLineComment s = Some s'"
  obtains w where "beg s = ''//'' @ w @ beg s'" and "CHR 0x0A \<notin> set w"
    and "beg s' = [] \<or> hd (beg s') = CHR 0x0A"
proof -
  obtain s1 where s1: "beg s = ''//'' @ beg s1" "s' = skipUntil (\<lambda>c. c = CHR 0x0A) s1"
    using assms by (auto simp: parseLineComment_def split: prod.splits if_splits dest: check_str_True)
  show thesis
  proof (rule that [of "takeWhile (\<lambda>c. c \<noteq> CHR 0x0A) (beg s1)"])
    show "beg s' = [] \<or> hd (beg s') = CHR 0x0A"
      using hd_dropWhile [of "\<lambda>c. c \<noteq> CHR 0x0A" "beg s1"] by (auto simp: s1(2))
  qed (auto simp: s1 dest: set_takeWhileD)
qed

lemma next_token_gap:
  assumes "next_token ld past s = Inr (None, s')" and "length (beg s) < 2 ^ 32"
    and "beg s' = g @ r" and "gap g r"
  obtains w where "beg s = w @ g @ r" and "gap (w @ g) r"
    and "w = endViewing (beginViewing s) s'"
  using next_token_None [OF assms(1)]
proof
  assume "parseLineComment s = Some s'"
  then obtain w where w: "beg s = ''//'' @ w @ beg s'" "CHR 0x0A \<notin> set w"
    "beg s' = [] \<or> hd (beg s') = CHR 0x0A" by (rule parseLineComment_gap)
  show thesis
    by (rule that [of "''//'' @ w"])
       (use w assms(3,4) gap_line [of w g r] in \<open>auto simp: endViewing_def beginViewing_def\<close>)
next
  assume mc: "parseMultiComment s = Inr (Some s')"
  then obtain s1 where s1: "beg s = ''/*'' @ beg s1" "multi_loop (loc_of (lineCol s)) 1 s1 = Inr s'"
    by (auto simp: parseMultiComment_def split: prod.splits if_splits dest: check_str_True)
  obtain w where w: "beg s1 = w @ beg s'" "nested 1 w"
    using multi_loop_nested [OF s1(2)] assms(2) s1(1) by auto
  show thesis
    by (rule that [of "''/*'' @ w"])
       (use s1(1) w assms(3,4) gap_multi [of w g r] in \<open>auto simp: endViewing_def beginViewing_def\<close>)
qed


lemma tokenize_from_lexed:
  assumes "tokenize_from ld past s acc = Inr ts" and "length (beg s) < 2 ^ 32"
  shows "\<exists>new. ts = acc @ new \<and> lexed ld past (pos s) (beg s) new"
  using assms
proof (induction ld past s acc rule: tokenize_from.induct)
  case (1 ld past s acc)
  define s1 where "s1 = skipWhitespace s"
  define u where "u = takeWhile c_isspace (beg s)"
  have u: "beg s = u @ beg s1" "pos s1 = putString u (pos s)"
    by (simp_all add: u_def s1_def skipWhitespace_def skip_eq)
  have spaces: "\<forall>c \<in> set u. c_isspace c" by (auto simp: u_def dest: set_takeWhileD)
  note unf = "1.prems"(1) [unfolded tokenize_from.simps [of ld past s acc] Let_def, folded s1_def]
  show ?case
  proof (cases "empty_str s1")
    case True
    with u have "gap (beg s) []"
      using gap_spaces [OF spaces gap_nil, of "[]"] by (simp add: empty_str_def)
    with True unf show ?thesis by (auto intro: lexed_end)
  next
    case False
    then obtain t s2 where nt: "next_token ld past s1 = Inr (t, s2)" and
      rec: "tokenize_from ld past s2 (case t of None \<Rightarrow> acc | Some ty \<Rightarrow>
        acc @ [\<lparr>tview = endViewing (beginViewing s1) s2, tloc = loc_of (lineCol s1), ttype = ty\<rparr>]) = Inr ts"
      using unf by auto
    define v where "v = endViewing (beginViewing s1) s2"
    have adv: "advances s1 s2" using nt by (rule next_token_advances)
    then have v: "beg s1 = v @ beg s2" "pos s2 = putString v (pos s1)"
      by (auto simp: v_def advances_def dest: endViewing_moves)
    have "length (beg s2) < 2 ^ 32" using "1.prems"(2) u v(1) by simp
    then obtain new where
      new: "ts = (case t of None \<Rightarrow> acc | Some ty \<Rightarrow>
        acc @ [\<lparr>tview = v, tloc = loc_of (lineCol s1), ttype = ty\<rparr>]) @ new"
      and lx: "lexed ld past (pos s2) (beg s2) new"
      using "1.IH" [OF s1_def False nt refl rec] unfolding v_def by blast
    show ?thesis
    proof (cases t)
      case (Some ty)
      have "token_shape ld past (loc_of (pos s1)) ty v (beg s2)"
        using next_token_shape [OF nt [unfolded Some]] by (simp add: v_def lineCol_def)
      moreover have "gap u (v @ beg s2)" using gap_spaces [OF spaces gap_nil] by simp
      ultimately have "lexed ld past (pos s) (beg s)
          (\<lparr>tview = v, tloc = loc_of (lineCol s1), ttype = ty\<rparr> # new)"
        using lexed_token [of u v "beg s2" ld past "pos s" ty new] lx u v by (simp add: lineCol_def)
      with new Some show ?thesis by auto
    next
      case None
      have len: "length (beg s1) < 2 ^ 32" using "1.prems"(2) u by simp
      from lx have "lexed ld past (pos s) (beg s) new"
      proof cases
        case lexed_end
        then show ?thesis
          using next_token_gap [OF nt [unfolded None] len, of "beg s2" "[]"] u v
            gap_spaces [OF spaces, of "v @ beg s2" "[]"]
          by (auto simp: v_def intro: lexed.lexed_end)
      next
        case (lexed_token g w r ty ts')
        then have "beg s2 = g @ w @ r" by simp
        then have "gap (v @ g) (w @ r)"
          using next_token_gap [OF nt [unfolded None] len _ lexed_token(3)] by (auto simp: v_def)
        then have "gap (u @ v @ g) (w @ r)" by (rule gap_spaces [OF spaces])
        then show ?thesis
          using lexed.lexed_token [of "u @ v @ g" w r ld past "pos s" ty ts'] lexed_token u v by simp
      qed
      with new None show ?thesis by auto
    qed
  qed
qed

subsection \<open>What the lexer promises\<close>

text \<open>
  C1: if the source is split into tokens, then it is white space and comments between tokens of the
  right shape: keywords and identifiers are maximal, an operator is the longest that fits, a number is
  what \<^verbatim>\<open>validNumberLiteral\<close> accepts, quotes are closed; nothing of the source is lost and every token
  has the line and column of its first character.
\<close>

theorem tokenize_lexed:
  assumes "tokenize ld past source = Inr ts" and "length source < 2 ^ 32"
  shows "lexed ld past line_col_init source ts"
  using tokenize_from_lexed [OF assms(1) [unfolded tokenize_def]] assms(2) by (simp add: ParseString_def)

theorem tokenize_lexed_witness:
  "lexed \<lparr>prec = 53, emin = -1022, emax = 1023\<rparr> CHR 0x00 line_col_init ''let /*!*/ a = [b]''
     [\<lparr>tview = ''let'', tloc = Loc 1 1, ttype = T_keyword\<rparr>,
      \<lparr>tview = ''a'', tloc = Loc 1 11, ttype = T_identifier\<rparr>,
      \<lparr>tview = ''='', tloc = Loc 1 13, ttype = T_oper\<rparr>,
      \<lparr>tview = ''['', tloc = Loc 1 15, ttype = T_oper\<rparr>,
      \<lparr>tview = ''b'', tloc = Loc 1 16, ttype = T_identifier\<rparr>,
      \<lparr>tview = '']'', tloc = Loc 1 17, ttype = T_oper\<rparr>]"
proof (rule tokenize_lexed)
  show "tokenize \<lparr>prec = 53, emin = -1022, emax = 1023\<rparr> CHR 0x00 ''let /*!*/ a = [b]'' = Inr
     [\<lparr>tview = ''let'', tloc = Loc 1 1, ttype = T_keyword\<rparr>,
      \<lparr>tview = ''a'', tloc = Loc 1 11, ttype = T_identifier\<rparr>,
      \<lparr>tview = ''='', tloc = Loc 1 13, ttype = T_oper\<rparr>,
      \<lparr>tview = ''['', tloc = Loc 1 15, ttype = T_oper\<rparr>,
      \<lparr>tview = ''b'', tloc = Loc 1 16, ttype = T_identifier\<rparr>,
      \<lparr>tview = '']'', tloc = Loc 1 17, ttype = T_oper\<rparr>]"
    by code_simp
qed simp

text \<open>The characters that start a line.\<close>

definition is_newline :: "char \<Rightarrow> bool" where
  "is_newline c \<longleftrightarrow> c = CHR 0x0A \<or> c = CHR 0x0B \<or> c = CHR 0x0C"

lemma putString_line: "mLine (putString w p) = mLine p + of_nat (length (filter is_newline w))"
  by (induction w arbitrary: p) (auto simp: putChar_def is_newline_def)

lemma lexed_lines:
  assumes "lexed ld past p source ts" and "t \<in> set ts"
  shows "\<exists>u r. source = u @ tview t @ r
    \<and> loc_l (tloc t) = mLine p + of_nat (length (filter is_newline u))"
  using assms
proof (induction rule: lexed.induct)
  case (lexed_token g v r p ty ts)
  show ?case
  proof (cases "t \<in> set ts")
    case True
    then obtain u r' where u: "r = u @ tview t @ r'"
      "loc_l (tloc t) = mLine (putString (g @ v) p) + of_nat (length (filter is_newline u))"
      using lexed_token.IH by blast
    then show ?thesis
      by (intro exI [of _ "g @ v @ u"] exI [of _ r']) (simp add: putString_line add.assoc)
  next
    case False
    then have "t = \<lparr>tview = v, tloc = loc_of (putString g p), ttype = ty\<rparr>"
      using lexed_token.prems by simp
    then show ?thesis
      by (intro exI [of _ g] exI [of _ r]) (simp add: loc_of_def putString_line)
  qed
qed simp

text \<open>
  C22: every token is a piece of the source, and its line is one more than the number of line, form and
  vertical feeds before it.
\<close>

theorem tokenize_lines:
  assumes "tokenize ld past source = Inr ts" and "length source < 2 ^ 32 - 1" and "t \<in> set ts"
  shows "\<exists>u r. source = u @ tview t @ r
    \<and> unat (loc_l (tloc t)) = 1 + length (filter is_newline u)"
proof -
  have "lexed ld past line_col_init source ts"
    using tokenize_from_lexed [OF assms(1) [unfolded tokenize_def]] assms(2) by (simp add: ParseString_def)
  then obtain u r where u: "source = u @ tview t @ r"
    "loc_l (tloc t) = 1 + of_nat (length (filter is_newline u))"
    using lexed_lines assms(3) by (fastforce simp: line_col_init_def FIRST_LINE_def)
  have "length u < 2 ^ 32 - 1" using u(1) assms(2) by simp
  from le_less_trans [OF length_filter_le this] have "unat (1 + of_nat (length (filter is_newline u)) :: u32) = 1 + length (filter is_newline u)"
    by (simp add: unat_of_nat flip: of_nat_Suc)
  with u show ?thesis by metis
qed

theorem tokenize_lines_witness:
  "\<exists>u r. [CHR 0x0A] @ ''}'' = u @ ''}'' @ r \<and> unat (2 :: u32) = 1 + length (filter is_newline u)"
proof -
  have "tokenize \<lparr>prec = 53, emin = -1022, emax = 1023\<rparr> CHR 0x00 ([CHR 0x0A] @ ''}'')
      = Inr [\<lparr>tview = ''}'', tloc = Loc 2 1, ttype = T_oper\<rparr>]"
    by code_simp
  from tokenize_lines [OF this, of "\<lparr>tview = ''}'', tloc = Loc 2 1, ttype = T_oper\<rparr>"]
  show ?thesis by simp
qed

end
