(* ===== verification/Parse_Tokens.thy ===== *)
theory Parse_Tokens
  imports Lexer
begin

section \<open>The token cursor of the parser\<close>

text \<open>
  \<^verbatim>\<open>src/Syntax/parse tokens.cpp\<close>, \<^verbatim>\<open>parse tokens.hpp\<close> and \<^verbatim>\<open>context stack.cpp\<close>: \<^verbatim>\<open>ParseTokens\<close> is a pair
  of pointers into the token vector, a log and a stack of contexts that error messages print. The
  model keeps the token before the cursor (\<^verbatim>\<open>beg[-1]\<close>, which \<^verbatim>\<open>lastLoc()\<close> reads), the tokens from
  the cursor on, the stack (top first) and the warnings written so far. A parsing function of the
  source is a \<open>parser\<close>: it takes the cursor and stops with an error or returns a result and the new
  cursor. A function that returns a null pointer when its construct does not start here has an
  \<open>option\<close> result.
\<close>

record parse_tokens =
  prev :: "token option"
  toks :: "token list"
  ctxs :: "(string \<times> string) list"
  warns :: "(loc \<times> string) list"

type_synonym 'a parser = "parse_tokens \<Rightarrow> ('a \<times> parse_tokens) res"

subsection \<open>Sequencing\<close>

definition retP :: "'a \<Rightarrow> 'a parser" where
  "retP x s = Inr (x, s)"

definition failP :: "error \<Rightarrow> 'a parser" where
  "failP e s = Inl e"

definition bindP :: "'a parser \<Rightarrow> ('a \<Rightarrow> 'b parser) \<Rightarrow> 'b parser" where
  "bindP p f s = bindE (p s) (\<lambda>(x, s'). f x s')"

text \<open>\<^verbatim>\<open>if (node = p(tok)) return node; return q(tok);\<close>\<close>

definition orElse :: "'a option parser \<Rightarrow> 'a option parser \<Rightarrow> 'a option parser" where
  "orElse p q = bindP p (\<lambda>r. case r of Some x \<Rightarrow> retP (Some x) | None \<Rightarrow> q)"

text \<open>\<^verbatim>\<open>lhs = p(tok); if (!lhs) return nullptr; ...\<close>\<close>

definition bindSome :: "'a option parser \<Rightarrow> ('a \<Rightarrow> 'b parser) \<Rightarrow> 'b option parser" where
  "bindSome p f =
     bindP p (\<lambda>r. case r of None \<Rightarrow> retP None | Some x \<Rightarrow> bindP (f x) (\<lambda>y. retP (Some y)))"

text \<open>
  A loop whose body either breaks (nothing) or continues with a new value. The counter starts at
  one more than the number of tokens left; a body that consumes a token per turn does not exhaust it.
\<close>

fun iter_fuel :: "nat \<Rightarrow> ('a \<Rightarrow> 'a option parser) \<Rightarrow> 'a \<Rightarrow> 'a parser" where
  "iter_fuel 0 step x s = Inl Out_of_fuel"
| "iter_fuel (Suc n) step x s =
     bindE (step x s) (\<lambda>(r, s'). case r of None \<Rightarrow> Inr (x, s') | Some y \<Rightarrow> iter_fuel n step y s')"

definition iterP :: "('a \<Rightarrow> 'a option parser) \<Rightarrow> 'a \<Rightarrow> 'a parser" where
  "iterP step x s = iter_fuel (Suc (length (toks s))) step x s"

subsection \<open>Contexts\<close>

text \<open>
  \<^verbatim>\<open>Context ctx = tok.context(desc)\<close>: pushed here and popped by the destructor at the end of the C++
  block, which is the end of the parser that \<open>withCtx\<close> runs. \<open>setDesc\<close> and \<open>setIdent\<close> are
  \<^verbatim>\<open>ctx.desc(...)\<close> and \<^verbatim>\<open>ctx.ident(...)\<close> on the innermost context.
\<close>

definition withCtx :: "string \<Rightarrow> 'a parser \<Rightarrow> 'a parser" where
  "withCtx desc p s =
     bindE (p (s\<lparr>ctxs := (desc, []) # ctxs s\<rparr>)) (\<lambda>(x, s'). Inr (x, s'\<lparr>ctxs := tl (ctxs s')\<rparr>))"

definition setDesc :: "string \<Rightarrow> unit parser" where
  "setDesc desc s =
     (case ctxs s of
        [] \<Rightarrow> Inl (Undefined ''assertion: no context'')
      | (_, i) # cs \<Rightarrow> Inr ((), s\<lparr>ctxs := (desc, i) # cs\<rparr>))"

definition setIdent :: "string \<Rightarrow> unit parser" where
  "setIdent ident s =
     (case ctxs s of
        [] \<Rightarrow> Inl (Undefined ''assertion: no context'')
      | (d, _) # cs \<Rightarrow> Inr ((), s\<lparr>ctxs := (d, ident) # cs\<rparr>))"

definition show_context :: "string \<times> string \<Rightarrow> string" where
  "show_context c = fst c @ (if snd c = [] then [] else '' '' @ [CHR 0x22] @ snd c @ [CHR 0x22])"

fun show_contexts :: "(string \<times> string) list \<Rightarrow> string" where
  "show_contexts [] = []"
| "show_contexts [c] = show_context c"
| "show_contexts (c # d # cs) = show_context c @ '', '' @ show_contexts (d # cs)"

definition contextStack :: "(string \<times> string) list \<Rightarrow> string" where
  "contextStack cs = (if cs = [] then [] else '' '' @ show_contexts cs)"

subsection \<open>Reading tokens\<close>

fun show_type :: "token_type \<Rightarrow> string" where
  "show_type T_keyword = ''keyword''"
| "show_type T_identifier = ''identifier''"
| "show_type T_number = ''number''"
| "show_type T_string = ''string''"
| "show_type T_character = ''character''"
| "show_type T_oper = ''operator''"

definition show_token :: "token \<Rightarrow> string" where
  "show_token t = show_type (ttype t) @ '' '' @ tview t"

definition ParseTokens :: "token list \<Rightarrow> parse_tokens" where
  "ParseTokens ts = \<lparr>prev = None, toks = ts, ctxs = [], warns = []\<rparr>"

definition empty_toks :: "parse_tokens \<Rightarrow> bool" where
  "empty_toks s = (toks s = [])"

text \<open>\<^verbatim>\<open>*beg\<close>; at the end of the vector there is no token to read.\<close>

definition front :: "token parser" where
  "front s =
     (case toks s of
        [] \<Rightarrow> Inl (Undefined ''token read past the end'')
      | t # _ \<Rightarrow> Inr (t, s))"

definition locP :: "loc parser" where
  "locP = bindP front (\<lambda>t. retP (tloc t))"

definition lastLoc :: "loc parser" where
  "lastLoc s =
     (case prev s of
        None \<Rightarrow> Inl (Undefined ''token read before the start'')
      | Some t \<Rightarrow> Inr (tloc t, s))"

text \<open>\<^verbatim>\<open>++beg\<close>.\<close>

definition next_tok :: "parse_tokens \<Rightarrow> parse_tokens" where
  "next_tok s = s\<lparr>prev := Some (hd (toks s)), toks := tl (toks s)\<rparr>"

definition check :: "token_type \<Rightarrow> string \<Rightarrow> bool parser" where
  "check type v s =
     (case toks s of
        [] \<Rightarrow> Inr (False, s)
      | t # _ \<Rightarrow> if ttype t \<noteq> type \<or> tview t \<noteq> v then Inr (False, s) else Inr (True, next_tok s))"

definition checkKeyword :: "string \<Rightarrow> bool parser" where
  "checkKeyword v = check T_keyword v"

definition checkOp :: "string \<Rightarrow> bool parser" where
  "checkOp v = check T_oper v"

definition expectToken :: "token parser" where
  "expectToken s =
     (case toks s of
        [] \<Rightarrow> Inl (Fatal no_loc (''Unexpected end of input'' @ contextStack (ctxs s)))
      | t # _ \<Rightarrow> Inr (t, s))"

definition expect_type :: "token_type \<Rightarrow> string parser" where
  "expect_type type s =
     bindE (expectToken s) (\<lambda>(t, _).
       if ttype t \<noteq> type then
         Inl (Fatal (tloc t) (''Expected '' @ show_type type @ '' but found '' @ show_token t
           @ contextStack (ctxs s)))
       else Inr (tview t, next_tok s))"

definition expect :: "token_type \<Rightarrow> string \<Rightarrow> unit parser" where
  "expect type v s =
     bindE (expectToken s) (\<lambda>(t, _).
       if ttype t \<noteq> type \<or> tview t \<noteq> v then
         Inl (Fatal (tloc t) (''Expected '' @ show_type type @ '' '' @ v @ '' but found ''
           @ show_token t @ contextStack (ctxs s)))
       else Inr ((), next_tok s))"

definition expectEither :: "token_type \<Rightarrow> string \<Rightarrow> string \<Rightarrow> string parser" where
  "expectEither type a b s =
     bindE (expectToken s) (\<lambda>(t, _).
       if ttype t \<noteq> type \<or> (tview t \<noteq> a \<and> tview t \<noteq> b) then
         Inl (Fatal (tloc t) (''Expected '' @ show_type type @ '' '' @ a @ '' or '' @ b
           @ '' but found '' @ show_token t @ contextStack (ctxs s)))
       else Inr (tview t, next_tok s))"

definition expectID :: "string parser" where
  "expectID = expect_type T_identifier"

definition expectOp :: "string \<Rightarrow> unit parser" where
  "expectOp v = expect T_oper v"

definition expectEitherOp :: "string \<Rightarrow> string \<Rightarrow> string parser" where
  "expectEitherOp a b = expectEither T_oper a b"

definition peekType :: "token_type \<Rightarrow> parse_tokens \<Rightarrow> bool" where
  "peekType type s = (case toks s of [] \<Rightarrow> False | t # _ \<Rightarrow> ttype t = type)"

definition peekIdentType :: "parse_tokens \<Rightarrow> bool" where
  "peekIdentType s = peekType T_identifier s"

text \<open>
  \<^verbatim>\<open>expectNode\<close>: the error message reads the location of the token at the cursor, also at the end of
  the input.
\<close>

definition expectNode :: "'a option parser \<Rightarrow> string \<Rightarrow> 'a parser" where
  "expectNode p msg =
     bindP p (\<lambda>r. case r of
       Some x \<Rightarrow> retP x
     | None \<Rightarrow> bindP locP (\<lambda>l s. Inl (Fatal l (''Expected '' @ msg @ contextStack (ctxs s)))))"

text \<open>
  The two ways a construct starts: \<^verbatim>\<open>if (!tok.checkOp(v)) return nullptr; ...\<close> and the same with a
  keyword.
\<close>

definition whenOp :: "string \<Rightarrow> 'a parser \<Rightarrow> 'a option parser" where
  "whenOp v p = bindP (checkOp v) (\<lambda>b. if b then bindP p (\<lambda>x. retP (Some x)) else retP None)"

definition whenKey :: "string \<Rightarrow> 'a parser \<Rightarrow> 'a option parser" where
  "whenKey v p = bindP (checkKeyword v) (\<lambda>b. if b then bindP p (\<lambda>x. retP (Some x)) else retP None)"

definition whenPeek :: "token_type \<Rightarrow> 'a parser \<Rightarrow> 'a option parser" where
  "whenPeek ty p s = (if peekType ty s then bindP p (\<lambda>x. retP (Some x)) s else Inr (None, s))"

text \<open>\<^verbatim>\<open>while (checkOp(";")) logger.warn(lastLoc()) << "Extra ;"\<close>.\<close>

definition warnP :: "string \<Rightarrow> loc \<Rightarrow> unit parser" where
  "warnP msg l s = Inr ((), s\<lparr>warns := warns s @ [(l, msg)]\<rparr>)"

definition extraSemi :: "unit parser" where
  "extraSemi = iterP (\<lambda>_. whenOp '';'' (bindP lastLoc (warnP ''Extra ;''))) ()"

text \<open>\<^verbatim>\<open>if (tok.checkOp(v)) { p } else { q }\<close>.\<close>

definition ifOp :: "string \<Rightarrow> 'a parser \<Rightarrow> 'a parser \<Rightarrow> 'a parser" where
  "ifOp v p q = bindP (checkOp v) (\<lambda>b. if b then p else q)"

definition ifKey :: "string \<Rightarrow> 'a parser \<Rightarrow> 'a parser \<Rightarrow> 'a parser" where
  "ifKey v p q = bindP (checkKeyword v) (\<lambda>b. if b then p else q)"

text \<open>
  The three loops of the parser: \<^verbatim>\<open>while (node = p(tok)) push(node)\<close>,
  \<^verbatim>\<open>do push(p(tok)) while (tok.expectEitherOp(a, b) == ",")\<close> and \<^verbatim>\<open>while (!tok.checkOp(v)) push(p(tok))\<close>.
\<close>

definition manyP :: "'a option parser \<Rightarrow> 'a list parser" where
  "manyP p = iterP (\<lambda>xs. bindSome p (\<lambda>x. retP (xs @ [x]))) []"

definition sepP :: "'a parser \<Rightarrow> string \<Rightarrow> string \<Rightarrow> 'a list parser" where
  "sepP p a b =
     bindP
       (iterP (\<lambda>(xs, more).
         if more then
           bindP (bindP p (\<lambda>x. bindP (expectEitherOp a b) (\<lambda>d. retP (xs @ [x], d = '',''))))
             (\<lambda>y. retP (Some y))
         else retP None) ([], True))
       (\<lambda>(xs, _). retP xs)"

definition untilOp :: "string \<Rightarrow> 'a parser \<Rightarrow> 'a list parser" where
  "untilOp v p =
     bindP
       (iterP (\<lambda>(xs, found).
         if found then retP None
         else
           bindP (ifOp v (retP (xs, True)) (bindP p (\<lambda>x. retP (xs @ [x], False))))
             (\<lambda>y. retP (Some y))) ([], False))
       (\<lambda>(xs, _). retP xs)"

subsection \<open>The contract of a parsing function\<close>

text \<open>
  \<open>reads s s'\<close>: the cursor went from \<open>s\<close> to \<open>s'\<close> over some tokens, the stack of contexts is the same
  and no warning was lost. The three contracts, for all cursors with fewer than \<open>n\<close> tokens left:
  \<^item> \<open>total n p\<close>: \<open>p\<close> does not run out of steps and only reads forward;
  \<^item> \<open>strict n p\<close>: moreover it reads at least one token;
  \<^item> \<open>opt n p\<close>: moreover it reads at least one token if it returns a node, and leaves the cursor as it
    was if it returns none.
\<close>

definition reads :: "parse_tokens \<Rightarrow> parse_tokens \<Rightarrow> bool" where
  "reads s s' \<longleftrightarrow>
     (\<exists>w. toks s = w @ toks s' \<and> prev s' = (if w = [] then prev s else Some (last w)))
     \<and> ctxs s' = ctxs s \<and> prefix (warns s) (warns s')"

text \<open>Inside the block of a context its description may change; the contexts below it do not.\<close>

definition reads_in :: "parse_tokens \<Rightarrow> parse_tokens \<Rightarrow> bool" where
  "reads_in s s' \<longleftrightarrow> reads (s\<lparr>ctxs := tl (ctxs s)\<rparr>) (s'\<lparr>ctxs := tl (ctxs s')\<rparr>)"

definition inner :: "nat \<Rightarrow> 'a parser \<Rightarrow> bool" where
  "inner n p \<longleftrightarrow> (\<forall>s. length (toks s) < n \<longrightarrow>
     p s \<noteq> Inl Out_of_fuel \<and> (\<forall>x s'. p s = Inr (x, s') \<longrightarrow> reads_in s s'))"

definition total :: "nat \<Rightarrow> 'a parser \<Rightarrow> bool" where
  "total n p \<longleftrightarrow> (\<forall>s. length (toks s) < n \<longrightarrow>
     p s \<noteq> Inl Out_of_fuel \<and> (\<forall>x s'. p s = Inr (x, s') \<longrightarrow> reads s s'))"

definition strict :: "nat \<Rightarrow> 'a parser \<Rightarrow> bool" where
  "strict n p \<longleftrightarrow> total n p \<and> (\<forall>s x s'. length (toks s) < n \<longrightarrow> p s = Inr (x, s')
     \<longrightarrow> length (toks s') < length (toks s))"

definition opt :: "nat \<Rightarrow> 'a option parser \<Rightarrow> bool" where
  "opt n p \<longleftrightarrow> total n p \<and> (\<forall>s s'. length (toks s) < n \<longrightarrow> p s = Inr (None, s') \<longrightarrow> s' = s)
     \<and> (\<forall>s x s'. length (toks s) < n \<longrightarrow> p s = Inr (Some x, s')
          \<longrightarrow> length (toks s') < length (toks s))"

named_theorems contract \<open>contracts of the parsing functions\<close>

lemma reads_refl [simp, intro]: "reads s s"
  by (auto simp: reads_def)

lemma reads_trans [trans]:
  assumes "reads s s'" and "reads s' s''"
  shows "reads s s''"
proof -
  obtain w where w: "toks s = w @ toks s'" "prev s' = (if w = [] then prev s else Some (last w))"
    using assms(1) by (auto simp: reads_def)
  obtain w' where w': "toks s' = w' @ toks s''"
    "prev s'' = (if w' = [] then prev s' else Some (last w'))"
    using assms(2) by (auto simp: reads_def)
  have "toks s = (w @ w') @ toks s''"
    "prev s'' = (if w @ w' = [] then prev s else Some (last (w @ w')))"
    using w w' by auto
  moreover have "ctxs s'' = ctxs s" "prefix (warns s) (warns s'')"
    using assms by (auto simp: reads_def)
  ultimately show ?thesis unfolding reads_def by blast
qed

lemma reads_length: "reads s s' \<Longrightarrow> length (toks s') \<le> length (toks s)"
  by (auto simp: reads_def)

lemma reads_ctxs: "reads s s' \<Longrightarrow> ctxs s' = ctxs s"
  by (simp add: reads_def)

lemma reads_next_tok: "toks s \<noteq> [] \<Longrightarrow> reads s (next_tok s)"
  by (auto simp: reads_def next_tok_def neq_Nil_conv)

lemma totalD: "total n p \<Longrightarrow> length (toks s) < n \<Longrightarrow> p s = Inr (x, s') \<Longrightarrow> reads s s'"
  by (auto simp: total_def)

lemma total_fuel: "total n p \<Longrightarrow> length (toks s) < n \<Longrightarrow> p s \<noteq> Inl Out_of_fuel"
  by (auto simp: total_def)

lemma total_mono: "total n p \<Longrightarrow> m \<le> n \<Longrightarrow> total m p"
  by (auto simp: total_def)

lemma opt_mono: "opt n p \<Longrightarrow> m \<le> n \<Longrightarrow> opt m p"
  by (auto simp: opt_def total_def)

lemma opt_Suc: "opt (Suc n) p \<Longrightarrow> opt n p"
  by (erule opt_mono) simp

lemma total_Suc: "total (Suc n) p \<Longrightarrow> total n p"
  by (erule total_mono) simp

lemma strict_total: "strict n p \<Longrightarrow> total n p"
  by (simp add: strict_def)

lemma opt_total: "opt n p \<Longrightarrow> total n p"
  by (simp add: opt_def)

lemma total_retP [contract]: "total n (retP x)"
  by (auto simp: total_def retP_def)

lemma total_failP: "e \<noteq> Out_of_fuel \<Longrightarrow> total n (failP e)"
  by (auto simp: total_def failP_def)

lemma total_bindP [contract]:
  assumes "total n p" and "\<And>x. total n (f x)"
  shows "total n (bindP p f)"
  unfolding total_def
proof (intro allI impI conjI)
  fix s :: parse_tokens
  assume n: "length (toks s) < n"
  have step: "length (toks s1) < n" if "p s = Inr (x, s1)" for x s1
    using reads_length [OF totalD [OF assms(1) n that]] n by simp
  show "bindP p f s \<noteq> Inl Out_of_fuel"
    using total_fuel [OF assms(1) n] total_fuel [OF assms(2)] step
    by (auto simp: bindP_def bindE_Inl_iff)
  fix y s'
  assume "bindP p f s = Inr (y, s')"
  then obtain x s1 where "p s = Inr (x, s1)" "f x s1 = Inr (y, s')"
    by (auto simp: bindP_def)
  then show "reads s s'"
    using totalD [OF assms(1) n] totalD [OF assms(2) step] reads_trans by blast
qed

lemma opt_retP_None [contract]: "opt n (retP None)"
  by (auto simp: opt_def total_retP) (auto simp: retP_def)

lemma opt_orElse [contract]:
  assumes p: "opt n p" and q: "opt n q"
  shows "opt n (orElse p q)"
proof -
  have "total n (orElse p q)"
    unfolding orElse_def
    by (rule total_bindP [OF opt_total [OF p]]) (auto simp: total_retP opt_total q split: option.splits)
  moreover have "orElse p q s = (case p s of Inl e \<Rightarrow> Inl e | Inr (Some x, s') \<Rightarrow> Inr (Some x, s')
      | Inr (None, s') \<Rightarrow> q s')" for s
    by (auto simp: orElse_def bindP_def retP_def split: sum.splits option.splits)
  ultimately show ?thesis using p q
    by (auto simp: opt_def split: sum.splits option.splits)
qed

lemma opt_bindSome [contract]:
  assumes p: "opt n p" and f: "\<And>x. total n (f x)"
  shows "opt n (bindSome p f)"
proof -
  have t: "total n (bindSome p f)"
    unfolding bindSome_def
    by (rule total_bindP [OF opt_total [OF p]])
      (auto simp: total_retP total_bindP [OF f total_retP] split: option.splits)
  have "length (toks s') < length (toks s)"
    if "length (toks s) < n" "bindSome p f s = Inr (Some y, s')" for s y s'
  proof -
    from that(2) obtain x s1 where "p s = Inr (Some x, s1)" "f x s1 = Inr (y, s')"
      by (auto simp: bindSome_def bindP_def retP_def split: option.splits)
    moreover from this(1) have "length (toks s1) < length (toks s)"
      using p that(1) by (auto simp: opt_def)
    ultimately show ?thesis
      using reads_length [OF totalD [OF f, of s1 x y s']] that(1) by fastforce
  qed
  moreover have "s' = s" if "length (toks s) < n" "bindSome p f s = Inr (None, s')" for s s'
    using that p by (auto simp: bindSome_def bindP_def retP_def opt_def split: option.splits)
  ultimately show ?thesis using t unfolding opt_def by blast
qed

lemma total_iter_fuel:
  assumes "\<And>x. opt n (step x)" and "length (toks s) < n" and "length (toks s) < m"
  shows "iter_fuel m step x s \<noteq> Inl Out_of_fuel
    \<and> (\<forall>y s'. iter_fuel m step x s = Inr (y, s') \<longrightarrow> reads s s')"
  using assms(2,3)
proof (induction m arbitrary: x s)
  case (Suc m)
  show ?case
  proof (cases "step x s")
    case (Inl e)
    then show ?thesis using total_fuel [OF opt_total [OF assms(1)] Suc.prems(1)] by auto
  next
    case (Inr p)
    obtain r s1 where p: "p = (r, s1)" by force
    have rd: "reads s s1" using totalD [OF opt_total [OF assms(1)] Suc.prems(1)] Inr p by auto
    show ?thesis
    proof (cases r)
      case (Some y)
      then have less: "length (toks s1) < length (toks s)"
        using assms(1) [of x] Inr p Suc.prems(1) by (auto simp: opt_def)
      then have "iter_fuel m step y s1 \<noteq> Inl Out_of_fuel
          \<and> (\<forall>z s'. iter_fuel m step y s1 = Inr (z, s') \<longrightarrow> reads s1 s')"
        using Suc.prems by (intro Suc.IH) simp_all
      with Inr p Some rd show ?thesis by (auto intro: reads_trans)
    qed (use Inr p rd in auto)
  qed
qed simp

lemma total_iterP [contract]: "(\<And>x. opt n (step x)) \<Longrightarrow> total n (iterP step x)"
  unfolding total_def iterP_def 
proof (intro allI impI)
  fix s :: parse_tokens
  assume step: "\<And>x. opt n (step x)" and n: "length (toks s) < n"
  show "iter_fuel (Suc (length (toks s))) step x s \<noteq> Inl Out_of_fuel
    \<and> (\<forall>y s'. iter_fuel (Suc (length (toks s))) step x s = Inr (y, s') \<longrightarrow> reads s s')"
    by (rule total_iter_fuel [OF step n lessI])
qed

lemma reads_readsin:
  assumes "reads s s'"
  shows "reads_in s s'"
proof -
  obtain w where w: "toks s = w @ toks s'" "prev s' = (if w = [] then prev s else Some (last w))"
    using assms by (auto simp: reads_def)
  show ?thesis
    using assms unfolding reads_in_def reads_def
    by (intro conjI exI [of _ w]) (use w in simp_all)
qed

lemma inner_total [contract]: "total n p \<Longrightarrow> inner n p"
  by (auto simp: total_def inner_def intro: reads_readsin)

lemma inner_bindP [contract]:
  assumes p: "inner n p" and f: "\<And>x. inner n (f x)"
  shows "inner n (bindP p f)"
  unfolding inner_def
proof (intro allI impI conjI)
  fix s :: parse_tokens
  assume n: "length (toks s) < n"
  have step: "reads_in s s1 \<and> length (toks s1) < n" if "p s = Inr (x, s1)" for x s1
  proof -
    have "reads_in s s1" using p n that by (auto simp: inner_def)
    then show ?thesis using n reads_length by (fastforce simp: reads_in_def)
  qed
  show "bindP p f s \<noteq> Inl Out_of_fuel"
    using p f step n by (fastforce simp: bindP_def bindE_Inl_iff inner_def)
  fix y s'
  assume "bindP p f s = Inr (y, s')"
  then obtain x s1 where "p s = Inr (x, s1)" "f x s1 = Inr (y, s')"
    by (auto simp: bindP_def)
  then show "reads_in s s'"
    using f step unfolding inner_def reads_in_def by (meson reads_trans)
qed

lemma inner_setDesc [contract]: "inner n (setDesc d)"
  by (auto simp: inner_def setDesc_def reads_in_def split: list.splits)

lemma inner_setIdent [contract]: "inner n (setIdent d)"
  by (auto simp: inner_def setIdent_def reads_in_def split: list.splits)

lemma total_withCtx [contract]:
  assumes "inner n p"
  shows "total n (withCtx d p)"
  unfolding total_def
proof (intro allI impI conjI)
  fix s :: parse_tokens
  let ?s = "s\<lparr>ctxs := (d, []) # ctxs s\<rparr>"
  assume "length (toks s) < n"
  then have p: "p ?s \<noteq> Inl Out_of_fuel" "p ?s = Inr (x, s1) \<Longrightarrow> reads_in ?s s1" for x s1
    using assms by (auto simp: inner_def)
  show "withCtx d p s \<noteq> Inl Out_of_fuel"
    using p(1) by (auto simp: withCtx_def bindE_Inl_iff)
  fix x s'
  assume "withCtx d p s = Inr (x, s')"
  then show "reads s s'"
    using p(2) by (auto simp: withCtx_def reads_in_def)
qed

text \<open>The functions that read tokens.\<close>

lemma total_front [contract]: "total n front"
  by (auto simp: total_def front_def split: list.splits)

lemma total_locP [contract]: "total n locP"
  unfolding locP_def by (intro contract)

lemma total_lastLoc [contract]: "total n lastLoc"
  by (auto simp: total_def lastLoc_def split: option.splits)

lemma check_cases:
  "check ty v s = Inr (False, s) \<or> toks s \<noteq> [] \<and> check ty v s = Inr (True, next_tok s)"
  by (auto simp: check_def split: list.splits)

lemma next_tok_length: "toks s \<noteq> [] \<Longrightarrow> length (toks (next_tok s)) < length (toks s)"
  by (auto simp: next_tok_def)

lemma next_tok_length': "toks s = t # ts \<Longrightarrow> toks (next_tok s) = ts"
  by (auto simp: next_tok_def)

lemma total_check: "total n (check ty v)"
  unfolding total_def
proof (intro allI impI conjI)
  fix s b s'
  show "check ty v s \<noteq> Inl Out_of_fuel" using check_cases [of ty v s] by auto
  show "reads s s'" if "check ty v s = Inr (b, s')"
    using check_cases [of ty v s] that reads_next_tok [of s] by auto
qed

lemma total_checkOp [contract]: "total n (checkOp v)"
  by (simp add: checkOp_def total_check)

lemma total_checkKeyword [contract]: "total n (checkKeyword v)"
  by (simp add: checkKeyword_def total_check)

lemma strict_expect_type [contract]: "strict n (expect_type ty)"
  by (auto simp: strict_def total_def expect_type_def expectToken_def bindE_Inl_iff
      reads_next_tok next_tok_length' split: list.splits if_splits)

lemma strict_expect [contract]: "strict n (expect ty v)"
  by (auto simp: strict_def total_def expect_def expectToken_def bindE_Inl_iff
      reads_next_tok next_tok_length' split: list.splits if_splits)

lemma strict_expectEither [contract]: "strict n (expectEither ty a b)"
  by (auto simp: strict_def total_def expectEither_def expectToken_def bindE_Inl_iff
      reads_next_tok next_tok_length' split: list.splits if_splits)

lemma strict_expectID [contract]: "strict n expectID"
  by (simp add: expectID_def strict_expect_type)

lemma strict_expectOp [contract]: "strict n (expectOp v)"
  by (simp add: expectOp_def strict_expect)

lemma strict_expectEitherOp [contract]: "strict n (expectEitherOp a b)"
  by (simp add: expectEitherOp_def strict_expectEither)

lemmas total_expect [contract] =
  strict_expectID [THEN strict_total] strict_expectOp [THEN strict_total]
  strict_expectEitherOp [THEN strict_total] strict_expect_type [THEN strict_total]

text \<open>A construct that starts with a token: what follows has one token less to read.\<close>

lemma opt_start:
  assumes c: "\<And>s. c s = Inr (False, s) \<or> toks s \<noteq> [] \<and> c s = Inr (True, next_tok s)"
    and p: "total n p"
  shows "opt (Suc n) (bindP c (\<lambda>b. if b then bindP p (\<lambda>x. retP (Some x)) else retP None))"
    (is "opt _ ?q")
proof -
  have q: "?q s = Inr (None, s) \<or> toks s \<noteq> [] \<and> ?q s = bindE (p (next_tok s)) (\<lambda>(x, s'). Inr (Some x, s'))"
    for s using c [of s] by (elim disjE conjE) (simp_all add: bindP_def retP_def)
  have sub: "p (next_tok s) \<noteq> Inl Out_of_fuel \<and> (\<forall>x s'. p (next_tok s) = Inr (x, s')
      \<longrightarrow> reads (next_tok s) s' \<and> length (toks s') < length (toks s))"
    if "toks s \<noteq> []" "length (toks s) < Suc n" for s
    using p that next_tok_length [OF that(1)] unfolding total_def
    by (metis Suc_less_eq le_trans less_SucI less_Suc_eq_le not_less_eq_eq order_less_le_trans reads_length)
  have q': "r = None \<and> s' = s \<or>
      toks s \<noteq> [] \<and> (\<exists>x. r = Some x \<and> p (next_tok s) = Inr (x, s'))" if "?q s = Inr (r, s')" for r s s'
    using q [of s] unfolding that
  proof (elim disjE conjE)
    assume ne: "toks s \<noteq> []" and "Inr (r, s') = bindE (p (next_tok s)) (\<lambda>(x, s'). Inr (Some x, s'))"
    from sym [OF this(2)] show ?thesis using ne by auto
  qed simp
  show ?thesis
    unfolding opt_def total_def
  proof (intro conjI allI impI)
    fix s :: parse_tokens
    assume n: "length (toks s) < Suc n"
    show "?q s \<noteq> Inl Out_of_fuel"
      using q [of s] sub [of s] n by (auto simp: bindE_Inl_iff)
    fix x s' assume "?q s = Inr (x, s')"
    from q' [OF this] show "reads s s'"
      using sub [of s] n reads_trans [OF reads_next_tok] by blast
  next
    fix s s' :: parse_tokens
    assume "?q s = Inr (None, s')"
    from q' [OF this] show "s' = s" by simp
  next
    fix s s' :: parse_tokens and x
    assume "length (toks s) < Suc n" "?q s = Inr (Some x, s')"
    then show "length (toks s') < length (toks s)" using q' sub [of s] by blast
  qed
qed

lemma opt_whenOp [contract]: "total n p \<Longrightarrow> opt (Suc n) (whenOp v p)"
  unfolding whenOp_def checkOp_def by (rule opt_start [OF check_cases])

lemma opt_whenKey [contract]: "total n p \<Longrightarrow> opt (Suc n) (whenKey v p)"
  unfolding whenKey_def checkKeyword_def by (rule opt_start [OF check_cases])

lemma strict_bindP1 [contract]:
  assumes p: "strict n p" and f: "\<And>x. total n (f x)"
  shows "strict n (bindP p f)"
proof -
  have "total n (bindP p f)"
    using total_bindP [OF strict_total [OF p] f] .
  moreover have "length (toks s') < length (toks s)"
    if "length (toks s) < n" "bindP p f s = Inr (y, s')" for s y s'
  proof -
    from that(2) obtain x s1 where "p s = Inr (x, s1)" "f x s1 = Inr (y, s')" by (auto simp: bindP_def)
    moreover from this(1) have "length (toks s1) < length (toks s)"
      using p that(1) by (auto simp: strict_def)
    ultimately show ?thesis using reads_length [OF totalD [OF f, of s1 x y s']] that(1) by fastforce
  qed
  ultimately show ?thesis by (auto simp: strict_def)
qed

lemma strict_bindP2:
  assumes p: "total n p" and f: "\<And>x. strict n (f x)"
  shows "strict n (bindP p f)"
proof -
  have "total n (bindP p f)"
    using total_bindP [OF p strict_total [OF f]] .
  moreover have "length (toks s') < length (toks s)"
    if "length (toks s) < n" "bindP p f s = Inr (y, s')" for s y s'
  proof -
    from that(2) obtain x s1 where s1: "p s = Inr (x, s1)" "f x s1 = Inr (y, s')" by (auto simp: bindP_def)
    then have "length (toks s1) \<le> length (toks s)" using reads_length [OF totalD [OF p that(1)]] by blast
    with s1 f [of x] that(1) show ?thesis unfolding strict_def by (meson le_less_trans order_less_le_trans)
  qed
  ultimately show ?thesis by (auto simp: strict_def)
qed

lemma opt_whenPeek [contract]:
  assumes "strict n p"
  shows "opt n (whenPeek ty p)"
proof -
  have "strict n (bindP p (\<lambda>x. retP (Some x)))" using assms by (intro strict_bindP1 total_retP)
  then show ?thesis
    by (auto simp: opt_def total_def strict_def whenPeek_def) (auto simp: bindP_def retP_def)
qed

lemma strict_expectNode [contract]:
  assumes p: "opt n p"
  shows "strict n (expectNode p msg)"
proof -
  have eq: "expectNode p msg s = (case p s of
      Inl e \<Rightarrow> Inl e
    | Inr (Some x, s') \<Rightarrow> Inr (x, s')
    | Inr (None, s') \<Rightarrow> (case toks s' of
        [] \<Rightarrow> Inl (Undefined ''token read past the end'')
      | t # _ \<Rightarrow> Inl (Fatal (tloc t) (''Expected '' @ msg @ contextStack (ctxs s')))))" for s
    by (auto simp: expectNode_def bindP_def retP_def locP_def front_def
        split: sum.splits option.splits list.splits)
  show ?thesis
    using p unfolding strict_def total_def opt_def eq
    by (auto split: sum.splits option.splits list.splits)
qed

lemmas total_expectNode [contract] = strict_expectNode [THEN strict_total]

lemma total_warnP [contract]: "total n (warnP msg l)"
  by (auto simp: total_def warnP_def reads_def)

lemma total_extraSemi [contract]: "total n extraSemi"
  unfolding extraSemi_def
  by (intro total_iterP opt_Suc [OF opt_whenOp] total_bindP total_lastLoc total_warnP)

text \<open>
  Choices and loops. After \<open>ifOp\<close> has seen its operator there is one token less to read.
\<close>

lemma ifOp_cases:
  "ifOp v p q s = q s \<or> toks s \<noteq> [] \<and> ifOp v p q s = p (next_tok s)"
  using check_cases [of T_oper v s] by (auto simp: ifOp_def checkOp_def bindP_def)

lemma ifKey_cases:
  "ifKey v p q s = q s \<or> toks s \<noteq> [] \<and> ifKey v p q s = p (next_tok s)"
  using check_cases [of T_keyword v s] by (auto simp: ifKey_def checkKeyword_def bindP_def)

lemma total_next:
  assumes "total n p" and "toks s \<noteq> []" and "length (toks s) < Suc n"
  shows "p (next_tok s) \<noteq> Inl Out_of_fuel"
    and "p (next_tok s) = Inr (x, s') \<Longrightarrow> reads s s' \<and> length (toks s') < length (toks s)"
proof -
  have n: "length (toks (next_tok s)) < n" "length (toks (next_tok s)) < length (toks s)"
    using next_tok_length [OF assms(2)] assms(3) by simp_all
  show "p (next_tok s) \<noteq> Inl Out_of_fuel" using total_fuel [OF assms(1) n(1)] .
  show "reads s s' \<and> length (toks s') < length (toks s)" if "p (next_tok s) = Inr (x, s')"
    using totalD [OF assms(1) n(1) that] reads_trans [OF reads_next_tok [OF assms(2)]]
      reads_length n(2) by fastforce
qed

lemma total_choice:
  assumes c: "\<And>s. c s = q s \<or> toks s \<noteq> [] \<and> c s = p (next_tok s)"
    and p: "total n p" and q: "total (Suc n) q"
  shows "total (Suc n) c"
  unfolding total_def
proof (intro allI impI conjI)
  fix s :: parse_tokens
  assume n: "length (toks s) < Suc n"
  show "c s \<noteq> Inl Out_of_fuel"
    using c [of s] total_next(1) [OF p _ n] total_fuel [OF q n] by auto
  show "reads s s'" if "c s = Inr (x, s')" for x s'
    using c [of s] total_next(2) [OF p _ n] totalD [OF q n] that by metis
qed

lemma strict_choice:
  assumes c: "\<And>s. c s = q s \<or> toks s \<noteq> [] \<and> c s = p (next_tok s)"
    and p: "total n p" and q: "strict n q"
  shows "strict n c"
  unfolding strict_def total_def
proof (intro allI impI conjI)
  fix s :: parse_tokens
  assume n: "length (toks s) < n"
  then have n': "length (toks s) < Suc n" by simp
  show "c s \<noteq> Inl Out_of_fuel"
    using c [of s] total_next(1) [OF p _ n'] total_fuel [OF strict_total [OF q] n] by auto
  show "reads s s'" if "c s = Inr (x, s')" for x s'
    using c [of s] total_next(2) [OF p _ n'] totalD [OF strict_total [OF q] n] that by metis
next
  fix s s' :: parse_tokens and x
  assume n: "length (toks s) < n" and "c s = Inr (x, s')"
  then show "length (toks s') < length (toks s)"
    using c [of s] total_next(2) [OF p, of s] q unfolding strict_def by (metis less_SucI)
qed

lemma total_ifOp [contract]: "total n p \<Longrightarrow> total (Suc n) q \<Longrightarrow> total (Suc n) (ifOp v p q)"
  using ifOp_cases by (rule total_choice)

lemma total_ifKey [contract]: "total n p \<Longrightarrow> total (Suc n) q \<Longrightarrow> total (Suc n) (ifKey v p q)"
  using ifKey_cases by (rule total_choice)

lemma strict_ifOp [contract]: "total n p \<Longrightarrow> strict n q \<Longrightarrow> strict n (ifOp v p q)"
  using ifOp_cases by (rule strict_choice)

lemma strict_ifKey [contract]: "total n p \<Longrightarrow> strict n q \<Longrightarrow> strict n (ifKey v p q)"
  using ifKey_cases by (rule strict_choice)

lemma opt_strict: "strict n p \<Longrightarrow> opt n (bindP p (\<lambda>y. retP (Some y)))"
proof -
  assume "strict n p"
  then have "strict n (bindP p (\<lambda>y. retP (Some y)))" by (intro strict_bindP1 total_retP)
  then show ?thesis by (auto simp: opt_def strict_def) (auto simp: bindP_def retP_def)
qed

lemma total_manyP [contract]: "opt n p \<Longrightarrow> total n (manyP p)"
  unfolding manyP_def by (intro contract)

lemma total_sepP [contract]:
  assumes "strict n p"
  shows "total n (sepP p a b)"
  unfolding sepP_def
  by (intro total_bindP total_iterP) (use assms in \<open>auto intro!: contract opt_strict total_expect\<close>)

lemma total_untilOp [contract]:
  assumes "strict n p"
  shows "total n (untilOp v p)"
  unfolding untilOp_def
  by (intro total_bindP total_iterP) (use assms in \<open>auto intro!: contract opt_strict\<close>)

end
