(* ===== verification/Parse_Contract.thy ===== *)
theory Parse_Contract
  imports Parse_Tokens
begin

section \<open>Parsing functions that agree\<close>

text \<open>
  Two parsers agree up to \<open>n\<close> if they do the same on every cursor with fewer than \<open>n\<close> tokens left. The
  contracts above are kept together with an agreement, so that the parser built from one set of
  recursive parsers is compared with the parser built from another.
\<close>

definition agree :: "nat \<Rightarrow> 'a parser \<Rightarrow> 'a parser \<Rightarrow> bool" where
  "agree n p q \<longleftrightarrow> (\<forall>s. length (toks s) < n \<longrightarrow> p s = q s)"

definition total_eq :: "nat \<Rightarrow> 'a parser \<Rightarrow> 'a parser \<Rightarrow> bool" where
  "total_eq n p q \<longleftrightarrow> total n p \<and> agree n p q"

definition inner_eq :: "nat \<Rightarrow> 'a parser \<Rightarrow> 'a parser \<Rightarrow> bool" where
  "inner_eq n p q \<longleftrightarrow> inner n p \<and> agree n p q"

definition strict_eq :: "nat \<Rightarrow> 'a parser \<Rightarrow> 'a parser \<Rightarrow> bool" where
  "strict_eq n p q \<longleftrightarrow> strict n p \<and> agree n p q"

definition opt_eq :: "nat \<Rightarrow> 'a option parser \<Rightarrow> 'a option parser \<Rightarrow> bool" where
  "opt_eq n p q \<longleftrightarrow> opt n p \<and> agree n p q"

lemmas contract_eq_defs = total_eq_def inner_eq_def strict_eq_def opt_eq_def

named_theorems contract_eq \<open>contracts of two agreeing parsing functions\<close>

lemma agree_refl [simp]: "agree n p p"
  by (simp add: agree_def)

lemma agree_bind:
  assumes "\<And>s x s'. length (toks s) < n \<Longrightarrow> p s = Inr (x, s') \<Longrightarrow> length (toks s') < n"
    and "agree n p q" and "\<And>x. agree n (f x) (g x)"
  shows "agree n (bindP p f) (bindP q g)"
  unfolding agree_def
proof (intro allI impI)
  fix s :: parse_tokens
  assume n: "length (toks s) < n"
  then have "p s = q s" using assms(2) by (simp add: agree_def)
  moreover have "f x s' = g x s'" if "p s = Inr (x, s')" for x s'
    using assms(1) [OF n that] assms(3) [of x] by (simp add: agree_def)
  ultimately show "bindP p f s = bindP q g s"
    by (auto simp: bindP_def intro!: bindE_cong)
qed

lemma total_shrinks: "total n p \<Longrightarrow> length (toks s) < n \<Longrightarrow> p s = Inr (x, s') \<Longrightarrow> length (toks s') < n"
  using totalD reads_length by (metis le_less_trans)

lemma inner_shrinks: "inner n p \<Longrightarrow> length (toks s) < n \<Longrightarrow> p s = Inr (x, s') \<Longrightarrow> length (toks s') < n"
  using reads_length by (fastforce simp: inner_def reads_in_def)

lemma total_eq_bindP [contract_eq]:
  "total_eq n p q \<Longrightarrow> (\<And>x. total_eq n (f x) (g x)) \<Longrightarrow> total_eq n (bindP p f) (bindP q g)"
  by (auto simp: total_eq_def intro!: total_bindP agree_bind elim: total_shrinks)

lemma inner_eq_bindP [contract_eq]:
  "inner_eq n p q \<Longrightarrow> (\<And>x. inner_eq n (f x) (g x)) \<Longrightarrow> inner_eq n (bindP p f) (bindP q g)"
  by (auto simp: inner_eq_def intro!: inner_bindP agree_bind elim: inner_shrinks)

lemma strict_eq_bindP [contract_eq]:
  "strict_eq n p q \<Longrightarrow> (\<And>x. total_eq n (f x) (g x)) \<Longrightarrow> strict_eq n (bindP p f) (bindP q g)"
  by (auto simp: strict_eq_def total_eq_def intro!: strict_bindP1 agree_bind
      elim: total_shrinks [OF strict_total])

lemma strict_eq_locP [contract_eq]:
  "(\<And>l. strict_eq n (f l) (g l)) \<Longrightarrow> strict_eq n (bindP locP f) (bindP locP g)"
  by (auto simp: strict_eq_def intro!: strict_bindP2 total_locP agree_bind
      elim: total_shrinks [OF total_locP])

lemma strict_eq_bindP2:
  "total_eq n p q \<Longrightarrow> (\<And>x. strict_eq n (f x) (g x)) \<Longrightarrow> strict_eq n (bindP p f) (bindP q g)"
  by (auto simp: strict_eq_def total_eq_def intro!: strict_bindP2 agree_bind elim: total_shrinks)

lemma total_eq_refl: "total n p \<Longrightarrow> total_eq n p p"
  by (simp add: total_eq_def)

lemma strict_eq_refl: "strict n p \<Longrightarrow> strict_eq n p p"
  by (simp add: strict_eq_def)

lemma opt_eq_refl: "opt n p \<Longrightarrow> opt_eq n p p"
  by (simp add: opt_eq_def)

lemma strict_eq_total: "strict_eq n p q \<Longrightarrow> total_eq n p q"
  by (simp add: contract_eq_defs strict_total)

lemma opt_eq_total: "opt_eq n p q \<Longrightarrow> total_eq n p q"
  by (simp add: contract_eq_defs opt_total)

lemma inner_eq_total: "total_eq n p q \<Longrightarrow> inner_eq n p q"
  by (simp add: contract_eq_defs inner_total)

lemma opt_eq_Suc: "opt_eq (Suc n) p q \<Longrightarrow> opt_eq n p q"
  by (auto simp: opt_eq_def agree_def intro: opt_Suc)

lemma total_eq_Suc: "total_eq (Suc n) p q \<Longrightarrow> total_eq n p q"
  by (auto simp: total_eq_def agree_def intro: total_Suc)

lemma strict_eq_Suc: "strict_eq (Suc n) p q \<Longrightarrow> strict_eq n p q"
  by (auto simp: strict_eq_def agree_def strict_def intro: total_Suc)

lemmas total_token_eq =
  total_retP [THEN total_eq_refl] total_locP [THEN total_eq_refl] total_lastLoc [THEN total_eq_refl]
  total_front [THEN total_eq_refl] total_checkOp [THEN total_eq_refl]
  total_checkKeyword [THEN total_eq_refl] total_extraSemi [THEN total_eq_refl]
  total_expect [THEN total_eq_refl]

lemmas token_eq [contract_eq] =
  total_token_eq
  strict_expectID [THEN strict_eq_refl] strict_expectOp [THEN strict_eq_refl]
  strict_expectEitherOp [THEN strict_eq_refl] strict_expect_type [THEN strict_eq_refl]
  opt_retP_None [THEN opt_eq_refl]

lemmas inner_token_eq = total_token_eq [THEN inner_eq_total]

lemma inner_eq_setDesc [contract_eq]: "inner_eq n (setDesc d) (setDesc d)"
  by (simp add: inner_eq_def inner_setDesc)

lemma inner_eq_setIdent [contract_eq]: "inner_eq n (setIdent d) (setIdent d)"
  by (simp add: inner_eq_def inner_setIdent)

lemma opt_eq_orElse [contract_eq]:
  assumes "opt_eq n p q" and "opt_eq n p' q'"
  shows "opt_eq n (orElse p p') (orElse q q')"
proof -
  have "agree n (orElse p p') (orElse q q')"
    unfolding orElse_def using assms
    by (intro agree_bind) (auto simp: opt_eq_def elim: total_shrinks [OF opt_total] split: option.splits)
  with assms show ?thesis by (auto simp: opt_eq_def intro: opt_orElse)
qed

lemma opt_eq_bindSome [contract_eq]:
  assumes "opt_eq n p q" and "\<And>x. total_eq n (f x) (g x)"
  shows "opt_eq n (bindSome p f) (bindSome q g)"
proof -
  have "agree n (bindP (f x) (\<lambda>y. retP (Some y))) (bindP (g x) (\<lambda>y. retP (Some y)))" for x
    using total_eq_bindP [OF assms(2) total_eq_refl [OF total_retP]] by (auto simp: total_eq_def)
  then have "agree n (bindSome p f) (bindSome q g)"
    unfolding bindSome_def using assms(1)
    by (intro agree_bind) (auto simp: opt_eq_def elim: total_shrinks [OF opt_total] split: option.splits)
  with assms show ?thesis by (auto simp: opt_eq_def total_eq_def intro: opt_bindSome)
qed

lemma opt_eq_strict:
  "strict_eq n p q \<Longrightarrow> opt_eq n (bindP p (\<lambda>y. retP (Some y))) (bindP q (\<lambda>y. retP (Some y)))"
  by (auto simp: opt_eq_def strict_eq_def intro!: opt_strict agree_bind
      elim: total_shrinks [OF strict_total])

lemma iter_fuel_agree:
  assumes step: "\<And>x. opt_eq n (f x) (g x)" and "length (toks s) < n"
  shows "iter_fuel m f x s = iter_fuel m g x s"
  using assms(2)
proof (induction m arbitrary: x s)
  case (Suc m)
  have "f x s = g x s" using step [of x] Suc.prems by (auto simp: opt_eq_def agree_def)
  moreover have "length (toks s') < n" if "f x s = Inr (r, s')" for r s'
    using total_shrinks [of n "f x", OF opt_total Suc.prems that] step by (auto simp: opt_eq_def)
  ultimately show ?case using Suc.IH by (auto intro!: bindE_cong split: option.splits)
qed simp

lemma total_eq_iterP [contract_eq]:
  assumes "\<And>x. opt_eq n (f x) (g x)"
  shows "total_eq n (iterP f x) (iterP g x)"
  using assms iter_fuel_agree [OF assms]
  by (auto simp: total_eq_def agree_def iterP_def opt_eq_def intro!: total_iterP simp del: iter_fuel.simps)

lemma total_eq_withCtx [contract_eq]:
  "inner_eq n p q \<Longrightarrow> total_eq n (withCtx d p) (withCtx d q)"
  by (auto simp: total_eq_def inner_eq_def intro!: total_withCtx) (auto simp: agree_def withCtx_def)

text \<open>Constructs that start with a token.\<close>

lemma agree_next:
  assumes p: "agree n p q" and "toks s \<noteq> []" and "length (toks s) < Suc n"
  shows "p (next_tok s) = q (next_tok s)"
  using p next_tok_length [OF assms(2)] assms(3) by (simp add: agree_def)

lemma agree_choice:
  assumes c: "\<And>s. c s = Inr (False, s) \<or> toks s \<noteq> [] \<and> c s = Inr (True, next_tok s)"
    and p: "agree n p q" and p': "agree (Suc n) p' q'"
  shows "agree (Suc n) (bindP c (\<lambda>b. if b then p else p')) (bindP c (\<lambda>b. if b then q else q'))"
  unfolding agree_def
proof (intro allI impI)
  fix s :: parse_tokens
  assume n: "length (toks s) < Suc n"
  from c [of s] show "bindP c (\<lambda>b. if b then p else p') s = bindP c (\<lambda>b. if b then q else q') s"
  proof (elim disjE conjE)
    assume "c s = Inr (False, s)"
    then show ?thesis using p' n by (simp add: bindP_def agree_def)
  next
    assume "toks s \<noteq> []" "c s = Inr (True, next_tok s)"
    then show ?thesis using agree_next [OF p _ n] by (simp add: bindP_def)
  qed
qed

lemma agree_ifOp: "agree n p q \<Longrightarrow> agree (Suc n) p' q' \<Longrightarrow> agree (Suc n) (ifOp v p p') (ifOp v q q')"
  unfolding ifOp_def checkOp_def by (rule agree_choice [OF check_cases])

lemma agree_ifKey: "agree n p q \<Longrightarrow> agree (Suc n) p' q' \<Longrightarrow> agree (Suc n) (ifKey v p p') (ifKey v q q')"
  unfolding ifKey_def checkKeyword_def by (rule agree_choice [OF check_cases])

lemma total_eq_ifOp [contract_eq]:
  "total_eq n p q \<Longrightarrow> total_eq (Suc n) p' q' \<Longrightarrow> total_eq (Suc n) (ifOp v p p') (ifOp v q q')"
  by (auto simp: total_eq_def intro: total_ifOp agree_ifOp)

lemma total_eq_ifKey [contract_eq]:
  "total_eq n p q \<Longrightarrow> total_eq (Suc n) p' q' \<Longrightarrow> total_eq (Suc n) (ifKey v p p') (ifKey v q q')"
  by (auto simp: total_eq_def intro: total_ifKey agree_ifKey)

text \<open>The same inside a construct, where the number of tokens is below a bound that need not shrink.\<close>

lemma total_eq_ifOp' [contract_eq]:
  assumes "total_eq n p q" and "total_eq n p' q'"
  shows "total_eq n (ifOp v p p') (ifOp v q q')"
proof (cases n)
  case (Suc m)
  then show ?thesis
    using assms total_eq_ifOp [of m p q p' q' v] by (auto intro: total_eq_Suc)
qed (simp add: total_eq_def total_def agree_def)

lemma total_eq_ifKey' [contract_eq]:
  assumes "total_eq n p q" and "total_eq n p' q'"
  shows "total_eq n (ifKey v p p') (ifKey v q q')"
proof (cases n)
  case (Suc m)
  then show ?thesis
    using assms total_eq_ifKey [of m p q p' q' v] by (auto intro: total_eq_Suc)
qed (simp add: total_eq_def total_def agree_def)

lemma strict_eq_ifOp [contract_eq]:
  assumes "total_eq n p q" and "strict_eq n p' q'"
  shows "strict_eq n (ifOp v p p') (ifOp v q q')"
  using total_eq_ifOp' [OF assms(1) strict_eq_total [OF assms(2)]] assms
  by (auto simp: strict_eq_def total_eq_def intro: strict_ifOp)

lemma strict_eq_ifKey [contract_eq]:
  assumes "total_eq n p q" and "strict_eq n p' q'"
  shows "strict_eq n (ifKey v p p') (ifKey v q q')"
  using total_eq_ifKey' [OF assms(1) strict_eq_total [OF assms(2)]] assms
  by (auto simp: strict_eq_def total_eq_def intro: strict_ifKey)

lemma inner_eq_ifOp [contract_eq]:
  "inner_eq n p q \<Longrightarrow> inner_eq n p' q' \<Longrightarrow> inner_eq n (ifOp v p p') (ifOp v q q')"
  unfolding ifOp_def
  by (rule inner_eq_bindP [OF inner_eq_total [OF total_eq_refl [OF total_checkOp]]]) simp

lemma when_if:
  "whenOp v p = ifOp v (bindP p (\<lambda>x. retP (Some x))) (retP None)"
  "whenKey v p = ifKey v (bindP p (\<lambda>x. retP (Some x))) (retP None)"
  by (simp_all add: whenOp_def whenKey_def ifOp_def ifKey_def)

lemma opt_eq_whenOp [contract_eq]:
  assumes "total_eq n p q"
  shows "opt_eq (Suc n) (whenOp v p) (whenOp v q)"
  using assms total_eq_ifOp [OF total_eq_bindP [OF assms total_eq_refl [OF total_retP]]
      total_eq_refl [OF total_retP], of v Some None]
  by (auto simp: opt_eq_def total_eq_def when_if(1) [symmetric] opt_whenOp)

lemma opt_eq_whenKey [contract_eq]:
  assumes "total_eq n p q"
  shows "opt_eq (Suc n) (whenKey v p) (whenKey v q)"
  using assms total_eq_ifKey [OF total_eq_bindP [OF assms total_eq_refl [OF total_retP]]
      total_eq_refl [OF total_retP], of v Some None]
  by (auto simp: opt_eq_def total_eq_def when_if(2) [symmetric] opt_whenKey)

lemma opt_eq_whenPeek [contract_eq]:
  assumes "strict_eq n p q"
  shows "opt_eq n (whenPeek ty p) (whenPeek ty q)"
  using opt_eq_strict [OF assms] assms
  by (auto simp: opt_eq_def strict_eq_def intro: opt_whenPeek) (auto simp: agree_def whenPeek_def)

lemma strict_eq_expectNode [contract_eq]:
  assumes "opt_eq n p q"
  shows "strict_eq n (expectNode p msg) (expectNode q msg)"
  using assms unfolding strict_eq_def opt_eq_def
  by (auto intro: strict_expectNode) (auto simp: agree_def expectNode_def bindP_def)

lemma total_eq_manyP [contract_eq]: "opt_eq n p q \<Longrightarrow> total_eq n (manyP p) (manyP q)"
  unfolding manyP_def by (intro contract_eq)

lemma total_eq_sepP [contract_eq]:
  assumes "strict_eq n p q"
  shows "total_eq n (sepP p a b) (sepP q a b)"
  unfolding sepP_def
  by (intro total_eq_bindP total_eq_iterP)
    (use assms in \<open>auto intro!: opt_eq_strict strict_eq_bindP total_eq_bindP token_eq\<close>)

lemma total_eq_untilOp [contract_eq]:
  assumes "strict_eq n p q"
  shows "total_eq n (untilOp v p) (untilOp v q)"
  unfolding untilOp_def
  by (intro total_eq_bindP total_eq_iterP)
    (use assms in \<open>auto intro!: opt_eq_strict strict_eq_ifOp strict_eq_bindP token_eq\<close>)

lemmas total_eq_expectNode [contract_eq] = strict_eq_expectNode [THEN strict_eq_total]

end
