(* ===== verification/Parser.thy ===== *)
theory Parser
  imports Ast Parse_Contract
begin

section \<open>The recursive descent parser\<close>

text \<open>
  \<^verbatim>\<open>src/Syntax/parse type.cpp\<close>, \<^verbatim>\<open>parse expr.cpp\<close>, \<^verbatim>\<open>parse litr.cpp\<close>, \<^verbatim>\<open>parse func.cpp\<close>,
  \<^verbatim>\<open>parse asgn.cpp\<close>, \<^verbatim>\<open>parse stat.cpp\<close>, \<^verbatim>\<open>parse decl.cpp\<close> and \<^verbatim>\<open>syntax analysis.cpp\<close>, one definition per
  function. The functions of the source call each other in cycles; each definition takes the parsers
  it calls through such a cycle as arguments: \<open>pT\<close> is \<^verbatim>\<open>parseType\<close>, \<open>pE\<close> is \<^verbatim>\<open>parseExpr\<close>, \<open>pU\<close> is
  \<^verbatim>\<open>parseUnary\<close> and \<open>pS\<close> is \<^verbatim>\<open>parseStat\<close>. The knot is tied at the end with a counter that starts above the
  number of tokens left, and \<open>parseType_eq\<close>, \<open>parseExpr_eq\<close>, \<open>parseUnary_eq\<close> and \<open>parseStat_eq\<close> show that the
  parsers satisfy the equations of the source, in which no counter occurs.
\<close>

subsection \<open>Types\<close>

definition parseRef :: "ParamRef parser" where
  "parseRef = ifKey ''ref'' (retP ref) (retP val)"

definition parseFuncType :: "ty option parser \<Rightarrow> ty option parser" where
  "parseFuncType pT =
     whenKey ''func'' (withCtx ''in function type''
       (bindP (expectOp ''('') (\<lambda>_.
        bindP lastLoc (\<lambda>l.
        bindP (ifOp '')'' (retP [])
          (sepP (bindP parseRef (\<lambda>r. bindP (expectNode pT ''type'') (\<lambda>t. retP (r, t)))) '')'' '',''))
          (\<lambda>params.
        ifOp ''->''
          (bindP (setDesc ''after ->'') (\<lambda>_.
           bindP (expectNode pT ''type'') (\<lambda>t. retP (FuncType l params (Some t)))))
          (retP (FuncType l params None)))))))"

definition parseArrayType :: "ty option parser \<Rightarrow> ty option parser" where
  "parseArrayType pT =
     whenOp ''['' (withCtx ''in array type''
       (bindP lastLoc (\<lambda>l.
        bindP (expectNode pT ''element type'') (\<lambda>t.
        bindP (expectOp '']'') (\<lambda>_. retP (ArrayType l t))))))"

definition parseNamedType :: "ty option parser" where
  "parseNamedType =
     whenPeek T_identifier (bindP locP (\<lambda>l. bindP expectID (\<lambda>n. retP (NamedType l n None))))"

definition parseStructMember :: "ty option parser \<Rightarrow> (name \<times> ty \<times> loc) parser" where
  "parseStructMember pT =
     bindP locP (\<lambda>l.
     bindP expectID (\<lambda>n.
     bindP (expectOp '':'') (\<lambda>_.
     bindP (expectNode pT ''type after :'') (\<lambda>t.
     bindP (expectOp '';'') (\<lambda>_. retP (n, t, l))))))"

definition parseStructType :: "ty option parser \<Rightarrow> ty option parser" where
  "parseStructType pT =
     whenKey ''struct'' (bindP lastLoc (\<lambda>l. withCtx ''in struct type''
       (bindP (expectOp ''{'') (\<lambda>_.
        bindP (untilOp ''}'' (parseStructMember pT)) (\<lambda>fields. retP (StructType l fields))))))"

definition parseTypeF :: "ty option parser \<Rightarrow> ty option parser" where
  "parseTypeF pT =
     orElse (parseFuncType pT)
       (orElse (parseArrayType pT)
         (orElse parseNamedType
           (parseStructType pT)))"

subsection \<open>Parameters and bodies of functions\<close>

definition parseParam :: "ty option parser \<Rightarrow> FuncParam parser" where
  "parseParam pT =
     bindP locP (\<lambda>l.
     bindP expectID (\<lambda>n.
     bindP (expectOp '':'') (\<lambda>_.
     bindP parseRef (\<lambda>r.
     bindP (expectNode pT ''type'') (\<lambda>t. retP (FuncParam l n r t))))))"

definition parseReceiver :: "ty option parser \<Rightarrow> FuncParam option parser" where
  "parseReceiver pT =
     ifOp ''(''
       (bindP (parseParam pT) (\<lambda>p. bindP (expectOp '')'') (\<lambda>_. retP (Some p))))
       (retP None)"

definition parseFuncParams :: "ty option parser \<Rightarrow> FuncParam list parser" where
  "parseFuncParams pT =
     withCtx ''in parameter list''
       (bindP (expectOp ''('') (\<lambda>_.
        ifOp '')'' (retP []) (sepP (parseParam pT) '')'' '','')))"

definition parseFuncRet :: "ty option parser \<Rightarrow> ty option parser" where
  "parseFuncRet pT =
     ifOp ''->''
       (withCtx ''after ->'' (bindP (expectNode pT ''type'') (\<lambda>t. retP (Some t))))
       (retP None)"

definition parseFuncBody :: "stat option parser \<Rightarrow> (loc \<times> stat list) parser" where
  "parseFuncBody pS =
     bindP locP (\<lambda>l.
     bindP (expectOp ''{'') (\<lambda>_.
     bindP (manyP pS) (\<lambda>nodes.
     bindP (expectOp ''}'') (\<lambda>_. retP (l, nodes)))))"

subsection \<open>Literals\<close>

definition parseLiteralToken :: "token_type \<Rightarrow> (loc \<Rightarrow> string \<Rightarrow> expr) \<Rightarrow> bool \<Rightarrow> expr option parser" where
  "parseLiteralToken type mk trim =
     whenPeek type (bindP locP (\<lambda>l. bindP (expect_type type) (\<lambda>v.
       retP (mk l (if trim then butlast (tl v) else v)))))"

definition parseStringLitr :: "expr option parser" where
  "parseStringLitr = parseLiteralToken T_string StringLiteral True"

definition parseCharLitr :: "expr option parser" where
  "parseCharLitr = parseLiteralToken T_character CharLiteral True"

definition parseNumberLitr :: "expr option parser" where
  "parseNumberLitr = parseLiteralToken T_number NumberLiteral False"

definition parseBool :: "expr option parser" where
  "parseBool =
     orElse
       (whenKey ''true'' (bindP lastLoc (\<lambda>l. retP (BoolLiteral l True))))
       (whenKey ''false'' (bindP lastLoc (\<lambda>l. retP (BoolLiteral l False))))"

definition parseExprList :: "expr option parser \<Rightarrow> string \<Rightarrow> expr list parser" where
  "parseExprList pE close =
     ifOp close (retP []) (sepP (expectNode pE ''expression'') '','' close)"

definition parseArray :: "expr option parser \<Rightarrow> expr option parser" where
  "parseArray pE =
     whenOp ''['' (withCtx ''in array literal''
       (bindP lastLoc (\<lambda>l. bindP (parseExprList pE '']'') (\<lambda>es. retP (ArrayLiteral l es)))))"

definition parseInitList :: "expr option parser \<Rightarrow> expr option parser" where
  "parseInitList pE =
     whenOp ''{'' (withCtx ''in initializer list''
       (bindP lastLoc (\<lambda>l. bindP (parseExprList pE ''}'') (\<lambda>es. retP (InitList l es)))))"

definition parseLambda :: "ty option parser \<Rightarrow> stat option parser \<Rightarrow> expr option parser" where
  "parseLambda pT pS =
     whenKey ''func'' (withCtx ''in lambda expression''
       (bindP lastLoc (\<lambda>l.
        bindP (parseFuncParams pT) (\<lambda>params.
        bindP (parseFuncRet pT) (\<lambda>ret.
        bindP (parseFuncBody pS) (\<lambda>(bl, body). retP (Lambda l params ret bl body)))))))"

definition parseLitr ::
  "ty option parser \<Rightarrow> expr option parser \<Rightarrow> stat option parser \<Rightarrow> expr option parser" where
  "parseLitr pT pE pS =
     orElse parseStringLitr
       (orElse parseCharLitr
         (orElse parseNumberLitr
           (orElse parseBool
             (orElse (parseArray pE)
               (orElse (parseInitList pE)
                 (parseLambda pT pS))))))"

subsection \<open>Expressions\<close>

definition parseIdentExpr :: "expr option parser" where
  "parseIdentExpr =
     whenPeek T_identifier (bindP locP (\<lambda>l. bindP expectID (\<lambda>n. retP (Identifier l n))))"

definition parseTerm ::
  "ty option parser \<Rightarrow> expr option parser \<Rightarrow> stat option parser \<Rightarrow> expr option parser" where
  "parseTerm pT pE pS =
     orElse
       (whenOp ''('' (bindP (expectNode pE ''expression after ('') (\<lambda>e.
          bindP (expectOp '')'') (\<lambda>_. retP e))))
       (orElse parseIdentExpr
         (parseLitr pT pE pS))"

text \<open>The body of the loop of \<^verbatim>\<open>parseNested\<close>. A call takes the location of the token after \<^verbatim>\<open>(\<close>.\<close>

definition parseSuffix :: "expr option parser \<Rightarrow> expr \<Rightarrow> expr option parser" where
  "parseSuffix pE lhs =
     orElse
       (whenOp ''('' (bindP locP (\<lambda>l. withCtx ''in function argument list''
          (bindP (parseExprList pE '')'') (\<lambda>args. retP (FuncCall l lhs args))))))
       (orElse
         (whenOp ''['' (bindP lastLoc (\<lambda>l.
            bindP (expectNode pE ''expression'') (\<lambda>i.
            bindP (expectOp '']'') (\<lambda>_. retP (Subscript l lhs i))))))
         (whenOp ''.'' (bindP lastLoc (\<lambda>l.
            bindP expectID (\<lambda>m. retP (MemberIdent l lhs m))))))"

definition parseNested ::
  "ty option parser \<Rightarrow> expr option parser \<Rightarrow> stat option parser \<Rightarrow> expr option parser" where
  "parseNested pT pE pS = bindSome (parseTerm pT pE pS) (iterP (parseSuffix pE))"

definition makeUnary :: "UnOp \<Rightarrow> expr option parser \<Rightarrow> expr parser" where
  "makeUnary opr pU =
     bindP (expectNode pU ''expression'') (\<lambda>e. retP (UnaryExpr (expr_loc e) opr e))"

definition parseUnaryF ::
  "ty option parser \<Rightarrow> expr option parser \<Rightarrow> expr option parser \<Rightarrow> stat option parser
     \<Rightarrow> expr option parser" where
  "parseUnaryF pT pE pU pS =
     orElse (whenOp ''-'' (makeUnary neg pU))
       (orElse (whenOp ''!'' (makeUnary bool_not pU))
         (orElse (whenOp ''~'' (makeUnary bit_not pU))
           (orElse
             (whenKey ''make'' (bindP lastLoc (\<lambda>l. withCtx ''in make expression''
                (bindP (expectNode pT ''type'') (\<lambda>t.
                 bindP (expectNode pU ''expression'') (\<lambda>e. retP (Make l t e))))))
             )
             (parseNested pT pE pS))))"

definition makeBinary :: "BinOp \<Rightarrow> expr \<Rightarrow> expr \<Rightarrow> expr" where
  "makeBinary opr lhs rhs = BinaryExpr (expr_loc lhs) lhs opr rhs"

text \<open>
  \<open>binStep\<close> is one test of a binary loop: \<^verbatim>\<open>if (tok.checkOp(v)) lhs = makeBinary(op, lhs, expectExpr(tok,
  parseLower))\<close>.
\<close>

definition binStep :: "string \<Rightarrow> BinOp \<Rightarrow> expr option parser \<Rightarrow> expr \<Rightarrow> expr option parser" where
  "binStep v opr lower lhs =
     whenOp v (bindP (expectNode lower ''expression'') (\<lambda>rhs. retP (makeBinary opr lhs rhs)))"

definition parseMul :: "expr option parser \<Rightarrow> expr option parser" where
  "parseMul lower = bindSome lower (iterP (\<lambda>lhs.
     orElse (binStep ''*'' mul lower lhs)
       (orElse (binStep ''/'' div_op lower lhs) (binStep ''%'' mod_op lower lhs))))"

definition parseAdd :: "expr option parser \<Rightarrow> expr option parser" where
  "parseAdd pU = bindSome (parseMul pU) (iterP (\<lambda>lhs.
     orElse (binStep ''+'' add (parseMul pU) lhs) (binStep ''-'' sub (parseMul pU) lhs)))"

definition parseShift :: "expr option parser \<Rightarrow> expr option parser" where
  "parseShift pU = bindSome (parseAdd pU) (iterP (\<lambda>lhs.
     orElse (binStep ''<<'' bit_shl (parseAdd pU) lhs) (binStep ''>>'' bit_shr (parseAdd pU) lhs)))"

definition parseBin :: "BinOp \<Rightarrow> string \<Rightarrow> expr option parser \<Rightarrow> expr option parser" where
  "parseBin opr v lower = bindSome lower (iterP (binStep v opr lower))"

definition parseBitAnd :: "expr option parser \<Rightarrow> expr option parser" where
  "parseBitAnd pU = parseBin bit_and ''&'' (parseShift pU)"

definition parseBitXor :: "expr option parser \<Rightarrow> expr option parser" where
  "parseBitXor pU = parseBin bit_xor ''^'' (parseBitAnd pU)"

definition parseBitOr :: "expr option parser \<Rightarrow> expr option parser" where
  "parseBitOr pU = parseBin bit_or ''|'' (parseBitXor pU)"

definition parseRel :: "expr option parser \<Rightarrow> expr option parser" where
  "parseRel pU = bindSome (parseBitOr pU) (iterP (\<lambda>lhs.
     orElse (binStep ''<'' lt (parseBitOr pU) lhs)
       (orElse (binStep ''<='' le (parseBitOr pU) lhs)
         (orElse (binStep ''>'' gt (parseBitOr pU) lhs)
           (binStep ''>='' ge (parseBitOr pU) lhs)))))"

definition parseEq :: "expr option parser \<Rightarrow> expr option parser" where
  "parseEq pU = bindSome (parseRel pU) (iterP (\<lambda>lhs.
     orElse (binStep ''=='' eq (parseRel pU) lhs) (binStep ''!='' ne (parseRel pU) lhs)))"

definition parseBoolAnd :: "expr option parser \<Rightarrow> expr option parser" where
  "parseBoolAnd pU = parseBin bool_and ''&&'' (parseEq pU)"

definition parseBoolOr :: "expr option parser \<Rightarrow> expr option parser" where
  "parseBoolOr pU = parseBin bool_or ''||'' (parseBoolAnd pU)"

definition parseTern :: "expr option parser \<Rightarrow> expr option parser \<Rightarrow> expr option parser" where
  "parseTern pE pU = bindSome (parseBoolOr pU) (\<lambda>lhs.
     ifOp ''?''
       (bindP (expectNode pE ''expression'') (\<lambda>troo.
        bindP (expectOp '':'') (\<lambda>_.
        bindP (expectNode pE ''expression'') (\<lambda>fols.
          retP (Ternary (expr_loc lhs) lhs troo fols)))))
       (retP lhs))"

subsection \<open>Assignments\<close>

definition makeAssign :: "expr option parser \<Rightarrow> AssignOp \<Rightarrow> expr \<Rightarrow> asgn parser" where
  "makeAssign pE opr dst =
     bindP lastLoc (\<lambda>l. bindP (expectNode pE ''expression'') (\<lambda>src. retP (CompAssign l dst opr src)))"

text \<open>\<^verbatim>\<open>dynamic_cast<ast::Identifier *>\<close> and \<^verbatim>\<open>dynamic_cast<ast::FuncCall *>\<close>.\<close>

fun as_identifier :: "expr \<Rightarrow> name option" where
  "as_identifier (Identifier _ n) = Some n"
| "as_identifier _ = None"

fun as_call :: "expr \<Rightarrow> (loc \<times> expr \<times> expr list) option" where
  "as_call (FuncCall l f args) = Some (l, f, args)"
| "as_call _ = None"

definition assign_ops :: "(string \<times> AssignOp) list" where
  "assign_ops =
     [(''+='', a_add), (''-='', a_sub), (''*='', a_mul), (''/='', a_div), (''%='', a_mod),
      (''<<='', a_bit_shl), (''>>='', a_bit_shr), (''&='', a_bit_and), (''^='', a_bit_xor),
      (''|='', a_bit_or)]"

fun checkAssignOps :: "expr option parser \<Rightarrow> expr \<Rightarrow> (string \<times> AssignOp) list \<Rightarrow> asgn parser \<Rightarrow> asgn parser" where
  "checkAssignOps pE dst [] other = other"
| "checkAssignOps pE dst ((v, opr) # ops) other =
     ifOp v (makeAssign pE opr dst) (checkAssignOps pE dst ops other)"

definition declAssign :: "expr option parser \<Rightarrow> name \<Rightarrow> asgn parser" where
  "declAssign pE n =
     bindP lastLoc (\<lambda>l. bindP (expectNode pE ''expression'') (\<lambda>e. retP (DeclAssign l n e)))"

definition incrDecr :: "expr \<Rightarrow> bool \<Rightarrow> asgn parser" where
  "incrDecr dst incr = bindP lastLoc (\<lambda>l. retP (IncrDecr l dst incr))"

definition simpleAssign :: "expr option parser \<Rightarrow> expr \<Rightarrow> asgn parser" where
  "simpleAssign pE dst =
     bindP lastLoc (\<lambda>l. bindP (expectNode pE ''expression'') (\<lambda>src. retP (Assign l dst src)))"

definition callAssign :: "expr \<Rightarrow> asgn parser" where
  "callAssign dst =
     (case as_call dst of
        Some (l, f, args) \<Rightarrow> retP (CallAssign l f args l)
      | None \<Rightarrow> failP (Fatal (expr_loc dst)
          ''Expression used outside of assignment or function call''))"

definition asgnTail :: "expr option parser \<Rightarrow> expr \<Rightarrow> asgn parser" where
  "asgnTail pE dst =
     ifOp ''++'' (incrDecr dst True)
       (ifOp ''--'' (incrDecr dst False)
         (ifOp ''='' (simpleAssign pE dst)
           (checkAssignOps pE dst assign_ops (callAssign dst))))"

definition parseAsgn ::
  "ty option parser \<Rightarrow> expr option parser \<Rightarrow> stat option parser \<Rightarrow> asgn option parser" where
  "parseAsgn pT pE pS = bindSome (parseNested pT pE pS) (\<lambda>dst.
     case as_identifier dst of
       Some n \<Rightarrow> ifOp '':='' (declAssign pE n) (asgnTail pE dst)
     | None \<Rightarrow> asgnTail pE dst)"

subsection \<open>Declarations\<close>

definition parseFunc :: "ty option parser \<Rightarrow> stat option parser \<Rightarrow> bool \<Rightarrow> decl option parser" where
  "parseFunc pT pS external =
     whenKey ''func'' (withCtx ''in function''
       (bindP lastLoc (\<lambda>l.
        bindP (parseReceiver pT) (\<lambda>receiver.
        bindP expectID (\<lambda>n.
        bindP (setIdent n) (\<lambda>_.
        bindP (parseFuncParams pT) (\<lambda>params.
        bindP (parseFuncRet pT) (\<lambda>ret.
        bindP (parseFuncBody pS) (\<lambda>(bl, body).
          retP (Func l external receiver n params ret bl body))))))))))"

definition optType :: "ty option parser \<Rightarrow> ty option parser" where
  "optType pT = ifOp '':'' (bindP (expectNode pT ''type after :'') (\<lambda>t. retP (Some t))) (retP None)"

definition parseVar :: "ty option parser \<Rightarrow> expr option parser \<Rightarrow> bool \<Rightarrow> decl option parser" where
  "parseVar pT pE external =
     whenKey ''var'' (withCtx ''in var declaration''
       (bindP lastLoc (\<lambda>l.
        bindP expectID (\<lambda>n.
        bindP (optType pT) (\<lambda>t.
        bindP (ifOp ''='' (bindP (expectNode pE ''expression after ='') (\<lambda>e. retP (Some e)))
          (retP None)) (\<lambda>e.
        bindP (expectOp '';'') (\<lambda>_. retP (Var l external n t e))))))))"

definition parseLet :: "ty option parser \<Rightarrow> expr option parser \<Rightarrow> bool \<Rightarrow> decl option parser" where
  "parseLet pT pE external =
     whenKey ''let'' (withCtx ''in let declaration''
       (bindP lastLoc (\<lambda>l.
        bindP expectID (\<lambda>n.
        bindP (optType pT) (\<lambda>t.
        bindP (expectOp ''='') (\<lambda>_.
        bindP (expectNode pE ''expression after ='') (\<lambda>e.
        bindP (expectOp '';'') (\<lambda>_. retP (Let l external n t e)))))))))"

definition parseTypealias :: "ty option parser \<Rightarrow> bool \<Rightarrow> decl option parser" where
  "parseTypealias pT external =
     whenKey ''type''
       (if external then
          bindP lastLoc (\<lambda>l. failP (Fatal l ''extern cannot be applied to type alias''))
        else withCtx ''in type alias''
          (bindP lastLoc (\<lambda>l.
           bindP expectID (\<lambda>n.
           bindP (ifOp ''='' (retP False) (retP True)) (\<lambda>strong.
           bindP (expectNode pT ''type'') (\<lambda>t.
           bindP (expectOp '';'') (\<lambda>_. retP (TypeAlias l n t strong))))))))"

definition parseDecl ::
  "ty option parser \<Rightarrow> expr option parser \<Rightarrow> stat option parser \<Rightarrow> bool \<Rightarrow> decl option parser" where
  "parseDecl pT pE pS external =
     orElse (parseFunc pT pS external)
       (orElse (parseVar pT pE external)
         (orElse (parseLet pT pE external)
           (parseTypealias pT external)))"

subsection \<open>Statements\<close>

definition parseIf :: "expr option parser \<Rightarrow> stat option parser \<Rightarrow> stat option parser" where
  "parseIf pE pS =
     whenKey ''if'' (withCtx ''in if statement''
       (bindP lastLoc (\<lambda>l.
        bindP (expectNode pE ''condition expression'') (\<lambda>cond.
        bindP (expectNode pS ''statement or block'') (\<lambda>body.
        ifKey ''else''
          (bindP (expectNode pS ''statement or block'') (\<lambda>other. retP (If l cond body (Some other))))
          (retP (If l cond body None)))))))"

definition unexpectedCase :: "'a parser" where
  "unexpectedCase = bindP front (\<lambda>t s. Inl (Fatal (tloc t)
     (''Expected case or default but found '' @ show_token t @ contextStack (ctxs s))))"

definition parseCase ::
  "expr option parser \<Rightarrow> stat option parser \<Rightarrow> (loc \<times> expr option \<times> stat) parser" where
  "parseCase pE pS =
     ifKey ''case''
       (bindP lastLoc (\<lambda>l.
        bindP (expectNode pE ''expression'') (\<lambda>e.
        bindP (expectNode pS ''statement or block'') (\<lambda>body. retP (l, Some e, body)))))
       (ifKey ''default''
         (bindP lastLoc (\<lambda>l.
          bindP (expectNode pS ''statement or block'') (\<lambda>body. retP (l, None, body))))
         unexpectedCase)"

definition parseSwitch :: "expr option parser \<Rightarrow> stat option parser \<Rightarrow> stat option parser" where
  "parseSwitch pE pS =
     whenKey ''switch'' (withCtx ''in switch statement''
       (bindP lastLoc (\<lambda>l.
        bindP (expectNode pE ''expression'') (\<lambda>e.
        bindP (expectOp ''{'') (\<lambda>_.
        bindP (untilOp ''}'' (parseCase pE pS)) (\<lambda>cases. retP (Switch l e cases False)))))))"

definition parseKeywordStatement :: "(loc \<Rightarrow> stat) \<Rightarrow> string \<Rightarrow> stat option parser" where
  "parseKeywordStatement mk n =
     whenKey n (withCtx ''after keyword''
       (bindP (setIdent n) (\<lambda>_. bindP lastLoc (\<lambda>l. bindP (expectOp '';'') (\<lambda>_. retP (mk l))))))"

definition parseBreak :: "stat option parser" where
  "parseBreak = parseKeywordStatement Break ''break''"

definition parseContinue :: "stat option parser" where
  "parseContinue = parseKeywordStatement Continue ''continue''"

definition parseReturn :: "expr option parser \<Rightarrow> stat option parser" where
  "parseReturn pE =
     whenKey ''return'' (withCtx ''in return statement''
       (bindP lastLoc (\<lambda>l.
        ifOp '';'' (retP (Return l None))
          (bindP (expectNode pE ''expression or ;'') (\<lambda>e.
           bindP (expectOp '';'') (\<lambda>_. retP (Return l (Some e))))))))"

definition parseWhile :: "expr option parser \<Rightarrow> stat option parser \<Rightarrow> stat option parser" where
  "parseWhile pE pS =
     whenKey ''while'' (withCtx ''in while statement''
       (bindP lastLoc (\<lambda>l.
        bindP (expectNode pE ''condition expression'') (\<lambda>cond.
        bindP (expectNode pS ''statement or block'') (\<lambda>body. retP (While l cond body))))))"

definition parseOptAsgnSemi ::
  "ty option parser \<Rightarrow> expr option parser \<Rightarrow> stat option parser \<Rightarrow> asgn option parser" where
  "parseOptAsgnSemi pT pE pS =
     bindP (parseAsgn pT pE pS) (\<lambda>a. bindP (expectOp '';'') (\<lambda>_. retP a))"

definition parseAsgnSemi ::
  "ty option parser \<Rightarrow> expr option parser \<Rightarrow> stat option parser \<Rightarrow> stat option parser" where
  "parseAsgnSemi pT pE pS =
     bindSome (parseAsgn pT pE pS) (\<lambda>a. bindP (expectOp '';'') (\<lambda>_. retP (SAsgn a)))"

definition parseFor ::
  "ty option parser \<Rightarrow> expr option parser \<Rightarrow> stat option parser \<Rightarrow> stat option parser" where
  "parseFor pT pE pS =
     whenKey ''for'' (withCtx ''in for statement''
       (bindP lastLoc (\<lambda>l.
        bindP (expectOp ''('') (\<lambda>_.
        bindP (parseOptAsgnSemi pT pE pS) (\<lambda>init.
        bindP (expectNode pE ''condition expression'') (\<lambda>cond.
        bindP (expectOp '';'') (\<lambda>_.
        bindP (parseAsgn pT pE pS) (\<lambda>incr.
        bindP (expectOp '')'') (\<lambda>_.
        bindP (expectNode pS ''statement or block'') (\<lambda>body.
          retP (For l init cond incr body)))))))))))"

definition parseBlock :: "stat option parser \<Rightarrow> stat option parser" where
  "parseBlock pS =
     whenOp ''{'' (withCtx ''in block''
       (bindP lastLoc (\<lambda>l.
        bindP (manyP pS) (\<lambda>nodes.
        bindP (expectOp ''}'') (\<lambda>_. retP (Block l nodes))))))"

definition parseStatF ::
  "ty option parser \<Rightarrow> expr option parser \<Rightarrow> stat option parser \<Rightarrow> stat option parser" where
  "parseStatF pT pE pS =
     orElse (parseIf pE pS)
    (orElse (parseSwitch pE pS)
    (orElse parseBreak
    (orElse parseContinue
    (orElse (parseReturn pE)
    (orElse (parseWhile pE pS)
    (orElse (parseFor pT pE pS)
    (orElse (parseBlock pS)
    (orElse (bindSome (parseDecl pT pE pS False) (\<lambda>d. retP (SDecl d)))
       (parseAsgnSemi pT pE pS)))))))))"

subsection \<open>Tying the knot\<close>

text \<open>
  The counter bounds the depth of the calls. \<open>parseTypeN n\<close>, \<open>parseExprN n\<close>, \<open>parseUnaryN n\<close> and
  \<open>parseStatN n\<close> are defined on every cursor with fewer than \<open>n\<close> tokens left: each cycle of calls reads
  at least one token.
\<close>

fun parseTypeN :: "nat \<Rightarrow> ty option parser" where
  "parseTypeN 0 = failP Out_of_fuel"
| "parseTypeN (Suc n) = parseTypeF (parseTypeN n)"

fun parseExprN :: "nat \<Rightarrow> expr option parser"
  and parseUnaryN :: "nat \<Rightarrow> expr option parser"
  and parseStatN :: "nat \<Rightarrow> stat option parser" where
  "parseExprN 0 = failP Out_of_fuel"
| "parseExprN (Suc n) =
     parseTern (parseExprN n)
       (parseUnaryF (parseTypeN n) (parseExprN n) (parseUnaryN n) (parseStatN n))"
| "parseUnaryN 0 = failP Out_of_fuel"
| "parseUnaryN (Suc n) = parseUnaryF (parseTypeN n) (parseExprN n) (parseUnaryN n) (parseStatN n)"
| "parseStatN 0 = failP Out_of_fuel"
| "parseStatN (Suc n) = parseStatF (parseTypeN n) (parseExprN n) (parseStatN n)"

definition parseType :: "ty option parser" where
  "parseType s = parseTypeN (Suc (length (toks s))) s"

definition parseExpr :: "expr option parser" where
  "parseExpr s = parseExprN (Suc (length (toks s))) s"

definition parseUnary :: "expr option parser" where
  "parseUnary s = parseUnaryN (Suc (length (toks s))) s"

definition parseStat :: "stat option parser" where
  "parseStat s = parseStatN (Suc (length (toks s))) s"

subsection \<open>Modules\<close>

definition moduleName :: "name parser" where
  "moduleName =
     ifKey ''module''
       (bindP expectID (\<lambda>n. bindP (expectOp '';'') (\<lambda>_. bindP extraSemi (\<lambda>_. retP n))))
       (retP ''main'')"

text \<open>
  One turn of the loop of \<^verbatim>\<open>createAST\<close>. The fatal record that follows the error says that only
  declarations are allowed at global scope; the model keeps the error.
\<close>

definition importStep :: "ast \<Rightarrow> ast parser" where
  "importStep a =
     bindP expectID (\<lambda>n. bindP (expectOp '';'') (\<lambda>_. bindP extraSemi (\<lambda>_.
       retP (a\<lparr>ast_imports := ast_imports a @ [n]\<rparr>))))"

definition unexpectedGlobal :: "'a parser" where
  "unexpectedGlobal =
     bindP front (\<lambda>t. failP (Fatal (tloc t) (''Unexpected '' @ show_token t @ '' in global scope'')))"

definition declStep :: "ast \<Rightarrow> ast parser" where
  "declStep a =
     bindP (checkKeyword ''extern'') (\<lambda>external.
     bindP (parseDecl parseType parseExpr parseStat external) (\<lambda>r.
       case r of
         None \<Rightarrow> unexpectedGlobal
       | Some d \<Rightarrow> bindP extraSemi (\<lambda>_. retP (a\<lparr>ast_global := ast_global a @ [d]\<rparr>))))"

definition globalStep :: "ast \<Rightarrow> ast option parser" where
  "globalStep a s =
     (if empty_toks s then Inr (None, s)
      else bindP (ifKey ''import'' (importStep a) (declStep a)) (\<lambda>a'. retP (Some a')) s)"

definition parseModule :: "ast parser" where
  "parseModule =
     bindP moduleName (\<lambda>n. iterP globalStep \<lparr>ast_global = [], ast_name = n, ast_imports = []\<rparr>)"

definition createAST :: "token list \<Rightarrow> (ast \<times> (loc \<times> string) list) res" where
  "createAST ts = bindE (parseModule (ParseTokens ts)) (\<lambda>(a, s). Inr (a, warns s))"

definition createAST_source ::
  "fp_format \<Rightarrow> char \<Rightarrow> string \<Rightarrow> (ast \<times> (loc \<times> string) list) res" where
  "createAST_source ld past source = bindE (tokenize ld past source) createAST"

end
