(* ===== verification/Parser_Contract.thy ===== *)
theory Parser_Contract
  imports Parser
begin

section \<open>The contract of the recursive descent parser\<close>

text \<open>
  Every parsing function reads at least one token if it returns a node, leaves the cursor alone if it
  returns none, pops every context that it pushed, and does not run out of steps. The locale
  \<open>parser_env\<close> states what a function relies on: the four parsers that close the cycles of calls keep
  the contract on cursors with fewer than \<open>n\<close> tokens, and agree there with a second set of four
  parsers. The functions then keep it on cursors with at most \<open>n\<close> tokens.
\<close>

lemma total_failP_Fatal: "total_eq n (failP (Fatal l m)) (failP (Fatal l m))"
  by (intro total_eq_refl total_failP) simp

lemma parseRef_eq: "total_eq n parseRef parseRef"
  unfolding parseRef_def by (intro total_eq_ifKey' token_eq)

lemma parseNamedType_eq: "opt_eq n parseNamedType parseNamedType"
  unfolding parseNamedType_def by (intro opt_eq_whenPeek strict_eq_locP strict_eq_bindP token_eq)

lemma parseIdentExpr_eq: "opt_eq n parseIdentExpr parseIdentExpr"
  unfolding parseIdentExpr_def by (intro opt_eq_whenPeek strict_eq_locP strict_eq_bindP token_eq)

lemma parseLiteralToken_eq: "opt_eq n (parseLiteralToken ty mk tr) (parseLiteralToken ty mk tr)"
  unfolding parseLiteralToken_def by (intro opt_eq_whenPeek strict_eq_locP strict_eq_bindP token_eq)

lemma parseBool_eq: "opt_eq (Suc n) parseBool parseBool"
  unfolding parseBool_def by (intro opt_eq_orElse opt_eq_whenKey total_eq_bindP token_eq)

lemma parseKeywordStatement_eq:
  "opt_eq (Suc n) (parseKeywordStatement mk v) (parseKeywordStatement mk v)"
  unfolding parseKeywordStatement_def
  by (intro opt_eq_whenKey total_eq_withCtx inner_eq_bindP inner_eq_setIdent inner_token_eq)

text \<open>The chain of binary operators, over any parser of operands.\<close>

lemma binStep_eq:
  "opt_eq (Suc n) p q \<Longrightarrow> opt_eq (Suc n) (binStep v opr p lhs) (binStep v opr q lhs)"
  unfolding binStep_def
  by (intro opt_eq_whenOp total_eq_bindP total_eq_expectNode token_eq) (rule opt_eq_Suc)

lemmas binary_eq = opt_eq_bindSome total_eq_iterP opt_eq_orElse binStep_eq

lemma parseMul_eq: "opt_eq (Suc n) p q \<Longrightarrow> opt_eq (Suc n) (parseMul p) (parseMul q)"
  unfolding parseMul_def by (intro binary_eq)

lemma parseAdd_eq: "opt_eq (Suc n) p q \<Longrightarrow> opt_eq (Suc n) (parseAdd p) (parseAdd q)"
  unfolding parseAdd_def by (intro binary_eq parseMul_eq)

lemma parseShift_eq: "opt_eq (Suc n) p q \<Longrightarrow> opt_eq (Suc n) (parseShift p) (parseShift q)"
  unfolding parseShift_def by (intro binary_eq parseAdd_eq)

lemma parseBin_eq: "opt_eq (Suc n) p q \<Longrightarrow> opt_eq (Suc n) (parseBin opr v p) (parseBin opr v q)"
  unfolding parseBin_def by (intro binary_eq)

lemma parseBitOr_eq: "opt_eq (Suc n) p q \<Longrightarrow> opt_eq (Suc n) (parseBitOr p) (parseBitOr q)"
  unfolding parseBitOr_def parseBitXor_def parseBitAnd_def by (intro parseBin_eq parseShift_eq)

lemma parseRel_eq: "opt_eq (Suc n) p q \<Longrightarrow> opt_eq (Suc n) (parseRel p) (parseRel q)"
  unfolding parseRel_def by (intro binary_eq parseBitOr_eq)

lemma parseEq_eq: "opt_eq (Suc n) p q \<Longrightarrow> opt_eq (Suc n) (parseEq p) (parseEq q)"
  unfolding parseEq_def by (intro binary_eq parseRel_eq)

lemma parseBoolOr_eq: "opt_eq (Suc n) p q \<Longrightarrow> opt_eq (Suc n) (parseBoolOr p) (parseBoolOr q)"
  unfolding parseBoolOr_def parseBoolAnd_def by (intro parseBin_eq parseEq_eq)

locale parser_env =
  fixes n :: nat
    and pT pT' :: "ty option parser" and pE pE' pU pU' :: "expr option parser"
    and pS pS' :: "stat option parser"
  assumes type_ok: "opt_eq n pT pT'" and expr_ok: "opt_eq n pE pE'"
    and unary_ok: "opt_eq n pU pU'" and stat_ok: "opt_eq n pS pS'"
begin

lemmas node_ok = type_ok expr_ok unary_ok stat_ok

lemmas inside =
  total_eq_withCtx inner_eq_total [OF total_eq_bindP] total_eq_bindP total_eq_ifOp' total_eq_ifKey'
  total_eq_sepP total_eq_untilOp total_eq_manyP total_eq_expectNode token_eq parseRef_eq node_ok
  strict_eq_bindP strict_eq_locP strict_eq_expectNode

lemma parseParam: "strict_eq n (parseParam pT) (parseParam pT')"
  unfolding parseParam_def by (intro inside)

lemma parseFuncType: "opt_eq (Suc n) (parseFuncType pT) (parseFuncType pT')"
proof -
  have item: "strict_eq n (bindP parseRef (\<lambda>r. bindP (expectNode pT ''type'') (\<lambda>t. retP (r, t))))
    (bindP parseRef (\<lambda>r. bindP (expectNode pT' ''type'') (\<lambda>t. retP (r, t))))"
    by (rule strict_eq_bindP2 [OF parseRef_eq]) (intro inside)
  show ?thesis
    unfolding parseFuncType_def
    by (intro opt_eq_whenKey total_eq_withCtx inner_eq_bindP inner_eq_ifOp inner_eq_setDesc
        inner_eq_total [OF total_eq_expectNode] inner_eq_total [OF total_eq_ifOp']
        total_eq_sepP item inner_token_eq token_eq node_ok)
qed

lemma parseArrayType: "opt_eq (Suc n) (parseArrayType pT) (parseArrayType pT')"
  unfolding parseArrayType_def by (intro opt_eq_whenOp inside)

lemma parseStructType: "opt_eq (Suc n) (parseStructType pT) (parseStructType pT')"
  unfolding parseStructType_def parseStructMember_def by (intro opt_eq_whenKey inside)

lemma parseTypeF: "opt_eq (Suc n) (parseTypeF pT) (parseTypeF pT')"
  unfolding parseTypeF_def
  by (intro opt_eq_orElse parseFuncType parseArrayType parseNamedType_eq parseStructType)


lemma parseReceiver: "total_eq n (parseReceiver pT) (parseReceiver pT')"
  unfolding parseReceiver_def by (intro inside strict_eq_total [OF parseParam])

lemma parseFuncParams: "total_eq n (parseFuncParams pT) (parseFuncParams pT')"
  unfolding parseFuncParams_def by (intro inside parseParam)

lemma parseFuncRet: "total_eq n (parseFuncRet pT) (parseFuncRet pT')"
  unfolding parseFuncRet_def by (intro inside)

lemma parseFuncBody: "total_eq n (parseFuncBody pS) (parseFuncBody pS')"
  unfolding parseFuncBody_def by (intro inside)

lemma parseExprList: "total_eq n (parseExprList pE v) (parseExprList pE' v)"
  unfolding parseExprList_def by (intro inside)

lemma parseArray: "opt_eq (Suc n) (parseArray pE) (parseArray pE')"
  unfolding parseArray_def by (intro opt_eq_whenOp inside parseExprList)

lemma parseInitList: "opt_eq (Suc n) (parseInitList pE) (parseInitList pE')"
  unfolding parseInitList_def by (intro opt_eq_whenOp inside parseExprList)

lemma parseLambda: "opt_eq (Suc n) (parseLambda pT pS) (parseLambda pT' pS')"
  unfolding parseLambda_def case_prod_beta
  by (intro opt_eq_whenKey inside parseFuncParams parseFuncRet parseFuncBody)

lemma parseLitr: "opt_eq (Suc n) (parseLitr pT pE pS) (parseLitr pT' pE' pS')"
  unfolding parseLitr_def parseStringLitr_def parseCharLitr_def parseNumberLitr_def
  by (intro opt_eq_orElse parseLiteralToken_eq parseBool_eq parseArray parseInitList parseLambda)

lemma parseTerm: "opt_eq (Suc n) (parseTerm pT pE pS) (parseTerm pT' pE' pS')"
  unfolding parseTerm_def
  by (intro opt_eq_orElse opt_eq_whenOp parseIdentExpr_eq parseLitr inside)

lemma parseSuffix: "opt_eq (Suc n) (parseSuffix pE lhs) (parseSuffix pE' lhs)"
  unfolding parseSuffix_def by (intro opt_eq_orElse opt_eq_whenOp inside parseExprList)

lemma parseNested: "opt_eq (Suc n) (parseNested pT pE pS) (parseNested pT' pE' pS')"
  unfolding parseNested_def by (intro opt_eq_bindSome total_eq_iterP parseTerm parseSuffix)

lemma parseUnaryF: "opt_eq (Suc n) (parseUnaryF pT pE pU pS) (parseUnaryF pT' pE' pU' pS')"
  unfolding parseUnaryF_def makeUnary_def
  by (intro opt_eq_orElse opt_eq_whenOp opt_eq_whenKey parseNested inside)

lemma parseTern:
  "opt_eq (Suc n) p q \<Longrightarrow> opt_eq (Suc n) (parseTern pE p) (parseTern pE' q)"
  unfolding parseTern_def
  by (intro opt_eq_bindSome parseBoolOr_eq total_eq_ifOp inside)

lemma makeAssign: "total_eq n (makeAssign pE opr dst) (makeAssign pE' opr dst)"
  unfolding makeAssign_def by (intro inside)

lemma declAssign: "total_eq n (declAssign pE m) (declAssign pE' m)"
  unfolding declAssign_def by (intro inside)

lemma checkAssignOps:
  "total_eq (Suc n) other other' \<Longrightarrow>
    total_eq (Suc n) (checkAssignOps pE dst ops other) (checkAssignOps pE' dst ops other')"
  by (induction ops) (auto intro!: total_eq_ifOp makeAssign)

lemma callAssign: "total_eq m (callAssign dst) (callAssign dst)"
  unfolding callAssign_def
  by (auto split: option.splits intro: total_failP_Fatal token_eq)

lemma asgnTail: "total_eq (Suc n) (asgnTail pE dst) (asgnTail pE' dst)"
  unfolding asgnTail_def incrDecr_def simpleAssign_def
  by (intro total_eq_ifOp checkAssignOps callAssign inside)

lemma parseAsgn: "opt_eq (Suc n) (parseAsgn pT pE pS) (parseAsgn pT' pE' pS')"
proof -
  have "total_eq (Suc n)
      (case r of Some m \<Rightarrow> ifOp '':='' (declAssign pE m) (asgnTail pE dst) | None \<Rightarrow> asgnTail pE dst)
      (case r of Some m \<Rightarrow> ifOp '':='' (declAssign pE' m) (asgnTail pE' dst) | None \<Rightarrow> asgnTail pE' dst)"
    for r dst
    by (cases r) (auto intro!: total_eq_ifOp asgnTail declAssign)
  then show ?thesis unfolding parseAsgn_def by (intro opt_eq_bindSome parseNested)
qed

lemma parseFunc: "opt_eq (Suc n) (parseFunc pT pS x) (parseFunc pT' pS' x)"
  unfolding parseFunc_def case_prod_beta
  by (intro opt_eq_whenKey total_eq_withCtx inner_eq_bindP inner_eq_setIdent inner_token_eq
      parseReceiver [THEN inner_eq_total] parseFuncParams [THEN inner_eq_total]
      parseFuncRet [THEN inner_eq_total] parseFuncBody [THEN inner_eq_total])

lemma parseVar: "opt_eq (Suc n) (parseVar pT pE x) (parseVar pT' pE' x)"
  unfolding parseVar_def optType_def by (intro opt_eq_whenKey inside)

lemma parseLet: "opt_eq (Suc n) (parseLet pT pE x) (parseLet pT' pE' x)"
  unfolding parseLet_def optType_def by (intro opt_eq_whenKey inside)

lemma parseTypealias: "opt_eq (Suc n) (parseTypealias pT x) (parseTypealias pT' x)"
  unfolding parseTypealias_def
  by (cases x) (simp_all, (intro opt_eq_whenKey inside total_failP_Fatal)+)

lemma parseDecl: "opt_eq (Suc n) (parseDecl pT pE pS x) (parseDecl pT' pE' pS' x)"
  unfolding parseDecl_def by (intro opt_eq_orElse parseFunc parseVar parseLet parseTypealias)

lemma parseIf: "opt_eq (Suc n) (parseIf pE pS) (parseIf pE' pS')"
  unfolding parseIf_def by (intro opt_eq_whenKey inside)

lemma parseCase: "strict_eq n (parseCase pE pS) (parseCase pE' pS')"
proof -
  have "strict_eq n unexpectedCase unexpectedCase"
    by (auto simp: unexpectedCase_def strict_eq_def strict_def total_def bindP_def front_def
        split: list.splits)
  then show ?thesis
    unfolding parseCase_def
    by (intro strict_eq_ifKey) (intro inside | assumption)+
qed

lemma parseSwitch: "opt_eq (Suc n) (parseSwitch pE pS) (parseSwitch pE' pS')"
  unfolding parseSwitch_def by (intro opt_eq_whenKey inside parseCase)

lemma parseReturn: "opt_eq (Suc n) (parseReturn pE) (parseReturn pE')"
  unfolding parseReturn_def by (intro opt_eq_whenKey inside)

lemma parseWhile: "opt_eq (Suc n) (parseWhile pE pS) (parseWhile pE' pS')"
  unfolding parseWhile_def by (intro opt_eq_whenKey inside)

lemma parseFor: "opt_eq (Suc n) (parseFor pT pE pS) (parseFor pT' pE' pS')"
  unfolding parseFor_def parseOptAsgnSemi_def
  by (intro opt_eq_whenKey inside opt_eq_total [OF opt_eq_Suc [OF parseAsgn]])

lemma parseBlock: "opt_eq (Suc n) (parseBlock pS) (parseBlock pS')"
  unfolding parseBlock_def by (intro opt_eq_whenOp inside)

lemma parseAsgnSemi: "opt_eq (Suc n) (parseAsgnSemi pT pE pS) (parseAsgnSemi pT' pE' pS')"
  unfolding parseAsgnSemi_def by (intro opt_eq_bindSome total_eq_bindP token_eq parseAsgn)

lemma parseStatF: "opt_eq (Suc n) (parseStatF pT pE pS) (parseStatF pT' pE' pS')"
  unfolding parseStatF_def parseBreak_def parseContinue_def
  by (intro opt_eq_orElse opt_eq_bindSome token_eq parseIf parseSwitch parseKeywordStatement_eq
      parseReturn parseWhile parseFor parseBlock parseDecl parseAsgnSemi)

end

subsection \<open>The parsers satisfy the contract and the equations of the source\<close>

lemma opt_eq_0: "opt_eq 0 p q"
  by (simp add: opt_eq_def opt_def total_def agree_def)

lemma parserN_env:
  "parser_env n (parseTypeN n) (parseTypeN (n + k)) (parseExprN n) (parseExprN (n + k))
     (parseUnaryN n) (parseUnaryN (n + k)) (parseStatN n) (parseStatN (n + k))"
proof (induction n)
  case 0
  show ?case by unfold_locales (rule opt_eq_0)+
next
  case (Suc n)
  note env = parser_env.parseTypeF [OF Suc] parser_env.parseUnaryF [OF Suc]
    parser_env.parseTern [OF Suc parser_env.parseUnaryF [OF Suc]] parser_env.parseStatF [OF Suc]
  show ?case by unfold_locales (simp_all add: env)
qed

interpretation knot: parser_env n "parseTypeN n" "parseTypeN (n + k)" "parseExprN n"
  "parseExprN (n + k)" "parseUnaryN n" "parseUnaryN (n + k)" "parseStatN n" "parseStatN (n + k)"
  for n k
  by (rule parserN_env)

text \<open>More steps than tokens change nothing.\<close>

lemma agree_enough: "opt_eq n p q \<Longrightarrow> length (toks s) < n \<Longrightarrow> p s = q s"
  by (simp add: opt_eq_def agree_def)

lemma parserN_enough:
  assumes "length (toks s) < n"
  shows "parseTypeN n s = parseType s" and "parseExprN n s = parseExpr s"
    and "parseUnaryN n s = parseUnary s" and "parseStatN n s = parseStat s"
proof -
  let ?m = "Suc (length (toks s))"
  obtain k where n: "n = ?m + k" using assms by (metis Suc_leI le_Suc_ex)
  have m: "length (toks s) < ?m" by simp
  note same = knot.node_ok [THEN agree_enough, OF m, symmetric]
  show "parseTypeN n s = parseType s" "parseExprN n s = parseExpr s"
    "parseUnaryN n s = parseUnary s" "parseStatN n s = parseStat s"
    unfolding n parseType_def parseExpr_def parseUnary_def parseStat_def by (rule same)+
qed

lemma source_agrees:
  "parser_env n (parseTypeN n) parseType (parseExprN n) parseExpr
     (parseUnaryN n) parseUnary (parseStatN n) parseStat"
proof -
  have "opt n (parseTypeN n)" "opt n (parseExprN n)" "opt n (parseUnaryN n)" "opt n (parseStatN n)"
    using knot.node_ok [of n 0] by (simp_all add: opt_eq_def)
  then show ?thesis
    by unfold_locales (simp_all add: opt_eq_def agree_def parserN_enough)
qed

interpretation counted: parser_env n "parseTypeN n" parseType "parseExprN n" parseExpr
  "parseUnaryN n" parseUnary "parseStatN n" parseStat
  for n
  by (rule source_agrees)

lemma opt_agree: "opt n p \<Longrightarrow> agree n p q \<Longrightarrow> opt n q"
  unfolding opt_def total_def agree_def by metis

lemma source_env: "parser_env n parseType parseType parseExpr parseExpr parseUnary parseUnary parseStat parseStat"
  using counted.node_ok [of n] by unfold_locales (auto simp: opt_eq_def intro: opt_agree)

interpretation source: parser_env n parseType parseType parseExpr parseExpr parseUnary parseUnary
  parseStat parseStat
  for n
  by (rule source_env)

text \<open>The equations of the source.\<close>

lemma parseType_eq: "parseType = parseTypeF parseType"
proof (rule ext)
  fix s :: parse_tokens
  show "parseType s = parseTypeF parseType s"
    using agree_enough [OF counted.parseTypeF lessI, of s] by (simp add: parseType_def)
qed

lemma parseUnary_eq: "parseUnary = parseUnaryF parseType parseExpr parseUnary parseStat"
proof (rule ext)
  fix s :: parse_tokens
  show "parseUnary s = parseUnaryF parseType parseExpr parseUnary parseStat s"
    using agree_enough [OF counted.parseUnaryF lessI, of s] by (simp add: parseUnary_def)
qed

lemma parseExpr_eq: "parseExpr = parseTern parseExpr parseUnary"
proof (rule ext)
  fix s :: parse_tokens
  show "parseExpr s = parseTern parseExpr parseUnary s"
    using agree_enough [OF counted.parseTern [OF counted.parseUnaryF] lessI, of s]
    by (simp add: parseExpr_def parseUnary_eq [symmetric])
qed

lemma parseStat_eq: "parseStat = parseStatF parseType parseExpr parseStat"
proof (rule ext)
  fix s :: parse_tokens
  show "parseStat s = parseStatF parseType parseExpr parseStat s"
    using agree_enough [OF counted.parseStatF lessI, of s] by (simp add: parseStat_def)
qed

subsection \<open>Modules\<close>

lemma opt_parseDecl: "opt n (parseDecl parseType parseExpr parseStat x)"
  using source.parseDecl [of n x] opt_Suc by (auto simp: opt_eq_def)

lemma strict_case:
  assumes p: "opt n p" and q: "strict n q" and f: "\<And>d. total n (f d)"
  shows "strict n (bindP p (\<lambda>r. case r of None \<Rightarrow> q | Some d \<Rightarrow> f d))"
  unfolding strict_def
proof (intro conjI allI impI)
  show "total n (bindP p (\<lambda>r. case r of None \<Rightarrow> q | Some d \<Rightarrow> f d))"
    by (rule total_bindP [OF opt_total [OF p]]) (auto intro: f strict_total [OF q] split: option.splits)
  fix s s' :: parse_tokens and x
  assume n: "length (toks s) < n" and "bindP p (\<lambda>r. case r of None \<Rightarrow> q | Some d \<Rightarrow> f d) s = Inr (x, s')"
  then obtain r s1 where r: "p s = Inr (r, s1)"
    and x: "(case r of None \<Rightarrow> q | Some d \<Rightarrow> f d) s1 = Inr (x, s')"
    by (auto simp: bindP_def)
  show "length (toks s') < length (toks s)"
  proof (cases r)
    case None
    then show ?thesis using p q n r x by (auto simp: opt_def strict_def)
  next
    case (Some d)
    then have "length (toks s1) < length (toks s)" using p n r by (auto simp: opt_def)
    moreover have "reads s1 s'"
      using totalD [OF f, of s1 d x s'] x Some calculation n by simp
    ultimately show ?thesis using reads_length by fastforce
  qed
qed

lemma strict_unexpectedGlobal: "strict n unexpectedGlobal"
  by (auto simp: unexpectedGlobal_def strict_def total_def bindP_def front_def failP_def
      split: list.splits)

lemma strict_declStep: "strict n (declStep a)"
  unfolding declStep_def
  by (intro strict_bindP2 strict_case total_bindP total_checkKeyword opt_parseDecl
      strict_unexpectedGlobal total_extraSemi total_retP)

lemma total_importStep: "total n (importStep a)"
  unfolding importStep_def by (intro total_bindP total_extraSemi total_retP total_expect)

lemma opt_globalStep: "opt n (globalStep a)"
proof -
  have "opt n (bindP (ifKey ''import'' (importStep a) (declStep a)) (\<lambda>a'. retP (Some a')))"
    by (intro opt_strict strict_ifKey total_importStep strict_declStep)
  then show ?thesis by (auto simp: opt_def total_def globalStep_def)
qed

lemma total_moduleName: "total n moduleName"
proof -
  have "total_eq n moduleName moduleName"
    unfolding moduleName_def by (intro total_eq_ifKey' total_eq_bindP token_eq)
  then show ?thesis by (simp add: total_eq_def)
qed

lemma total_parseModule: "total n parseModule"
  unfolding parseModule_def by (intro total_bindP total_iterP total_moduleName opt_globalStep)

text \<open>The loop of a module stops only at the end of the tokens.\<close>

lemma iter_fuel_last:
  assumes "iter_fuel m f x s = Inr (y, s')"
  shows "\<exists>z t. f z t = Inr (None, s')"
  using assms
proof (induction m arbitrary: x s)
  case (Suc m)
  then obtain r s1 where "f x s = Inr (r, s1)"
    "(case r of None \<Rightarrow> Inr (x, s1) | Some y \<Rightarrow> iter_fuel m f y s1) = Inr (y, s')"
    by auto
  then show ?case using Suc.IH by (cases r) auto
qed simp

lemma globalStep_None: "globalStep a s = Inr (None, s') \<Longrightarrow> s' = s \<and> toks s = []"
  by (auto simp: globalStep_def empty_toks_def bindP_def retP_def split: if_splits)

lemma parseModule_end: "parseModule s = Inr (a, s') \<Longrightarrow> toks s' = []"
  using globalStep_None
  by (fastforce simp: parseModule_def bindP_def iterP_def simp del: iter_fuel.simps dest!: iter_fuel_last)

subsection \<open>What the parser promises\<close>

lemma opt_cases:
  assumes "\<And>n. opt n p"
  shows "case p s of
      Inl e \<Rightarrow> e \<noteq> Out_of_fuel
    | Inr (None, s') \<Rightarrow> s' = s
    | Inr (Some x, s') \<Rightarrow> reads s s' \<and> length (toks s') < length (toks s)"
  using assms [of "Suc (length (toks s))"]
  by (cases "p s") (auto simp: opt_def total_def split: option.splits)

lemma source_opt: "opt n parseType" "opt n parseExpr" "opt n parseUnary" "opt n parseStat"
  using source.node_ok [of n] by (simp_all add: opt_eq_def)

text \<open>
  C6: a parsing function that returns a node has read at least one token, only forward, and has popped
  every context it pushed; one that returns none leaves the cursor, the contexts and the log as they
  were; and the recursion ends.
\<close>

theorem parser_contract:
  "(case parseType s of
      Inl e \<Rightarrow> e \<noteq> Out_of_fuel
    | Inr (None, s') \<Rightarrow> s' = s
    | Inr (Some x, s') \<Rightarrow> reads s s' \<and> length (toks s') < length (toks s))
   \<and> (case parseExpr s of
      Inl e \<Rightarrow> e \<noteq> Out_of_fuel
    | Inr (None, s') \<Rightarrow> s' = s
    | Inr (Some x, s') \<Rightarrow> reads s s' \<and> length (toks s') < length (toks s))
   \<and> (case parseStat s of
      Inl e \<Rightarrow> e \<noteq> Out_of_fuel
    | Inr (None, s') \<Rightarrow> s' = s
    | Inr (Some x, s') \<Rightarrow> reads s s' \<and> length (toks s') < length (toks s))"
  using source_opt by (intro conjI opt_cases)

text \<open>
  The parsers satisfy the recursion equations of the source, without any bound on the depth.
\<close>

theorem parser_equations:
  "parseType = parseTypeF parseType
   \<and> parseExpr = parseTern parseExpr parseUnary
   \<and> parseUnary = parseUnaryF parseType parseExpr parseUnary parseStat
   \<and> parseStat = parseStatF parseType parseExpr parseStat"
  using parseType_eq parseExpr_eq parseUnary_eq parseStat_eq by blast

text \<open>
  C18: creating a syntax tree ends for every list of tokens.
\<close>

theorem createAST_terminates: "createAST ts \<noteq> Inl Out_of_fuel"
  using total_fuel [OF total_parseModule lessI, of "ParseTokens ts"]
  by (auto simp: createAST_def bindE_Inl_iff)

text \<open>
  C20: a module is accepted only as a whole: every token has been read, no context is left on the stack.
\<close>

theorem parseModule_complete:
  assumes "parseModule (ParseTokens ts) = Inr (a, s)"
  shows "toks s = [] \<and> ctxs s = [] \<and> prev s = (if ts = [] then None else Some (last ts))"
proof -
  have "reads (ParseTokens ts) s" using totalD [OF total_parseModule lessI assms] .
  moreover have "toks s = []" using parseModule_end [OF assms] .
  ultimately show ?thesis by (auto simp: reads_def ParseTokens_def)
qed

theorem parseModule_complete_witness:
  "\<exists>a s. parseModule (ParseTokens
      [\<lparr>tview = ''import'', tloc = no_loc, ttype = T_keyword\<rparr>,
       \<lparr>tview = ''glm'', tloc = no_loc, ttype = T_identifier\<rparr>,
       \<lparr>tview = '';'', tloc = no_loc, ttype = T_oper\<rparr>]) = Inr (a, s)
     \<and> ast_imports a = [''glm''] \<and> toks s = []"
proof -
  let ?ts = "[\<lparr>tview = ''import'', tloc = no_loc, ttype = T_keyword\<rparr>,
       \<lparr>tview = ''glm'', tloc = no_loc, ttype = T_identifier\<rparr>,
       \<lparr>tview = '';'', tloc = no_loc, ttype = T_oper\<rparr>]"
  have eq: "parseModule (ParseTokens ?ts) = Inr (\<lparr>ast_global = [], ast_name = ''main'', ast_imports = [''glm'']\<rparr>,
      \<lparr>prev = Some \<lparr>tview = '';'', tloc = no_loc, ttype = T_oper\<rparr>, toks = [], ctxs = [], warns = []\<rparr>)"
    by code_simp
  then show ?thesis using parseModule_complete [OF eq] by auto
qed

end
