(* ===== verification/Format.thy ===== *)
theory Format
  imports Ast
begin

section \<open>The formatter\<close>

text \<open>
  \<^verbatim>\<open>src/Semantic/operator name.cpp\<close>, \<^verbatim>\<open>include/STELA/format.hpp\<close> and \<^verbatim>\<open>src/Format/\<close>: a tree is written as a
  list of tagged tokens, and the tokens as plain text, on one line or as HTML. The visitor keeps the
  tokens, the depth of indentation and whether the current line is indented; a method of it is a
  function on this state. A node class without an override (\<^verbatim>\<open>UserType\<close>, \<^verbatim>\<open>Terminate\<close>, \<^verbatim>\<open>ExtFunc\<close>, \<^verbatim>\<open>BtnFunc\<close>)
  writes nothing.
\<close>

subsection \<open>Names of operators and builtin types\<close>

fun opName_assign :: "AssignOp \<Rightarrow> string" where
  "opName_assign a_add = ''+=''"
| "opName_assign a_sub = ''-=''"
| "opName_assign a_mul = ''*=''"
| "opName_assign a_div = ''/=''"
| "opName_assign a_mod = ''%=''"
| "opName_assign a_bit_or = ''|=''"
| "opName_assign a_bit_xor = ''^=''"
| "opName_assign a_bit_and = ''&=''"
| "opName_assign a_bit_shl = ''<<=''"
| "opName_assign a_bit_shr = ''>>=''"

fun opName_bin :: "BinOp \<Rightarrow> string" where
  "opName_bin bool_or = ''||''"
| "opName_bin bool_and = ''&&''"
| "opName_bin bit_or = ''|''"
| "opName_bin bit_xor = ''^''"
| "opName_bin bit_and = ''&''"
| "opName_bin eq = ''==''"
| "opName_bin ne = ''!=''"
| "opName_bin lt = ''<''"
| "opName_bin le = ''<=''"
| "opName_bin gt = ''>''"
| "opName_bin ge = ''>=''"
| "opName_bin bit_shl = ''<<''"
| "opName_bin bit_shr = ''>>''"
| "opName_bin add = ''+''"
| "opName_bin sub = ''-''"
| "opName_bin mul = ''*''"
| "opName_bin div_op = ''/''"
| "opName_bin mod_op = ''%''"

fun opName_un :: "UnOp \<Rightarrow> string" where
  "opName_un neg = ''-''"
| "opName_un bool_not = ''!''"
| "opName_un bit_not = ''~''"

fun typeName :: "BtnTypeEnum \<Rightarrow> string" where
  "typeName Void = ''void''"
| "typeName Opaq = ''opaq''"
| "typeName Bool = ''bool''"
| "typeName Byte = ''byte''"
| "typeName Char = ''char''"
| "typeName Real = ''real''"
| "typeName Sint = ''sint''"
| "typeName Uint = ''uint''"

subsection \<open>Tokens and the state of the visitor\<close>

text \<open>
  A token has a tag and, depending on it, a text or a count: the tags \<^verbatim>\<open>newline\<close> and \<^verbatim>\<open>indent\<close> are the
  constructors with a count.
\<close>

datatype fmt_tag =
  tag_plain | tag_oper | tag_string | tag_character | tag_number | tag_keyword | tag_type_name | tag_member

fun tagName :: "fmt_tag \<Rightarrow> string" where
  "tagName tag_plain = ''plain''"
| "tagName tag_oper = ''oper''"
| "tagName tag_string = ''string''"
| "tagName tag_character = ''character''"
| "tagName tag_number = ''number''"
| "tagName tag_keyword = ''keyword''"
| "tagName tag_type_name = ''type_name''"
| "tagName tag_member = ''member''"

datatype fmt_token = Text fmt_tag string | Newline u32 | Indent u32

record fmt =
  tokens :: "fmt_token list"
  indent :: u32
  indented :: bool

definition fmt_init :: fmt where
  "fmt_init = \<lparr>tokens = [], indent = 0, indented = False\<rparr>"

type_synonym fmt_step = "fmt \<Rightarrow> fmt"

fun seqF :: "fmt_step list \<Rightarrow> fmt_step" where
  "seqF [] s = s"
| "seqF (f # fs) s = seqF fs (f s)"

definition pushNewline :: "u32 \<Rightarrow> fmt_step" where
  "pushNewline count s =
     s\<lparr>tokens := tokens s @ (if count \<noteq> 0 then [Newline count] else []), indented := False\<rparr>"

definition pushIndent :: fmt_step where
  "pushIndent s =
     s\<lparr>tokens := tokens s @ (if \<not> indented s \<and> indent s \<noteq> 0 then [Indent (indent s)] else []),
       indented := True\<rparr>"

definition push :: "fmt_tag \<Rightarrow> string \<Rightarrow> fmt_step" where
  "push tag str s = s\<lparr>tokens := tokens s @ (if length str \<noteq> 0 then [Text tag str] else [])\<rparr>"

definition pushSpace :: fmt_step where
  "pushSpace = push tag_plain '' ''"

definition pushOp :: "string \<Rightarrow> fmt_step" where
  "pushOp opr = push tag_oper opr"

definition pushKey :: "string \<Rightarrow> fmt_step" where
  "pushKey kw = seqF [push tag_keyword kw, pushSpace]"

definition pushKeyName :: "string \<Rightarrow> string \<Rightarrow> fmt_step" where
  "pushKeyName kw n = seqF [pushIndent, pushKey kw, push tag_plain n]"

definition incrIndent :: fmt_step where
  "incrIndent s = s\<lparr>indent := indent s + 1\<rparr>"

definition decrIndent :: fmt_step where
  "decrIndent s = s\<lparr>indent := indent s - 1\<rparr>"

text \<open>\<^verbatim>\<open>tokens.pop_back()\<close> in the visitor of a \<^verbatim>\<open>for\<close>.\<close>

definition popToken :: fmt_step where
  "popToken s = s\<lparr>tokens := butlast (tokens s)\<rparr>"

text \<open>The loops that write \<^verbatim>\<open>, \<close> between the elements of a list.\<close>

fun commaF :: "fmt_step list \<Rightarrow> fmt_step" where
  "commaF [] = seqF []"
| "commaF [f] = f"
| "commaF (f # g # fs) = seqF [f, pushOp '','', pushSpace, commaF (g # fs)]"

definition whenF :: "bool \<Rightarrow> fmt_step \<Rightarrow> fmt_step" where
  "whenF b f s = (if b then f s else s)"

text \<open>
  The common shape of \<^verbatim>\<open>visit(StructType &)\<close>, \<^verbatim>\<open>visit(Block &)\<close> and the end of \<^verbatim>\<open>visit(Switch &)\<close>: \<^verbatim>\<open>{}\<close> when
  there is nothing inside, else one indented line per element.
\<close>

definition bracesF :: "fmt_step list \<Rightarrow> fmt_step" where
  "bracesF fs =
     (if fs = [] then seqF [pushOp ''{'', pushOp ''}'']
      else seqF [pushOp ''{'', pushNewline 1, incrIndent,
        seqF (map (\<lambda>f. seqF [pushIndent, f, pushNewline 1]) fs),
        decrIndent, pushIndent, pushOp ''}''])"

subsection \<open>The visitor\<close>

fun fmt_ty :: "ty \<Rightarrow> fmt_step" where
  "fmt_ty (BtnType _ value) = push tag_type_name (typeName value)"
| "fmt_ty (ArrayType _ elem) = seqF [pushOp ''['', fmt_ty elem, pushOp '']'']"
| "fmt_ty (FuncType _ params ret) =
     seqF
       ([pushKey ''func'', pushOp ''('',
         commaF (map (\<lambda>(r, t). seqF [whenF (r = ref) (pushKey ''ref''), fmt_ty t]) params),
         pushOp '')'']
        @ (case ret of
             None \<Rightarrow> []
           | Some t \<Rightarrow> [pushSpace, pushOp ''->'', pushSpace, fmt_ty t]))"
| "fmt_ty (NamedType _ n _) = push tag_type_name n"
| "fmt_ty (StructType _ flds) =
     seqF [pushKey ''struct'',
       bracesF (map (\<lambda>(n, t, _).
         seqF [push tag_plain n, pushOp '':'', pushSpace, fmt_ty t, pushOp '';'']) flds)]"
| "fmt_ty (UserType _ _ _ _ _) = seqF []"

definition pushParam :: "FuncParam \<Rightarrow> fmt_step" where
  "pushParam p =
     seqF [push tag_plain (param_name p), pushOp '':'', pushSpace,
       whenF (param_ref p = ref) (pushKey ''ref''), fmt_ty (param_type p)]"

definition pushParams :: "FuncParam list \<Rightarrow> fmt_step" where
  "pushParams params = seqF [pushOp ''('', commaF (map pushParam params), pushOp '')'']"

definition pushRet :: "ty option \<Rightarrow> fmt_step" where
  "pushRet ret =
     (case ret of
        None \<Rightarrow> seqF []
      | Some t \<Rightarrow> seqF [pushOp ''->'', pushSpace, fmt_ty t, pushSpace])"

definition pushType :: "ty option \<Rightarrow> fmt_step" where
  "pushType type =
     (case type of None \<Rightarrow> seqF [] | Some t \<Rightarrow> seqF [pushOp '':'', pushSpace, fmt_ty t])"

fun fmt_expr :: "expr \<Rightarrow> fmt_step"
  and fmt_stat :: "stat \<Rightarrow> fmt_step"
  and fmt_decl :: "decl \<Rightarrow> fmt_step"
  and fmt_asgn :: "asgn \<Rightarrow> fmt_step" where
  "fmt_expr (BinaryExpr _ lhs opr rhs) =
     seqF [fmt_expr lhs, pushSpace, pushOp (opName_bin opr), pushSpace, fmt_expr rhs]"
| "fmt_expr (UnaryExpr _ opr e) = seqF [pushOp (opName_un opr), fmt_expr e]"
| "fmt_expr (FuncCall _ func args) =
     seqF [fmt_expr func, pushOp ''('', commaF (map fmt_expr args), pushOp '')'']"
| "fmt_expr (MemberIdent _ object member) = seqF [fmt_expr object, pushOp ''.'', push tag_member member]"
| "fmt_expr (Subscript _ object index) =
     seqF [fmt_expr object, pushOp ''['', fmt_expr index, pushOp '']'']"
| "fmt_expr (Identifier _ n) = push tag_plain n"
| "fmt_expr (Ternary _ cond troo fols) =
     seqF [fmt_expr cond, pushSpace, pushOp ''?'', pushSpace, fmt_expr troo, pushSpace, pushOp '':'',
       pushSpace, fmt_expr fols]"
| "fmt_expr (Make _ type e) =
     seqF [pushKey ''make'', fmt_ty type, pushSpace, pushOp ''('', fmt_expr e, pushOp '')'']"
| "fmt_expr (StringLiteral _ litr) =
     seqF [push tag_string [CHR 0x22], push tag_string litr, push tag_string [CHR 0x22]]"
| "fmt_expr (CharLiteral _ litr) =
     seqF [push tag_character [CHR 0x27], push tag_character litr, push tag_character [CHR 0x27]]"
| "fmt_expr (NumberLiteral _ litr) = push tag_number litr"
| "fmt_expr (BoolLiteral _ value) = push tag_keyword (if value then ''true'' else ''false'')"
| "fmt_expr (ArrayLiteral _ exprs) = seqF [pushOp ''['', commaF (map fmt_expr exprs), pushOp '']'']"
| "fmt_expr (InitList _ exprs) = seqF [pushOp ''{'', commaF (map fmt_expr exprs), pushOp ''}'']"
| "fmt_expr (Lambda _ params ret _ body) =
     seqF [pushKey ''func'', pushParams params, pushSpace, pushRet ret, bracesF (map fmt_stat body)]"
| "fmt_stat (Block _ nodes) = bracesF (map fmt_stat nodes)"
| "fmt_stat (If _ cond body elseBody) =
     seqF
       ([pushKey ''if'', pushOp ''('', fmt_expr cond, pushOp '')'', pushSpace, fmt_stat body]
        @ (case elseBody of None \<Rightarrow> [] | Some b \<Rightarrow> [pushSpace, pushKey ''else'', fmt_stat b]))"
| "fmt_stat (Switch _ e cases _) =
     seqF [pushKey ''switch'', pushOp ''('', fmt_expr e, pushOp '')'', pushSpace,
       bracesF (map (\<lambda>(_, ce, body).
         seqF
           ((case ce of
               Some x \<Rightarrow> [pushKey ''case'', pushOp ''('', fmt_expr x, pushOp '')'', pushSpace]
             | None \<Rightarrow> [pushKey ''default''])
            @ [fmt_stat body])) cases)]"
| "fmt_stat Terminate = seqF []"
| "fmt_stat (Break _) = seqF [push tag_keyword ''break'', pushOp '';'']"
| "fmt_stat (Continue _) = seqF [push tag_keyword ''continue'', pushOp '';'']"
| "fmt_stat (Return _ e) =
     seqF
       ([push tag_keyword ''return'']
        @ (case e of None \<Rightarrow> [] | Some x \<Rightarrow> [pushSpace, fmt_expr x])
        @ [pushOp '';''])"
| "fmt_stat (While _ cond body) =
     seqF [pushKey ''while'', pushOp ''('', fmt_expr cond, pushOp '')'', pushSpace, fmt_stat body]"
| "fmt_stat (For _ init cond incr body) =
     seqF
       ([pushKey ''for'', pushOp ''('',
         (case init of None \<Rightarrow> pushOp '';'' | Some a \<Rightarrow> fmt_asgn a),
         pushSpace, fmt_expr cond, pushOp '';'', pushSpace]
        @ (case incr of None \<Rightarrow> [] | Some a \<Rightarrow> [fmt_asgn a, popToken])
        @ [pushOp '')'', pushSpace, fmt_stat body])"
| "fmt_stat (SDecl d) = fmt_decl d"
| "fmt_stat (SAsgn a) = fmt_asgn a"
| "fmt_decl (Func _ external receiver n params ret _ body) =
     seqF
       ([whenF external (pushKey ''extern''), pushKey ''func'']
        @ (case receiver of
             None \<Rightarrow> []
           | Some p \<Rightarrow> [pushOp ''('', pushParam p, pushOp '')'', pushSpace])
        @ [push tag_plain n, pushParams params, pushSpace, pushRet ret, bracesF (map fmt_stat body)])"
| "fmt_decl (ExtFunc _ _ _ _ _ _) = seqF []"
| "fmt_decl (BtnFunc _) = seqF []"
| "fmt_decl (Var _ external n type e) =
     seqF
       ([whenF external (pushKey ''extern''), pushKeyName ''var'' n, pushType type]
        @ (case e of None \<Rightarrow> [] | Some x \<Rightarrow> [pushSpace, pushOp ''='', pushSpace, fmt_expr x])
        @ [pushOp '';''])"
| "fmt_decl (Let _ external n type e) =
     seqF [whenF external (pushKey ''extern''), pushKeyName ''let'' n, pushType type,
       pushSpace, pushOp ''='', pushSpace, fmt_expr e, pushOp '';'']"
| "fmt_decl (TypeAlias _ n type strong) =
     seqF [pushKeyName ''type'' n, pushSpace, whenF (\<not> strong) (seqF [pushOp ''='', pushSpace]),
       fmt_ty type, pushOp '';'']"
| "fmt_asgn (CompAssign _ dst opr src) =
     seqF [fmt_expr dst, pushSpace, pushOp (opName_assign opr), pushSpace, fmt_expr src, pushOp '';'']"
| "fmt_asgn (IncrDecr _ e incr) =
     seqF [fmt_expr e, pushOp (if incr then ''++'' else ''--''), pushOp '';'']"
| "fmt_asgn (Assign _ dst src) =
     seqF [fmt_expr dst, pushSpace, pushOp ''='', pushSpace, fmt_expr src, pushOp '';'']"
| "fmt_asgn (DeclAssign _ n e) =
     seqF [push tag_plain n, pushSpace, pushOp '':='', pushSpace, fmt_expr e, pushOp '';'']"
| "fmt_asgn (CallAssign _ func args _) =
     seqF [fmt_expr func, pushOp ''('', commaF (map fmt_expr args), pushOp '')'', pushOp '';'']"

text \<open>\<^verbatim>\<open>format(ast::Node *)\<close> for a type and for an expression, and \<^verbatim>\<open>format(const AST &)\<close>.\<close>

definition format_type :: "ty \<Rightarrow> fmt_token list" where
  "format_type t = tokens (fmt_ty t fmt_init)"

definition format_expr :: "expr \<Rightarrow> fmt_token list" where
  "format_expr e = tokens (fmt_expr e fmt_init)"

definition format_decls :: "decl list \<Rightarrow> fmt_step" where
  "format_decls ds = seqF (map (\<lambda>d.
     seqF [fmt_decl d, \<lambda>s. s\<lparr>tokens := tokens s @ [Newline 1, Newline 1]\<rparr>]) ds)"

definition format_ast :: "ast \<Rightarrow> fmt_token list" where
  "format_ast a =
     (let ts = tokens (format_decls (ast_global a) fmt_init)
      in if ast_global a \<noteq> [] then butlast ts else ts)"

subsection \<open>Plain text\<close>

definition nl :: string where "nl = [CHR 0x0A]"

fun plain_token :: "u32 \<Rightarrow> fmt_token \<Rightarrow> string" where
  "plain_token indentSize (Newline count) = replicate (unat count) (CHR 0x0A)"
| "plain_token indentSize (Indent count) = replicate (unat (count * indentSize)) CHR '' ''"
| "plain_token indentSize (Text _ str) = str"

definition plainFormat :: "fmt_token list \<Rightarrow> u32 \<Rightarrow> string" where
  "plainFormat ts indentSize = concat (map (plain_token indentSize) ts)"

text \<open>\<^verbatim>\<open>repeat\<close> and the version of \<^verbatim>\<open>plainFormat\<close> that writes to a stream, here the text written so far.\<close>

function repeat_char :: "string \<Rightarrow> char \<Rightarrow> u32 \<Rightarrow> string" where
  "repeat_char stream c count = (if count = 0 then stream else repeat_char (stream @ [c]) c (count - 1))"
  by auto
termination
  by (relation "measure (\<lambda>(_, _, count). unat count)") (auto simp: unat_minus_one unat_gt_0)

declare repeat_char.simps [simp del]

fun plainFormat_stream :: "string \<Rightarrow> fmt_token list \<Rightarrow> u32 \<Rightarrow> string" where
  "plainFormat_stream stream [] indentSize = stream"
| "plainFormat_stream stream (tok # ts) indentSize =
     plainFormat_stream
       (case tok of
          Newline count \<Rightarrow> repeat_char stream (CHR 0x0A) count
        | Indent count \<Rightarrow> repeat_char stream CHR '' '' (count * indentSize)
        | Text _ str \<Rightarrow> stream @ str) ts indentSize"

fun inline_token :: "fmt_token \<Rightarrow> string" where
  "inline_token (Newline _) = '' ''"
| "inline_token (Indent _) = []"
| "inline_token (Text _ str) = str"

definition plainFormatInline :: "fmt_token list \<Rightarrow> string" where
  "plainFormatInline ts = concat (map inline_token ts)"

subsection \<open>HTML\<close>

record HTMLstyles =
  indentSize :: u32
  doc :: bool
  def :: bool

definition text_lines :: "string list \<Rightarrow> string" where
  "text_lines ls = concat (map (\<lambda>l. l @ nl) ls)"

definition quote :: string where "quote = [CHR 0x22]"

definition doc_start :: string where
  "doc_start = text_lines
     [''<!DOCTYPE html>'', ''<html>'', ''<head>'', ''<title>STELA</title>'',
      ''<meta name='' @ quote @ ''generator'' @ quote @ '' content='' @ quote
        @ ''STELA by Indi Kernick'' @ quote @ ''>'',
      ''</head>'', ''<body>'']"

definition doc_end :: string where
  "doc_end = text_lines [''</body>'', ''</html>'']"

definition basic_styles :: string where
  "basic_styles = text_lines [''pre {'', ''  margin: 0;'', ''}'']"

definition basic_doc_styles :: string where
  "basic_doc_styles = text_lines [''body {'', ''  margin: 0;'', ''}'']"

definition default_styles :: string where
  "default_styles = text_lines
     [''pre {'', ''  margin: 0;'', ''  background-color: #000;'', ''  font-family: Consolas, sans-serif;'', ''}'',
      ''.plain, .oper {'', ''  color: #FFF;'', ''}'',
      ''.string {'', ''  color: #FF2C38;'', ''}'',
      ''.character, .number {'', ''  color: #786DFF;'', ''}'',
      ''.keyword {'', ''  color: #D31895;'', ''}'',
      ''.type_name {'', ''  color: #00A0FF;'', ''}'',
      ''.member {'', ''  color: #23FF83;'', ''}'']"

definition default_doc_styles :: string where
  "default_doc_styles = text_lines [''body {'', ''  margin: 0;'', ''  background-color: #000;'', ''}'']"

fun html_token :: "u32 \<Rightarrow> fmt_token \<Rightarrow> string" where
  "html_token isize (Text tag str) =
     ''<span class='' @ quote @ tagName tag @ quote @ ''>'' @ str @ ''</span>''"
| "html_token isize (Newline count) = replicate (unat count) (CHR 0x0A)"
| "html_token isize (Indent count) = replicate (unat (count * isize)) CHR '' ''"

definition htmlFormat :: "fmt_token list \<Rightarrow> HTMLstyles \<Rightarrow> string" where
  "htmlFormat ts styles =
     (if doc styles then doc_start else []) @ ''<style>''
     @ (if def styles
        then (if doc styles then default_doc_styles else []) @ default_styles
        else (if doc styles then basic_doc_styles else []) @ basic_styles)
     @ ''</style>'' @ ''<pre>'' @ nl
     @ concat (map (html_token (indentSize styles)) ts)
     @ ''</pre>'' @ nl
     @ (if doc styles then doc_end else [])"

subsection \<open>What the visitor leaves unchanged\<close>

text \<open>\<open>frame f\<close>: the step only appends tokens and leaves the indentation where it was.\<close>

named_theorems frame_rules

declare seqF.simps [simp del]

definition frame :: "fmt_step \<Rightarrow> bool" where
  "frame f \<longleftrightarrow> (\<forall>s. indent (f s) = indent s \<and> prefix (tokens s) (tokens (f s)))"

lemma frame_Nil [frame_rules]: "frame (seqF [])"
  by (simp add: frame_def seqF.simps)

lemma frame_seqF: "(\<And>f. f \<in> set fs \<Longrightarrow> frame f) \<Longrightarrow> frame (seqF fs)"
proof (induction fs)
  case (Cons f fs)
  then show ?case unfolding frame_def by (metis list.set_intros prefix_order.trans seqF.simps(2))
qed (simp add: frame_def seqF.simps)

lemma frame_Cons [frame_rules]: "frame f \<Longrightarrow> frame (seqF fs) \<Longrightarrow> frame (seqF (f # fs))"
  unfolding frame_def by (metis prefix_order.trans seqF.simps(2))

lemma seqF_append: "seqF (fs @ gs) s = seqF gs (seqF fs s)"
  by (induction fs arbitrary: s) (auto simp: seqF.simps)

lemma frame_append [frame_rules]: "frame (seqF fs) \<Longrightarrow> frame (seqF gs) \<Longrightarrow> frame (seqF (fs @ gs))"
  unfolding frame_def by (metis prefix_order.trans seqF_append)

lemma frame_push [frame_rules]:
  "frame (push tag str)" "frame (pushSpace)" "frame (pushOp str)" "frame (pushNewline c)" "frame pushIndent"
  by (simp_all add: frame_def push_def pushSpace_def pushOp_def pushNewline_def pushIndent_def)

lemma frame_pushKey [frame_rules]: "frame (pushKey str)"
  unfolding pushKey_def by (intro frame_rules)

lemma frame_pushKeyName [frame_rules]: "frame (pushKeyName str n)"
  unfolding pushKeyName_def by (intro frame_rules)

lemma frame_whenF [frame_rules]: "frame f \<Longrightarrow> frame (whenF b f)"
  by (simp add: frame_def whenF_def)

lemma frame_commaF: "(\<And>f. f \<in> set fs \<Longrightarrow> frame f) \<Longrightarrow> frame (commaF fs)"
  by (induction fs rule: commaF.induct) (auto intro!: frame_rules)

lemma frame_indented: "frame f \<Longrightarrow> frame (seqF [incrIndent, f, decrIndent])"
proof -
  assume f: "frame f"
  have "prefix (tokens s) (tokens (f (s\<lparr>indent := indent s + 1\<rparr>)))" for s
    using f [unfolded frame_def, rule_format, of "s\<lparr>indent := indent s + 1\<rparr>"] by simp
  then show ?thesis using f by (simp add: frame_def incrIndent_def decrIndent_def seqF.simps)
qed

lemma frame_bracesF:
  assumes "\<And>f. f \<in> set fs \<Longrightarrow> frame f"
  shows "frame (bracesF fs)"
proof -
  let ?body = "seqF (map (\<lambda>f. seqF [pushIndent, f, pushNewline 1]) fs)"
  have "frame ?body"
    by (rule frame_seqF) (auto intro!: frame_rules intro: assms)
  then have "frame (seqF [pushOp ''{'', pushNewline 1, seqF [incrIndent, ?body, decrIndent], pushIndent, pushOp ''}''])"
    by (intro frame_rules frame_indented)
  then have "frame (seqF [pushOp ''{'', pushNewline 1, incrIndent, ?body, decrIndent, pushIndent, pushOp ''}''])"
    by (simp add: frame_def seqF.simps)
  then show ?thesis by (auto simp: bracesF_def intro!: frame_rules)
qed

lemma frame_ty [frame_rules]: "frame (fmt_ty t)"
proof (induction t)
  case (FuncType l ps r)
  have "frame (fmt_ty u)" if "(p, u) \<in> set ps" for p u
    using FuncType.IH(1) [OF that] by simp
  moreover have "frame (fmt_ty u)" if "r = Some u" for u
    using FuncType.IH(2) that by simp
  ultimately show ?case
    by (cases r) (auto intro!: frame_rules frame_commaF)
next
  case (StructType l fs)
  have "frame (fmt_ty u)" if "(p, u, l) \<in> set fs" for p u l
    using StructType.IH [OF that] by simp
  then show ?case by (auto intro!: frame_rules frame_bracesF)
qed (auto intro!: frame_rules)

lemma frame_pushParam [frame_rules]: "frame (pushParam p)" "frame (pushParams ps)" "frame (pushRet r)" "frame (pushType r)"
  unfolding pushParam_def pushParams_def pushRet_def pushType_def
  by (auto split: option.splits intro!: frame_rules frame_commaF)


text \<open>An assignment ends in a semicolon, which a \<^verbatim>\<open>for\<close> removes again.\<close>

fun asgn_body :: "asgn \<Rightarrow> fmt_step" where
  "asgn_body (CompAssign _ dst opr src) =
     seqF [fmt_expr dst, pushSpace, pushOp (opName_assign opr), pushSpace, fmt_expr src]"
| "asgn_body (IncrDecr _ e incr) = seqF [fmt_expr e, pushOp (if incr then ''++'' else ''--'')]"
| "asgn_body (Assign _ dst src) = seqF [fmt_expr dst, pushSpace, pushOp ''='', pushSpace, fmt_expr src]"
| "asgn_body (DeclAssign _ n e) = seqF [push tag_plain n, pushSpace, pushOp '':='', pushSpace, fmt_expr e]"
| "asgn_body (CallAssign _ func args _) =
     seqF [fmt_expr func, pushOp ''('', commaF (map fmt_expr args), pushOp '')'']"

lemma fmt_asgn_body: "fmt_asgn a s = pushOp '';'' (asgn_body a s)"
  by (cases a) (simp_all add: seqF.simps)

lemma popToken_asgn: "popToken (fmt_asgn a s) = asgn_body a s"
  by (simp add: fmt_asgn_body popToken_def pushOp_def push_def)

lemma seqF_fmt_asgn: "seqF (fmt_asgn a # popToken # fs) = seqF (asgn_body a # fs)"
  by (rule ext) (simp add: seqF.simps popToken_asgn)

lemma frame_pop: "frame (asgn_body a) \<Longrightarrow> frame (seqF fs) \<Longrightarrow> frame (seqF (fmt_asgn a # popToken # fs))"
  by (simp add: seqF_fmt_asgn frame_rules)

lemma frame_visit [frame_rules]:
  "frame (fmt_expr e)" "frame (fmt_stat st)" "frame (fmt_decl d)" "frame (asgn_body a) \<and> frame (fmt_asgn a)"
proof (induction e and st and d and a rule: fmt_expr_fmt_stat_fmt_decl_fmt_asgn.induct)
  case (24 l init cond incr body)
  then show ?case
    by (cases init; cases incr; simp; intro frame_pop frame_Cons frame_Nil frame_push frame_pushKey) auto
qed (auto split: option.splits intro!: frame_rules frame_commaF frame_bracesF)

lemma repeat_char_replicate: "repeat_char stream c count = stream @ replicate (unat count) c"
proof (induction stream c count rule: repeat_char.induct)
  case (1 stream c count)
  show ?case
  proof (cases "count = 0")
    case False
    then have "unat count = Suc (unat (count - 1))" by (simp add: unat_minus_one unat_gt_0)
    then show ?thesis using 1 False by (simp add: repeat_char.simps [of stream c count])
  qed (simp add: repeat_char.simps)
qed

text \<open>
  C30: formatting a declaration, a statement or an expression, however deeply nested, restores the
  indentation and never touches the tokens written before it.
\<close>

theorem format_balanced:
  "indent (fmt_decl d s) = indent s \<and> prefix (tokens s) (tokens (fmt_decl d s))
   \<and> indent (fmt_stat st s) = indent s \<and> prefix (tokens s) (tokens (fmt_stat st s))
   \<and> indent (fmt_expr e s) = indent s \<and> prefix (tokens s) (tokens (fmt_expr e s))"
  using frame_visit by (auto simp: frame_def)

text \<open>
  The three assertions in the visitor of a \<^verbatim>\<open>for\<close> hold. What the increment writes is not empty and ends
  in the operator \<^verbatim>\<open>;\<close>, so the \<^verbatim>\<open>pop_back\<close> removes just that.
\<close>

theorem format_for_assertions:
  "tokens (fmt_asgn a s) \<noteq> [] \<and> last (tokens (fmt_asgn a s)) = Text tag_oper '';''
   \<and> popToken (fmt_asgn a s) = asgn_body a s"
  using popToken_asgn [of a s] by (simp add: fmt_asgn_body pushOp_def push_def)

text \<open>The two versions of \<^verbatim>\<open>plainFormat\<close>, into a string and into a stream, write the same text.\<close>

theorem plainFormat_stream_eq: "plainFormat_stream out ts n = out @ plainFormat ts n"
  by (induction ts arbitrary: out) (auto simp: plainFormat_def repeat_char_replicate split: fmt_token.splits)

text \<open>
  Parentheses are lost. Two binary expressions that group their operands differently are written
  alike, whatever the operators: \<^verbatim>\<open>(a + b) * c\<close> becomes \<^verbatim>\<open>a + b * c\<close>.
\<close>

theorem format_loses_parentheses:
  "format_expr (BinaryExpr l (BinaryExpr l' a op1 b) op2 c)
   = format_expr (BinaryExpr l a op1 (BinaryExpr l' b op2 c))"
  by (simp add: format_expr_def seqF.simps)

end
