(* ===== verification/Expr_Syntax.thy ===== *)
theory Expr_Syntax
  imports Parser_Contract Format
begin

section \<open>Precedence\<close>

text \<open>
  What the expression parsers of \<^verbatim>\<open>src/Syntax/parse expr.cpp\<close> promise as a whole: an expression that is written with
  parentheses only where the precedence of operators asks for them is parsed as itself. The writer is
  the specification: the rank of an operator is its line in the table of precedences that the source
  refers to, binary operators are left associative, the conditional operator is right associative.
\<close>

subsection \<open>Writing expressions\<close>

definition tk :: "loc \<Rightarrow> token_type \<Rightarrow> string \<Rightarrow> token" where
  "tk l ty v = \<lparr>tview = v, tloc = l, ttype = ty\<rparr>"


text \<open>The ranks: terms with their suffixes 0, unary operators 1, binary operators from 2 to 11, conditional 12.\<close>

fun bin_rank :: "BinOp \<Rightarrow> nat" where
  "bin_rank mul = 2" | "bin_rank div_op = 2" | "bin_rank mod_op = 2"
| "bin_rank add = 3" | "bin_rank sub = 3"
| "bin_rank bit_shl = 4" | "bin_rank bit_shr = 4"
| "bin_rank bit_and = 5"
| "bin_rank bit_xor = 6"
| "bin_rank bit_or = 7"
| "bin_rank lt = 8" | "bin_rank le = 8" | "bin_rank gt = 8" | "bin_rank ge = 8"
| "bin_rank eq = 9" | "bin_rank ne = 9"
| "bin_rank bool_and = 10"
| "bin_rank bool_or = 11"








lemma tk_simps [simp]: "tview (tk l ty v) = v" "tloc (tk l ty v) = l" "ttype (tk l ty v) = ty"
  by (simp_all add: tk_def)

subsection \<open>Moving the cursor\<close>

definition past :: "token list \<Rightarrow> parse_tokens \<Rightarrow> parse_tokens" where
  "past ts s = (if ts = [] then s else s\<lparr>prev := Some (last ts), toks := drop (length ts) (toks s)\<rparr>)"



lemma past_simps [simp]: "ctxs (past ts s) = ctxs s" "past [] s = s" "past ts (s\<lparr>ctxs := c\<rparr>) = (past ts s)\<lparr>ctxs := c\<rparr>"
  by (auto simp: past_def)





















text \<open>Alternatives: the first token decides which one is taken.\<close>

definition starts :: "token_type \<Rightarrow> string \<Rightarrow> token list \<Rightarrow> bool" where
  "starts ty v ts \<longleftrightarrow> (case ts of [] \<Rightarrow> False | t # _ \<Rightarrow> ttype t = ty \<and> tview t = v)"















subsection \<open>The parsers by rank\<close>

















lemma bin_rank_nz [simp]: "bin_rank opr \<noteq> 0" "0 < bin_rank opr" "bin_rank opr \<noteq> Suc 0" "bin_rank opr \<noteq> 12"
  by (cases opr; simp)+











subsection \<open>From rank to rank\<close>












text \<open>The first token of a term, and of an expression.\<close>

definition term_start :: "token list \<Rightarrow> bool" where
  "term_start ts \<longleftrightarrow> (case ts of [] \<Rightarrow> False | t # _ \<Rightarrow>
     (ttype t = T_oper \<longrightarrow> tview t \<in> {''('', ''['', ''{''}) \<and> (ttype t = T_keyword \<longrightarrow> tview t \<in> {''true'', ''false''}))"



definition no_close :: "token list \<Rightarrow> bool" where
  "no_close ts \<longleftrightarrow> (case ts of [] \<Rightarrow> False | t # _ \<Rightarrow> ttype t = T_oper \<longrightarrow> tview t \<notin> {'')'', '']'', ''}''})"


lemma no_close_term: "term_start ts \<Longrightarrow> no_close ts"
  by (auto simp: term_start_def no_close_def split: list.splits)












































subsection \<open>All ranks\<close>









subsection \<open>Properties\<close>



end
