(* ===== verification/Module_Order.thy ===== *)
theory Module_Order
  imports Ast "HOL-Library.List_Lexorder" "HOL-Library.Char_ord"
begin

section \<open>The order in which modules are compiled\<close>

text \<open>
  \<^verbatim>\<open>src/Semantic/modules.cpp\<close>: \<^verbatim>\<open>findModuleOrder\<close> rejects duplicate names and then runs a depth first
  search over the imports. \<open>visitor\<close> is the state of the class \<^verbatim>\<open>Visitor\<close>; \<^verbatim>\<open>visit(index)\<close> and
  \<^verbatim>\<open>visit(name)\<close> call each other, so \<open>visit_name\<close> takes the former as an argument and \<open>visit_index\<close>
  counts the depth of the calls down. One more than the number of modules is enough, since each call
  that goes deeper marks a module (\<open>visit_contract\<close>).
\<close>

record visitor =
  order :: "nat list"
  vstack :: "nat list"
  visited :: "bool list"

definition Visitor :: "ast list \<Rightarrow> visitor" where
  "Visitor asts = \<lparr>order = [], vstack = [], visited = replicate (length asts) False\<rparr>"

definition cyclic_error :: "name \<Rightarrow> error" where
  "cyclic_error n = Fatal no_loc (''Cyclic dependencies detected in module '' @ [CHR 0x22] @ n @ [CHR 0x22])"

definition missing_error :: "name \<Rightarrow> error" where
  "missing_error n = Fatal no_loc (''Module '' @ [CHR 0x22] @ n @ [CHR 0x22] @ '' not found'')"

definition duplicate_error :: "name \<Rightarrow> error" where
  "duplicate_error n = Fatal no_loc (''Duplicate module '' @ [CHR 0x22] @ n @ [CHR 0x22])"

definition checkCycle :: "nat \<Rightarrow> name \<Rightarrow> visitor \<Rightarrow> visitor res" where
  "checkCycle i n v = (if i \<in> set (vstack v) then Inl (cyclic_error n) else Inr v)"

text \<open>The loop of \<^verbatim>\<open>visit(name)\<close>: the first module with the name.\<close>

fun find_module_from :: "nat \<Rightarrow> ast list \<Rightarrow> name \<Rightarrow> nat option" where
  "find_module_from i [] n = None"
| "find_module_from i (a # as) n = (if ast_name a = n then Some i else find_module_from (Suc i) as n)"

definition find_module :: "ast list \<Rightarrow> name \<Rightarrow> nat option" where
  "find_module asts n = find_module_from 0 asts n"

definition visit_name ::
  "(nat \<Rightarrow> visitor \<Rightarrow> visitor res) \<Rightarrow> ast list \<Rightarrow> name list \<Rightarrow> name \<Rightarrow> visitor \<Rightarrow> visitor res" where
  "visit_name vi asts compiled n v =
     (case find_module asts n of
        Some i \<Rightarrow> bindE (checkCycle i n v) (vi i)
      | None \<Rightarrow> if n \<in> set compiled then Inr v else Inl (missing_error n))"

fun visit_index :: "nat \<Rightarrow> ast list \<Rightarrow> name list \<Rightarrow> nat \<Rightarrow> visitor \<Rightarrow> visitor res" where
  "visit_index 0 asts compiled i v = Inl Out_of_fuel"
| "visit_index (Suc n) asts compiled i v =
     (if visited v ! i then Inr v
      else
        bindE (foldE (visit_name (visit_index n asts compiled) asts compiled) (ast_imports (asts ! i))
                 (v\<lparr>visited := (visited v)[i := True], vstack := vstack v @ [i]\<rparr>))
          (\<lambda>v. Inr (v\<lparr>vstack := butlast (vstack v), order := order v @ [i]\<rparr>)))"

definition visit_all :: "ast list \<Rightarrow> name list \<Rightarrow> visitor \<Rightarrow> visitor res" where
  "visit_all asts compiled v =
     foldE (visit_index (Suc (length asts)) asts compiled) [0..<length asts] v"

fun adjacent_find :: "'a list \<Rightarrow> 'a option" where
  "adjacent_find (x # y # xs) = (if x = y then Some x else adjacent_find (y # xs))"
| "adjacent_find _ = None"

definition checkDuplicateModules :: "ast list \<Rightarrow> name list \<Rightarrow> unit res" where
  "checkDuplicateModules asts compiled =
     (case adjacent_find (sort (map ast_name asts @ compiled)) of
        Some n \<Rightarrow> Inl (duplicate_error n)
      | None \<Rightarrow> Inr ())"

definition findModuleOrder :: "ast list \<Rightarrow> name list \<Rightarrow> nat list res" where
  "findModuleOrder asts compiled =
     bindE (checkDuplicateModules asts compiled) (\<lambda>_.
     bindE (visit_all asts compiled (Visitor asts)) (\<lambda>v. Inr (order v)))"

subsection \<open>Duplicates\<close>

lemma adjacent_find_sorted:
  assumes "sorted xs"
  shows "adjacent_find xs = None \<longleftrightarrow> distinct xs"
  using assms by (induction xs rule: adjacent_find.induct) (auto simp: order_antisym)

lemma adjacent_find_Some: "adjacent_find xs = Some x \<Longrightarrow> \<exists>ys zs. xs = ys @ x # x # zs"
proof (induction xs rule: adjacent_find.induct)
  case (1 x y xs)
  then show ?case by (auto split: if_splits) (metis append_Cons)+
qed auto

lemma checkDuplicateModules_ok:
  "checkDuplicateModules asts compiled = Inr () \<longleftrightarrow> distinct (map ast_name asts @ compiled)"
  using adjacent_find_sorted [of "sort (map ast_name asts @ compiled)"]
  by (auto simp: checkDuplicateModules_def split: option.splits)

lemma checkDuplicateModules_error:
  assumes "checkDuplicateModules asts compiled = Inl e"
  shows "\<exists>n. e = duplicate_error n \<and> 2 \<le> length (filter ((=) n) (map ast_name asts @ compiled))"
proof -
  let ?ns = "map ast_name asts @ compiled"
  obtain n where n: "adjacent_find (sort ?ns) = Some n" "e = duplicate_error n"
    using assms by (auto simp: checkDuplicateModules_def split: option.splits)
  obtain ys zs where "sort ?ns = ys @ n # n # zs" using adjacent_find_Some [OF n(1)] by blast
  then have "2 \<le> length (filter ((=) n) (sort ?ns))" by simp
  also have "length (filter ((=) n) (sort ?ns)) = length (filter ((=) n) ?ns)"
    by (simp only: filter_sort length_sort)
  finally show ?thesis using n(2) by blast
qed

subsection \<open>The import graph\<close>

definition imports_module :: "ast list \<Rightarrow> nat \<Rightarrow> nat \<Rightarrow> bool" where
  "imports_module asts i j \<longleftrightarrow>
     i < length asts \<and> (\<exists>d \<in> set (ast_imports (asts ! i)). find_module asts d = Some j)"

definition import_graph :: "ast list \<Rightarrow> (nat \<times> nat) set" where
  "import_graph asts = {(i, j). imports_module asts i j}"

definition resolved :: "ast list \<Rightarrow> name list \<Rightarrow> bool" where
  "resolved asts compiled \<longleftrightarrow>
     (\<forall>a \<in> set asts. \<forall>d \<in> set (ast_imports a). d \<in> ast_name ` set asts \<or> d \<in> set compiled)"

text \<open>Every import of module \<open>i\<close> is among the modules \<open>done\<close> or was compiled before.\<close>

definition imports_done :: "ast list \<Rightarrow> name list \<Rightarrow> nat list \<Rightarrow> nat \<Rightarrow> bool" where
  "imports_done asts compiled done i \<longleftrightarrow>
     (\<forall>d \<in> set (ast_imports (asts ! i)).
        case find_module asts d of Some j \<Rightarrow> j \<in> set done | None \<Rightarrow> d \<in> set compiled)"

definition topological :: "ast list \<Rightarrow> name list \<Rightarrow> nat list \<Rightarrow> bool" where
  "topological asts compiled ord \<longleftrightarrow>
     (\<forall>xs i ys. ord = xs @ i # ys \<longrightarrow> imports_done asts compiled xs i)"

lemma find_module_from_Some:
  "find_module_from k as n = Some i \<Longrightarrow> k \<le> i \<and> i - k < length as \<and> ast_name (as ! (i - k)) = n"
proof (induction k as n rule: find_module_from.induct)
  case (2 k a as n)
  then show ?case by (auto split: if_splits simp: nth_Cons' Suc_diff_le)
qed simp

lemma find_module_Some: "find_module asts n = Some i \<Longrightarrow> i < length asts \<and> ast_name (asts ! i) = n"
  using find_module_from_Some [of 0 asts n i] by (simp add: find_module_def)

lemma find_module_from_None: "find_module_from k as n = None \<longleftrightarrow> n \<notin> ast_name ` set as"
  by (induction k as n rule: find_module_from.induct) auto

lemma find_module_None: "find_module asts n = None \<longleftrightarrow> n \<notin> ast_name ` set asts"
  by (simp add: find_module_def find_module_from_None)

lemma topological_snoc:
  "topological asts c (ord @ [i]) \<longleftrightarrow> topological asts c ord \<and> imports_done asts c ord i"
proof
  assume *: "topological asts c (ord @ [i])"
  show "topological asts c ord \<and> imports_done asts c ord i"
    using * unfolding topological_def by (metis append.assoc append_Cons)
next
  assume *: "topological asts c ord \<and> imports_done asts c ord i"
  show "topological asts c (ord @ [i])"
    unfolding topological_def
  proof (intro allI impI)
    fix xs k ys assume eq: "ord @ [i] = xs @ k # ys"
    show "imports_done asts c xs k"
    proof (cases ys rule: rev_cases)
      case Nil
      with eq * show ?thesis by simp
    next
      case (snoc zs z)
      with eq have "ord = xs @ k # zs" by simp
      with * show ?thesis by (auto simp: topological_def)
    qed
  qed
qed

lemma topological_Nil [simp]: "topological asts c []"
  by (simp add: topological_def)

lemma successively_path:
  "successively (imports_module asts) (j # ys) \<Longrightarrow> (j, last (j # ys)) \<in> (import_graph asts)\<^sup>*"
proof (induction ys arbitrary: j)
  case (Cons y ys)
  then have "(j, y) \<in> import_graph asts" "(y, last (y # ys)) \<in> (import_graph asts)\<^sup>*"
    by (auto simp: import_graph_def)
  then show ?case by auto
qed simp

lemma stack_cycle:
  assumes "successively (imports_module asts) st" and "j \<in> set st"
    and "imports_module asts (last st) j"
  shows "(j, j) \<in> (import_graph asts)\<^sup>+"
proof -
  obtain xs ys where st: "st = xs @ j # ys" using assms(2) by (meson split_list)
  then have "(j, last st) \<in> (import_graph asts)\<^sup>*"
    using assms(1) successively_path [of asts j ys] by (auto simp: successively_append_iff)
  moreover have "(last st, j) \<in> import_graph asts" using assms(3) by (simp add: import_graph_def)
  ultimately show ?thesis by (rule rtrancl_into_trancl1)
qed

subsection \<open>The depth first search\<close>

text \<open>
  The invariant of the search: the modules in the order and on the stack are the visited ones, each
  once; the stack is a path of imports; the order so far is topological.
\<close>

definition unvisited :: "visitor \<Rightarrow> nat" where
  "unvisited v = length (filter Not (visited v))"

definition visitor_ok :: "ast list \<Rightarrow> name list \<Rightarrow> visitor \<Rightarrow> bool" where
  "visitor_ok asts compiled v \<longleftrightarrow>
     length (visited v) = length asts
     \<and> distinct (order v @ vstack v)
     \<and> set (order v @ vstack v) = {i. i < length asts \<and> visited v ! i}
     \<and> successively (imports_module asts) (vstack v)
     \<and> topological asts compiled (order v)"

text \<open>The state only grows, and the stack is as before.\<close>

definition extends :: "ast list \<Rightarrow> name list \<Rightarrow> visitor \<Rightarrow> visitor \<Rightarrow> bool" where
  "extends asts compiled v v' \<longleftrightarrow>
     visitor_ok asts compiled v' \<and> vstack v' = vstack v \<and> prefix (order v) (order v')
     \<and> unvisited v' \<le> unvisited v"

text \<open>Why the search stops with an error.\<close>

definition refused :: "ast list \<Rightarrow> name list \<Rightarrow> error \<Rightarrow> bool" where
  "refused asts compiled e \<longleftrightarrow>
     (\<exists>j. j < length asts \<and> e = cyclic_error (ast_name (asts ! j)) \<and> (j, j) \<in> (import_graph asts)\<^sup>+)
     \<or> (\<exists>a \<in> set asts. \<exists>d \<in> set (ast_imports a). e = missing_error d
          \<and> d \<notin> ast_name ` set asts \<and> d \<notin> set compiled)"

definition may_visit :: "ast list \<Rightarrow> nat \<Rightarrow> visitor \<Rightarrow> bool" where
  "may_visit asts i v \<longleftrightarrow>
     i < length asts \<and> i \<notin> set (vstack v)
     \<and> (vstack v \<noteq> [] \<longrightarrow> imports_module asts (last (vstack v)) i)"

text \<open>
  The interface between the two overloads of \<^verbatim>\<open>visit\<close>: what \<open>visit_name\<close> relies on when it calls
  \<^verbatim>\<open>visit(index)\<close> with fewer than \<open>n\<close> modules unvisited.
\<close>

locale index_visitor =
  fixes asts :: "ast list" and compiled :: "name list" and n :: nat
    and vi :: "nat \<Rightarrow> visitor \<Rightarrow> visitor res"
  assumes visit_contract:
    "visitor_ok asts compiled v \<Longrightarrow> may_visit asts i v \<Longrightarrow> unvisited v < n \<Longrightarrow>
      (case vi i v of
         Inl e \<Rightarrow> refused asts compiled e
       | Inr v' \<Rightarrow> extends asts compiled v v' \<and> i \<in> set (order v'))"
begin

lemma visit_dependency:
  assumes ok: "visitor_ok asts compiled v" and n: "unvisited v < n"
    and st: "vstack v \<noteq> []" "last (vstack v) < length asts"
    and d: "d \<in> set (ast_imports (asts ! last (vstack v)))"
  shows "case visit_name vi asts compiled d v of
      Inl e \<Rightarrow> refused asts compiled e
    | Inr v' \<Rightarrow> extends asts compiled v v'
        \<and> (case find_module asts d of Some j \<Rightarrow> j \<in> set (order v') | None \<Rightarrow> d \<in> set compiled)"
proof (cases "find_module asts d")
  case None
  have "refused asts compiled (missing_error d)" if "d \<notin> set compiled"
    using None that d st(2) by (auto simp: refused_def find_module_None)
  then show ?thesis using None ok by (auto simp: visit_name_def extends_def)
next
  case (Some j)
  note j = find_module_Some [OF Some]
  have edge: "imports_module asts (last (vstack v)) j"
    using d st Some by (auto simp: imports_module_def)
  show ?thesis
  proof (cases "j \<in> set (vstack v)")
    case True
    have "(j, j) \<in> (import_graph asts)\<^sup>+"
      by (rule stack_cycle [OF _ True edge]) (use ok in \<open>simp add: visitor_ok_def\<close>)
    then show ?thesis using Some True j by (auto simp: visit_name_def checkCycle_def refused_def)
  next
    case False
    then have "may_visit asts j v" using j edge by (simp add: may_visit_def)
    from visit_contract [OF ok this n] show ?thesis
      using Some False by (auto simp: visit_name_def checkCycle_def split: sum.splits)
  qed
qed

lemma visit_dependencies:
  assumes ok: "visitor_ok asts compiled v" and n: "unvisited v < n"
    and st: "vstack v \<noteq> []" "last (vstack v) < length asts"
  shows "case foldE (visit_name vi asts compiled) (ast_imports (asts ! last (vstack v))) v of
      Inl e \<Rightarrow> refused asts compiled e
    | Inr v' \<Rightarrow> extends asts compiled v v' \<and> imports_done asts compiled (order v') (last (vstack v))"
proof -
  let ?ds = "ast_imports (asts ! last (vstack v))"
  let ?found = "\<lambda>w d. case find_module asts d of Some j \<Rightarrow> j \<in> set (order w) | None \<Rightarrow> d \<in> set compiled"
  have "case foldE (visit_name vi asts compiled) ?ds v of
      Inl e \<Rightarrow> refused asts compiled e
    | Inr v' \<Rightarrow> extends asts compiled v v' \<and> (\<forall>d \<in> set ?ds. ?found v' d)"
  proof (rule foldE_rule [where P = "\<lambda>ds w. extends asts compiled v w \<and> (\<forall>d \<in> set ds. ?found w d)"])
    show "extends asts compiled v v \<and> (\<forall>d \<in> set []. ?found v d)"
      using ok by (simp add: extends_def)
  next
    fix ys d zs w
    assume ds: "?ds = ys @ d # zs" and w: "extends asts compiled v w \<and> (\<forall>d \<in> set ys. ?found w d)"
    then have d: "d \<in> set ?ds" by simp
    have step: "case visit_name vi asts compiled d w of
        Inl e \<Rightarrow> refused asts compiled e
      | Inr w' \<Rightarrow> extends asts compiled w w' \<and> ?found w' d"
      using visit_dependency [of w d] w n st d by (auto simp: extends_def)
    have keep: "?found w' d'" if "extends asts compiled w w'" "?found w d'" for w' d'
      using that by (auto simp: extends_def dest: set_mono_prefix split: option.splits)
    show "case visit_name vi asts compiled d w of
        Inl e \<Rightarrow> refused asts compiled e
      | Inr w' \<Rightarrow> extends asts compiled v w' \<and> (\<forall>d \<in> set (ys @ [d]). ?found w' d)"
    proof (cases "visit_name vi asts compiled d w")
      case (Inr w')
      then have w': "extends asts compiled w w'" "?found w' d" using step by simp_all
      then have "extends asts compiled v w'" using w by (auto simp: extends_def)
      with w' w keep show ?thesis using Inr by auto
    qed (use step in simp)
  qed
  then show ?thesis unfolding imports_done_def .
qed

end

lemma unvisited_mark:
  assumes "i < length (visited v)" and "\<not> visited v ! i"
  shows "Suc (length (filter Not ((visited v)[i := True]))) = unvisited v"
proof -
  have v: "visited v = take i (visited v) @ False # drop (Suc i) (visited v)"
    using id_take_nth_drop [OF assms(1)] assms(2) by simp
  have "(visited v)[i := True] = take i (visited v) @ True # drop (Suc i) (visited v)"
    using assms(1) by (simp add: upd_conv_take_nth_drop)
  then show ?thesis unfolding unvisited_def by (subst (2) v) simp
qed

text \<open>Marking a module and pushing it keeps the invariant.\<close>

lemma visitor_ok_push:
  assumes ok: "visitor_ok asts c v" and i: "may_visit asts i v" and new: "\<not> visited v ! i"
  shows "visitor_ok asts c (v\<lparr>visited := (visited v)[i := True], vstack := vstack v @ [i]\<rparr>)"
proof -
  have fresh: "i \<notin> set (order v @ vstack v)" using ok new by (auto simp: visitor_ok_def)
  have "successively (imports_module asts) (vstack v @ [i])"
    using ok i by (auto simp: visitor_ok_def may_visit_def successively_append_iff)
  moreover have "{k. k < length asts \<and> (visited v)[i := True] ! k}
      = insert i {k. k < length asts \<and> visited v ! k}"
    using ok i by (auto simp: visitor_ok_def may_visit_def nth_list_update)
  ultimately show ?thesis using ok fresh by (auto simp: visitor_ok_def)
qed

text \<open>Popping it and putting it behind the modules it imports does too.\<close>

lemma visitor_ok_pop:
  assumes ok: "visitor_ok asts c w" and st: "vstack w = st @ [i]"
    and "imports_done asts c (order w) i"
  shows "visitor_ok asts c (w\<lparr>vstack := st, order := order w @ [i]\<rparr>)"
  using assms by (auto simp: visitor_ok_def topological_snoc successively_append_iff)

lemma visit_index_Suc:
  assumes "index_visitor asts c n (visit_index n asts c)"
  shows "index_visitor asts c (Suc n) (visit_index (Suc n) asts c)"
proof
  fix v i
  assume ok: "visitor_ok asts c v" and i: "may_visit asts i v" and n: "unvisited v < Suc n"
  let ?v = "v\<lparr>visited := (visited v)[i := True], vstack := vstack v @ [i]\<rparr>"
  let ?deps = "foldE (visit_name (visit_index n asts c) asts c) (ast_imports (asts ! i)) ?v"
  show "case visit_index (Suc n) asts c i v of
      Inl e \<Rightarrow> refused asts c e
    | Inr v' \<Rightarrow> extends asts c v v' \<and> i \<in> set (order v')"
  proof (cases "visited v ! i")
    case True
    then have "i \<in> set (order v)" using ok i by (auto simp: visitor_ok_def may_visit_def)
    then show ?thesis using ok True by (simp add: extends_def)
  next
    case False
    have marked: "Suc (unvisited ?v) = unvisited v"
      using unvisited_mark [of i v] False ok i
      by (simp add: unvisited_def visitor_ok_def may_visit_def)
    have deps: "case ?deps of
        Inl e \<Rightarrow> refused asts c e
      | Inr w \<Rightarrow> extends asts c ?v w \<and> imports_done asts c (order w) i"
      using index_visitor.visit_dependencies [OF assms visitor_ok_push [OF ok i False]] marked n i
      by (simp add: may_visit_def split: sum.splits)
    show ?thesis
    proof (cases ?deps)
      case (Inr w)
      then have w: "extends asts c ?v w" "imports_done asts c (order w) i" using deps by simp_all
      then have st: "vstack w = vstack v @ [i]" by (simp add: extends_def)
      have "visitor_ok asts c (w\<lparr>vstack := vstack v, order := order w @ [i]\<rparr>)"
        by (rule visitor_ok_pop [OF _ st w(2)]) (use w(1) in \<open>simp add: extends_def\<close>)
      moreover have "prefix (order v) (order w)" "unvisited w < unvisited v"
        using w(1) marked by (simp_all add: extends_def)
      ultimately show ?thesis using False Inr st by (simp add: extends_def unvisited_def)
    qed (use False deps in simp)
  qed
qed

lemma visit_index_visitor: "index_visitor asts c n (visit_index n asts c)"
proof (induction n)
  case 0
  show ?case by unfold_locales simp
next
  case (Suc n)
  then show ?case by (rule visit_index_Suc)
qed

interpretation dfs: index_visitor asts compiled n "visit_index n asts compiled"
  for asts compiled n
  by (rule visit_index_visitor)

lemma Visitor_ok: "visitor_ok asts c (Visitor asts)"
  by (auto simp: visitor_ok_def Visitor_def)

lemma unvisited_bound: "visitor_ok asts c v \<Longrightarrow> unvisited v < Suc (length asts)"
  by (metis length_filter_le less_Suc_eq_le unvisited_def visitor_ok_def)

lemma visit_all_result:
  "case visit_all asts c (Visitor asts) of
     Inl e \<Rightarrow> refused asts c e
   | Inr v \<Rightarrow> visitor_ok asts c v \<and> vstack v = [] \<and> set (order v) = {..<length asts}"
proof -
  have "case visit_all asts c (Visitor asts) of
      Inl e \<Rightarrow> refused asts c e
    | Inr v \<Rightarrow> visitor_ok asts c v \<and> vstack v = [] \<and> set [0..<length asts] \<subseteq> set (order v)"
    unfolding visit_all_def
  proof (rule foldE_rule [where P = "\<lambda>ds v. visitor_ok asts c v \<and> vstack v = [] \<and> set ds \<subseteq> set (order v)"])
    show "visitor_ok asts c (Visitor asts) \<and> vstack (Visitor asts) = [] \<and> set [] \<subseteq> set (order (Visitor asts))"
      by (simp add: Visitor_ok) (simp add: Visitor_def)
  next
    fix ys i zs v
    assume idx: "[0..<length asts] = ys @ i # zs"
      and v: "visitor_ok asts c v \<and> vstack v = [] \<and> set ys \<subseteq> set (order v)"
    have "i \<in> set [0..<length asts]" unfolding idx by simp
    then have "may_visit asts i v" using v by (simp add: may_visit_def)
    then have step: "case visit_index (Suc (length asts)) asts c i v of
        Inl e \<Rightarrow> refused asts c e
      | Inr v' \<Rightarrow> extends asts c v v' \<and> i \<in> set (order v')"
      using dfs.visit_contract v unvisited_bound by blast
    show "case visit_index (Suc (length asts)) asts c i v of
        Inl e \<Rightarrow> refused asts c e
      | Inr v' \<Rightarrow> visitor_ok asts c v' \<and> vstack v' = [] \<and> set (ys @ [i]) \<subseteq> set (order v')"
    proof (cases "visit_index (Suc (length asts)) asts c i v")
      case (Inr v')
      then have "extends asts c v v'" "i \<in> set (order v')" using step by simp_all
      then show ?thesis using v Inr by (auto simp: extends_def dest: set_mono_prefix)
    qed (use step in simp)
  qed
  then show ?thesis
    by (auto simp: visitor_ok_def split: sum.splits)
qed

text \<open>A topological order of all modules rules out cycles.\<close>

lemma topological_acyclic:
  assumes topo: "topological asts c ord" and all: "set ord = {..<length asts}" and "distinct ord"
  shows "acyclic (import_graph asts)"
proof -
  have before: "\<exists>xs ys zs. ord = xs @ j # ys @ i # zs" if edge: "(i, j) \<in> import_graph asts" for i j
  proof -
    have "i \<in> set ord" using edge all by (simp add: import_graph_def imports_module_def)
    then obtain xs zs where ord: "ord = xs @ i # zs" by (meson split_list)
    then have "j \<in> set xs"
      using topo edge by (force simp: topological_def import_graph_def imports_module_def imports_done_def)
    then show ?thesis using ord by (metis append.assoc append_Cons split_list)
  qed
  define pos where "pos i = length (takeWhile (\<lambda>k. k \<noteq> i) ord)" for i
  have "pos j < pos i" if edge: "(i, j) \<in> import_graph asts" for i j
  proof -
    obtain xs ys zs where ord: "ord = xs @ j # ys @ i # zs" using before [OF edge] by blast
    then have "i \<notin> set xs" "j \<notin> set xs" "i \<noteq> j" "i \<notin> set ys" using assms(3) by auto
    then show ?thesis unfolding pos_def ord by (auto simp: takeWhile_append)
  qed
  then have "(import_graph asts)\<inverse> \<subseteq> measure pos" by auto
  then have "wf ((import_graph asts)\<inverse>)" using wf_subset wf_measure by blast
  then show ?thesis using wf_acyclic acyclic_converse by blast
qed

lemma topological_resolved:
  assumes "topological asts c ord" and "set ord = {..<length asts}"
  shows "resolved asts c"
  unfolding resolved_def
proof (intro ballI)
  fix a d assume a: "a \<in> set asts" and d: "d \<in> set (ast_imports a)"
  obtain i where i: "i < length asts" "asts ! i = a" using a by (auto simp: in_set_conv_nth)
  then obtain xs zs where "ord = xs @ i # zs" using assms(2) by (metis lessThan_iff split_list)
  then have "imports_done asts c xs i" using assms(1) by (auto simp: topological_def)
  then have "case find_module asts d of Some j \<Rightarrow> j \<in> set xs | None \<Rightarrow> d \<in> set c"
    using d i(2) by (simp add: imports_done_def)
  then show "d \<in> ast_name ` set asts \<or> d \<in> set c"
    by (cases "find_module asts d") (auto dest!: find_module_Some)
qed

lemma refused_reason:
  "refused asts c e \<Longrightarrow> \<not> acyclic (import_graph asts) \<or> \<not> resolved asts c"
  by (auto simp: refused_def acyclic_def resolved_def)

subsection \<open>What \<^verbatim>\<open>findModuleOrder\<close> promises\<close>

text \<open>
  C3: when an order is returned, it lists every module exactly once, and every import of a module is
  either one of the modules listed before it or a module that was compiled earlier.
\<close>

theorem findModuleOrder_order:
  assumes "findModuleOrder asts compiled = Inr ord"
  shows "distinct ord \<and> set ord = {..<length asts}
    \<and> (\<forall>xs i ys. ord = xs @ i # ys \<longrightarrow>
         (\<forall>d \<in> set (ast_imports (asts ! i)).
            d \<in> set compiled \<or> (\<exists>j \<in> set xs. ast_name (asts ! j) = d)))"
proof -
  obtain v where v: "visit_all asts compiled (Visitor asts) = Inr v" "ord = order v"
    using assms by (auto simp: findModuleOrder_def)
  then have ok: "visitor_ok asts compiled v" "set ord = {..<length asts}"
    using visit_all_result [of asts compiled] by simp_all
  have "d \<in> set compiled \<or> (\<exists>j \<in> set xs. ast_name (asts ! j) = d)"
    if "ord = xs @ i # ys" "d \<in> set (ast_imports (asts ! i))" for xs i ys d
  proof -
    have "imports_done asts compiled xs i"
      using ok(1) that(1) v(2) by (auto simp: visitor_ok_def topological_def)
    then have "case find_module asts d of Some j \<Rightarrow> j \<in> set xs | None \<Rightarrow> d \<in> set compiled"
      using that(2) by (simp add: imports_done_def)
    then show ?thesis by (cases "find_module asts d") (auto dest: find_module_Some)
  qed
  then show ?thesis using ok v(2) by (auto simp: visitor_ok_def)
qed

theorem findModuleOrder_order_witness:
  "findModuleOrder
     [\<lparr>ast_global = [], ast_name = ''app'', ast_imports = [''util'', ''std'']\<rparr>,
      \<lparr>ast_global = [], ast_name = ''util'', ast_imports = [''std'']\<rparr>] [''std''] = Inr [1, 0]
   \<and> distinct [1, 0 :: nat] \<and> set [1, 0] = {..<2 :: nat}"
proof -
  let ?asts = "[\<lparr>ast_global = [], ast_name = ''app'', ast_imports = [''util'', ''std'']\<rparr>,
      \<lparr>ast_global = [], ast_name = ''util'', ast_imports = [''std'']\<rparr>]"
  have eq: "findModuleOrder ?asts [''std''] = Inr [1, 0]" by code_simp
  show ?thesis using findModuleOrder_order [OF eq] eq by simp
qed

text \<open>
  C17: an order is found exactly when no two modules have the same name, every import is a module or
  compiled, and the imports have no cycle. In particular the search always ends.
\<close>

theorem findModuleOrder_complete:
  "(\<exists>ord. findModuleOrder asts compiled = Inr ord) \<longleftrightarrow>
     distinct (map ast_name asts @ compiled) \<and> resolved asts compiled \<and> acyclic (import_graph asts)"
proof -
  have ok: "(\<exists>v. visit_all asts compiled (Visitor asts) = Inr v) \<longleftrightarrow>
      resolved asts compiled \<and> acyclic (import_graph asts)"
  proof (cases "visit_all asts compiled (Visitor asts)")
    case (Inl e)
    then show ?thesis using visit_all_result [of asts compiled] refused_reason by auto
  next
    case (Inr v)
    then have v: "visitor_ok asts compiled v" "set (order v) = {..<length asts}"
      using visit_all_result [of asts compiled] by simp_all
    then have topo: "topological asts compiled (order v)" "distinct (order v)"
      by (simp_all add: visitor_ok_def)
    show ?thesis
      using Inr topological_resolved [OF topo(1) v(2)] topological_acyclic [OF topo(1) v(2) topo(2)]
      by simp
  qed
  have "(\<exists>ord. findModuleOrder asts compiled = Inr ord) \<longleftrightarrow>
      checkDuplicateModules asts compiled = Inr () \<and> (\<exists>v. visit_all asts compiled (Visitor asts) = Inr v)"
    by (auto simp: findModuleOrder_def)
  then show ?thesis unfolding ok checkDuplicateModules_ok .
qed

text \<open>
  C23: every error names its reason: a name that occurs twice, a module that imports itself through
  others, or an import that is nowhere.
\<close>

theorem findModuleOrder_errors:
  assumes "findModuleOrder asts compiled = Inl e"
  shows "(\<exists>n. e = duplicate_error n \<and> 2 \<le> length (filter ((=) n) (map ast_name asts @ compiled)))
    \<or> (\<exists>j. j < length asts \<and> e = cyclic_error (ast_name (asts ! j)) \<and> (j, j) \<in> (import_graph asts)\<^sup>+)
    \<or> (\<exists>a \<in> set asts. \<exists>d \<in> set (ast_imports a). e = missing_error d
         \<and> d \<notin> ast_name ` set asts \<and> d \<notin> set compiled)"
proof (cases "checkDuplicateModules asts compiled")
  case (Inl e')
  then show ?thesis
    using assms checkDuplicateModules_error [OF Inl] by (simp add: findModuleOrder_def)
next
  case (Inr u)
  then have "visit_all asts compiled (Visitor asts) = Inl e"
    using assms by (auto simp: findModuleOrder_def bindE_Inl_iff)
  then have "refused asts compiled e" using visit_all_result [of asts compiled] by simp
  then show ?thesis unfolding refused_def by blast
qed

theorem findModuleOrder_errors_witness:
  "findModuleOrder
     [\<lparr>ast_global = [], ast_name = ''a'', ast_imports = [''b'']\<rparr>,
      \<lparr>ast_global = [], ast_name = ''b'', ast_imports = [''a'']\<rparr>] [] = Inl (cyclic_error ''a'')
   \<and> (\<exists>e. findModuleOrder
        [\<lparr>ast_global = [], ast_name = ''a'', ast_imports = [''b'']\<rparr>,
         \<lparr>ast_global = [], ast_name = ''b'', ast_imports = [''a'']\<rparr>] [] = Inl e
        \<and> e \<noteq> Out_of_fuel)"
proof -
  let ?asts = "[\<lparr>ast_global = [], ast_name = ''a'', ast_imports = [''b'']\<rparr>,
      \<lparr>ast_global = [], ast_name = ''b'', ast_imports = [''a'']\<rparr>]"
  have eq: "findModuleOrder ?asts [] = Inl (cyclic_error ''a'')" by code_simp
  then show ?thesis
    using findModuleOrder_errors [OF eq]
    by (auto simp: duplicate_error_def cyclic_error_def missing_error_def)
qed

end
