(* ===== verification/Literals.thy ===== *)
theory Literals
  imports Lexer
begin

section \<open>String and character literals between the lexer and the parser of escapes\<close>

text \<open>
  The lexer (\<^verbatim>\<open>parseString\<close>, \<^verbatim>\<open>parseChar\<close> of \<^verbatim>\<open>lexical analysis.cpp\<close>) decides where a quoted literal ends; the
  text between the quotes is later read by \<^verbatim>\<open>parseStringLiteral\<close> of \<^verbatim>\<open>number literal.cpp\<close>. This theory
  shows that the two agree on escapes, and that a string written with the escapes of the language is
  read esc.
\<close>

subsection \<open>No literal that was lexed fails the assertion\<close>

lemma quoted_body_ConsE:
  assumes "quoted_body q (c # w)" and "c \<noteq> CHR 0x5C"
  shows "quoted_body q w"
  using assms by (cases rule: quoted_body.cases) auto

lemma quoted_body_dropWhile:
  "quoted_body q w \<Longrightarrow> \<not> P CHR 0x5C \<Longrightarrow> quoted_body q (dropWhile P w)"
  by (induction w) (auto dest: quoted_body_ConsE)

lemma parseDigitsChar_error: "parseDigitsChar isDig b msg l s = Inl e \<Longrightarrow> e = Fatal l msg"
  by (auto simp: parseDigitsChar_def Let_def split: option.splits if_splits)

lemma not_digit_backslash [simp]: "\<not> isOctDigit CHR 0x5C" "\<not> isHexDigit CHR 0x5C"
  by (simp_all add: isOctDigit_def isHexDigit_def ctype_defs)

lemma parseStringLiteral_loop_safe:
  assumes "if esc then \<exists>c w. cs = c # w \<and> quoted_body q w else quoted_body q cs"
  shows "parseStringLiteral_loop l str esc cs \<noteq> Inl (Undefined m)"
  using assms
proof (induction l str esc cs rule: parseStringLiteral_loop.induct)
  case (1 l str esc)
  then show ?case by (auto simp: parseStringLiteral_loop.simps split: if_splits)
next
  case (2 l str esc c cs)
  show ?case
  proof (cases esc)
    case False
    then have body: "quoted_body q (c # cs)" using "2.prems" by simp
    show ?thesis
    proof (cases "c = CHR 0x5C")
      case True
      have "\<exists>d w. cs = d # w \<and> quoted_body q w"
        using body unfolding True by (cases rule: quoted_body.cases) auto
      then show ?thesis
        using "2.IH"(5) [OF _ True] False True by (simp add: parseStringLiteral_loop.simps)
    next
      case c: False
      then show ?thesis
        using "2.IH"(6) [OF _ c] quoted_body_ConsE [OF body c] False
        by (simp add: parseStringLiteral_loop.simps)
    qed
  next
    case True
    then have body: "quoted_body q cs" using "2.prems" by auto
    have oct: "quoted_body q (snd p)" if "parseOctChar l (c # cs) = Inr p" "isOctDigit c" for p
      using parseDigitsChar_rest that body quoted_body_dropWhile [of q cs isOctDigit]
      by (fastforce simp: parseOctChar_def)
    have hex: "quoted_body q (snd p)" if "parseHexChar l cs = Inr p" for p
      using parseDigitsChar_rest that body quoted_body_dropWhile [of q cs isHexDigit]
      by (fastforce simp: parseHexChar_def)
    have err: "parseOctChar l s \<noteq> Inl (Undefined m)" "parseHexChar l s \<noteq> Inl (Undefined m)" for s
      by (auto simp: parseOctChar_def parseHexChar_def dest!: parseDigitsChar_error)
    show ?thesis
    proof (cases "simple_escape c")
      case (Some e)
      then show ?thesis
        using "2.IH"(4) [OF True Some] body True by (simp add: parseStringLiteral_loop.simps)
    next
      case None
      then show ?thesis
        using "2.IH"(1,2,3) [OF True None] body True oct hex err
        by (auto simp: parseStringLiteral_loop.simps bindE_Inl_iff)
    qed
  qed
qed

text \<open>\<^verbatim>\<open>remove_prefix(1)\<close> and \<^verbatim>\<open>remove_suffix(1)\<close> of \<^verbatim>\<open>parseLiteralToken\<close>.\<close>

definition trim_quotes :: "string \<Rightarrow> string" where
  "trim_quotes v = butlast (tl v)"

lemma lexed_shape:
  assumes "lexed ld past p source ts" and "t \<in> set ts"
  shows "\<exists>r. token_shape ld past (tloc t) (ttype t) (tview t) r"
  using assms by (induction rule: lexed.induct) auto

text \<open>
  C25: the text between the quotes of every string or character token can be read without running into
  the assertion of \<^verbatim>\<open>parseStringLiteral\<close> that the literal does not end in a backslash; the only errors
  left are escapes that are out of range.
\<close>

theorem lexed_literal_safe:
  assumes "tokenize ld past source = Inr ts" and "length source < 2 ^ 32"
    and "t \<in> set ts" and "ttype t \<in> {T_string, T_character}"
  shows "parseStringLiteral (trim_quotes (tview t)) l \<noteq> Inl (Undefined m)"
proof -
  have "lexed ld past line_col_init source ts"
    using tokenize_from_lexed [OF assms(1) [unfolded tokenize_def]] assms(2) by (simp add: ParseString_def)
  then obtain r where "token_shape ld past (tloc t) (ttype t) (tview t) r"
    using lexed_shape assms(3) by blast
  then obtain q w where "tview t = q # w @ [q]" "quoted_body q w" using assms(4) by auto
  then show ?thesis
    unfolding parseStringLiteral_def
    by (intro parseStringLiteral_loop_safe [where q = q]) (simp add: trim_quotes_def)
qed

theorem lexed_literal_safe_witness:
  "parseStringLiteral (trim_quotes ([CHR 0x22] @ ''a'' @ [CHR 0x5C, CHR 0x5C] @ [CHR 0x22])) no_loc
     \<noteq> Inl (Undefined ''assertion: literal ends in a backslash'')"
proof -
  let ?t = "[CHR 0x22] @ ''a'' @ [CHR 0x5C, CHR 0x5C] @ [CHR 0x22]"
  have lx: "tokenize \<lparr>prec = 53, emin = -1022, emax = 1023\<rparr> CHR 0x00 ?t
      = Inr [\<lparr>tview = ?t, tloc = Loc 1 1, ttype = T_string\<rparr>]"
    by code_simp
  show ?thesis
    using lexed_literal_safe [OF lx, of "\<lparr>tview = ?t, tloc = Loc 1 1, ttype = T_string\<rparr>"] by simp
qed

subsection \<open>Writing and reading back\<close>

text \<open>A way to write a character inside a literal with the escapes of the language.\<close>

definition escape_char :: "char \<Rightarrow> string" where
  "escape_char c =
     (if c = CHR 0x22 \<or> c = CHR 0x27 \<or> c = CHR 0x5C then [CHR 0x5C, c]
      else if c = CHR 0x0A then [CHR 0x5C, CHR ''n'']
      else if c = CHR 0x09 then [CHR 0x5C, CHR ''t'']
      else if c = CHR 0x0D then [CHR 0x5C, CHR ''r'']
      else [c])"

definition escape :: "string \<Rightarrow> string" where
  "escape s = concat (map escape_char s)"

lemma escape_Cons [simp]: "escape (c # s) = escape_char c @ escape s"
  by (simp add: escape_def)

lemma escape_Nil [simp]: "escape [] = []"
  by (simp add: escape_def)

lemma quoted_body_escape: "q \<in> {CHR 0x22, CHR 0x27} \<Longrightarrow> quoted_body q (escape s)"
  by (induction s) (auto simp: escape_char_def intro: quoted_body.intros)

lemma parseStringLiteral_loop_escape:
  "parseStringLiteral_loop l str False (escape s @ cs) = parseStringLiteral_loop l (str @ s) False cs"
  by (induction s arbitrary: str) (auto simp: escape_char_def simple_escape_def parseStringLiteral_loop.simps)

lemma quoted_loop_step:
  assumes "beg s = c # w" and "c \<noteq> CHR 0x0A" and "c \<noteq> CHR 0x5C" and "c \<noteq> q"
  shows "quoted_loop q msg s = quoted_loop q msg (advanceNoCheck 1 s)"
proof -
  have "skipUntil (\<lambda>c. c = CHR 0x0A \<or> c = CHR 0x5C \<or> c = q) s
      = skipUntil (\<lambda>c. c = CHR 0x0A \<or> c = CHR 0x5C \<or> c = q) (advanceNoCheck 1 s)"
    unfolding skipUntil_def by (subst skip.simps) (use assms in simp)
  then show ?thesis by (simp only: quoted_loop.simps)
qed

lemma quoted_loop_reads:
  assumes "quoted_body q w" and "beg s = w @ q # r" and "q \<noteq> CHR 0x5C"
  shows "\<exists>s'. quoted_loop q msg s = Inr s' \<and> beg s' = r"
  using assms
proof (induction arbitrary: s rule: quoted_body.induct)
  case (body_nil q)
  have "skipUntil (\<lambda>c. c = CHR 0x0A \<or> c = CHR 0x5C \<or> c = q) s = s"
    unfolding skipUntil_def by (subst skip.simps) (use body_nil in simp)
  then show ?case
    using body_nil by (subst quoted_loop.simps) (simp add: check_char_def advanceNoCheck_def)
next
  case (body_char c q w)
  have "beg (advanceNoCheck 1 s) = w @ q # r" using body_char.prems by (simp add: advanceNoCheck_def)
  from body_char.IH [OF this body_char.prems(2)] show ?case
    using quoted_loop_step [of s c] body_char by simp
next
  case (body_escape q w c)
  have sk: "skipUntil (\<lambda>c. c = CHR 0x0A \<or> c = CHR 0x5C \<or> c = q) s = s"
    unfolding skipUntil_def by (subst skip.simps) (use body_escape.prems in simp)
  have "beg (advanceNoCheck 1 (advanceNoCheck 1 s)) = w @ q # r"
    using body_escape.prems by (simp add: advanceNoCheck_def)
  from body_escape.IH [OF this body_escape.prems(2)] show ?case
    using body_escape.prems sk
    by (subst quoted_loop.simps) (auto simp: check_char_def advance_def advanceNoCheck_def)
qed

text \<open>A quote starts no comment, keyword, number, operator or identifier.\<close>

lemma quote_scans:
  assumes "q \<in> {CHR 0x22, CHR 0x27}"
  shows "scan_sign (q # w) = (False, 0)" and "\<not> hex_prefix (q # w)"
    and "digit_of q = 99" and "c_tolower q = q" and "q \<noteq> CHR 0x00"
    and "\<not> startIdent q" and "\<not> c_isspace q"
  using assms
  by (auto simp: scan_sign_def hex_prefix_def digit_of_def c_tolower_def startIdent_def ctype_defs)

lemma quote_scan_int:
  assumes "q \<in> {CHR 0x22, CHR 0x27}" and "b \<in> {0, 8, 10, 16}"
  shows "scan_int b (q # w) = None"
proof -
  have "q \<noteq> CHR ''0''" using assms(1) by auto
  then show ?thesis
    using assms(2) by (auto simp: scan_int_def quote_scans [OF assms(1)] int_base_def)
qed

lemma quote_scan_real:
  assumes "q \<in> {CHR 0x22, CHR 0x27}"
  shows "scan_real (q # w) = None"
proof -
  have q: "digit_of q = 99" "q \<noteq> CHR ''.''" "q \<noteq> CHR ''i''" "q \<noteq> CHR ''n''"
    using quote_scans(3) [OF assms] assms by auto
  then have "scan_mantissa 10 ''eE'' (q # w) = None" by (simp add: scan_mantissa_def)
  then show ?thesis
    using q by (simp add: scan_real_def quote_scans [OF assms] Let_def)
qed

lemma quote_no_number:
  assumes "q \<in> {CHR 0x22, CHR 0x27}"
  shows "validNumberLiteral ld past (q # w) l = Inr 0"
proof -
  have n: "nullTerm (q # w) = q # takeWhile (\<lambda>c. c \<noteq> CHR 0x00) (take 31 w)"
    using quote_scans(5) [OF assms] by (simp add: nullTerm_def)
  show ?thesis
    by (simp add: validNumberLiteral_def from_chars_real_def from_chars_unsigned_def
        from_chars_signed_def strtold_def strtoll_def strtoull_def n
        quote_scan_int [OF assms] quote_scan_real [OF assms])
qed

lemma quote_no_prefix:
  assumes "q \<in> {CHR 0x22, CHR 0x27}" and "n \<in> set (stela_keywords @ oper @ [''//'', ''/*''])"
  shows "\<not> prefix n (q # w)"
  using assms by (auto simp: stela_keywords_def oper_def)

lemma quote_no_other:
  assumes "q \<in> {CHR 0x22, CHR 0x27}" and s: "beg s = q # w"
  shows "parseKeyword s = None" and "parseOper s = None" and "parseIdent s = None"
    and "parseLineComment s = None" and "parseMultiComment s = Inr None"
    and "parseNumber ld past s = Inr None"
proof -
  note no = quote_no_prefix [OF assms(1)]
  show "parseKeyword s = None"
  proof (rule ccontr)
    assume "parseKeyword s \<noteq> None"
    then obtain s' where "parseKeyword s = Some s'" by auto
    then obtain kw where "kw \<in> set stela_keywords" "beg s = kw @ beg s'" by (rule parseKeyword_cases)
    then show False using no [of kw w] s by (auto simp: prefix_def)
  qed
  show "parseOper s = None"
  proof (rule ccontr)
    assume "parseOper s \<noteq> None"
    then obtain s' where "parseOper s = Some s'" by auto
    then obtain xs op ys where "oper = xs @ op # ys" "check_str op s = (True, s')"
      by (rule parseOper_cases)
    then have "op \<in> set oper" "beg s = op @ beg s'"
      by (metis in_set_conv_decomp, metis check_str_True)
    then show False using no [of op w] s by (auto simp: prefix_def)
  qed
  show "parseIdent s = None"
    using quote_scans(6) [OF assms(1)] s by (simp add: parseIdent_def check_pred_def)
  have "check_str n s = (False, s)" if "n \<in> {''//'', ''/*''}" for n
  proof -
    have "\<not> fst (check_str n s)" using no [of n w] that s by (auto simp: check_str_iff)
    then show ?thesis using check_str_False [of n s "snd (check_str n s)"]
      by (cases "check_str n s") auto
  qed
  then show "parseLineComment s = None" "parseMultiComment s = Inr None"
    by (simp_all add: parseLineComment_def parseMultiComment_def)
  show "parseNumber ld past s = Inr None"
    using quote_no_number [OF assms(1)] s by (simp add: parseNumber_def view_def)
qed

lemma endViewing_beg: "beg s = w @ beg s' \<Longrightarrow> endViewing (beginViewing s) s' = w"
  by (simp add: endViewing_def beginViewing_def)

lemma next_token_string:
  assumes "quoted_body CHR 0x22 w" and "beg s = CHR 0x22 # w @ CHR 0x22 # r"
  shows "\<exists>s'. next_token ld past s = Inr (Some T_string, s') \<and> beg s' = r"
proof -
  have "check_char CHR 0x22 s = (True, advanceNoCheck 1 s)" using assms(2) by (simp add: check_char_def)
  moreover have "beg (advanceNoCheck 1 s) = w @ CHR 0x22 # r" using assms(2) by (simp add: advanceNoCheck_def)
  then obtain s' where "quoted_loop CHR 0x22 ''Unterminated string literal'' (advanceNoCheck 1 s) = Inr s'"
    "beg s' = r"
    using quoted_loop_reads [OF assms(1)] by fastforce
  ultimately show ?thesis
    using quote_no_other [OF _ assms(2)] by (simp add: next_token_def parseString_def)
qed

text \<open>
  C19: any string can be written as a literal. With quotes around its escaped form the lexer finds one
  string token, whose trimmed text is read back as the string.
\<close>

theorem string_literal_roundtrip:
  "\<exists>t. tokenize ld past (CHR 0x22 # escape s @ [CHR 0x22]) = Inr [t] \<and> ttype t = T_string
     \<and> parseStringLiteral (trim_quotes (tview t)) l = Inr s"
proof -
  let ?src = "CHR 0x22 # escape s @ [CHR 0x22]"
  let ?p = "ParseString ?src"
  have beg: "beg ?p = CHR 0x22 # escape s @ CHR 0x22 # []" by (simp add: ParseString_def)
  obtain s' where s': "next_token ld past ?p = Inr (Some T_string, s')" "beg s' = []"
    using next_token_string [OF quoted_body_escape beg] by auto
  have v: "endViewing (beginViewing ?p) s' = ?src" by (rule endViewing_beg) (simp add: beg s'(2))
  have ws: "skipWhitespace ?p = ?p" "skipWhitespace s' = s'"
    unfolding skipWhitespace_def using quote_scans(7) [of "CHR 0x22"] beg s'(2)
    by (simp_all add: skip.simps [of _ ?p] skip.simps [of _ s'])
  have "tokenize ld past ?src = Inr [\<lparr>tview = ?src, tloc = loc_of (lineCol ?p), ttype = T_string\<rparr>]"
    unfolding tokenize_def
    by (subst tokenize_from.simps, subst tokenize_from.simps)
      (simp add: ws s' v beg empty_str_def)
  moreover have "parseStringLiteral (trim_quotes ?src) l = Inr s"
    using parseStringLiteral_loop_escape [of l "[]" s "[]"]
    by (simp add: parseStringLiteral_def trim_quotes_def parseStringLiteral_loop.simps)
  ultimately show ?thesis by auto
qed

end
