(* ===== verification/Error_State.thy ===== *)
theory Error_State
  imports Prelude
begin

section \<open>Steps that change a state and may fail\<close>

text \<open>
  The sequencing of steps that read and change a state of any type and may end in an error, for the
  components whose functions share a mutable context.
\<close>

type_synonym ('s, 'a) se = "'s \<Rightarrow> ('a \<times> 's) res"

definition retS :: "'a \<Rightarrow> ('s, 'a) se" where
  "retS x s = Inr (x, s)"

definition failS :: "error \<Rightarrow> ('s, 'a) se" where
  "failS e s = Inl e"

definition bindS :: "('s, 'a) se \<Rightarrow> ('a \<Rightarrow> ('s, 'b) se) \<Rightarrow> ('s, 'b) se" where
  "bindS p f s = bindE (p s) (\<lambda>(x, s'). f x s')"

definition liftE :: "'a res \<Rightarrow> ('s, 'a) se" where
  "liftE r s = bindE r (\<lambda>x. Inr (x, s))"

definition getS :: "('s \<Rightarrow> 'a) \<Rightarrow> ('s, 'a) se" where
  "getS f s = Inr (f s, s)"

definition modS :: "('s \<Rightarrow> 's) \<Rightarrow> ('s, unit) se" where
  "modS f s = Inr ((), f s)"

fun mapS :: "('a \<Rightarrow> ('s, 'b) se) \<Rightarrow> 'a list \<Rightarrow> ('s, 'b list) se" where
  "mapS f [] = retS []"
| "mapS f (x # xs) = bindS (f x) (\<lambda>y. bindS (mapS f xs) (\<lambda>ys. retS (y # ys)))"

lemma mapS_cong [fundef_cong]:
  "xs = ys \<Longrightarrow> (\<And>x. x \<in> set ys \<Longrightarrow> f x = g x) \<Longrightarrow> mapS f xs = mapS g ys"
  by (induction ys arbitrary: xs) auto

lemma bindS_Inr [simp]: "bindS p f s = Inr (y, t) \<longleftrightarrow> (\<exists>x s'. p s = Inr (x, s') \<and> f x s' = Inr (y, t))"
  by (auto simp: bindS_def)

lemma bindS_Inl: "bindS p f s = Inl e \<longleftrightarrow> p s = Inl e \<or> (\<exists>x s'. p s = Inr (x, s') \<and> f x s' = Inl e)"
  by (auto simp: bindS_def bindE_Inl_iff)

lemma step_simps [simp]:
  "retS x s = Inr (y, t) \<longleftrightarrow> y = x \<and> t = s"
  "retS x s \<noteq> Inl e"
  "failS e s = Inl e' \<longleftrightarrow> e' = e"
  "failS e s \<noteq> Inr x'"
  "getS f s = Inr (y, t) \<longleftrightarrow> y = f s \<and> t = s"
  "getS f s \<noteq> Inl e"
  "modS g s = Inr (u, t) \<longleftrightarrow> t = g s"
  "modS g s \<noteq> Inl e"
  "liftE r s = Inr (y, t) \<longleftrightarrow> r = Inr y \<and> t = s"
  "liftE r s = Inl e \<longleftrightarrow> r = Inl e"
  by (auto simp: retS_def failS_def getS_def modS_def liftE_def bindE_Inl_iff)

end
