(* ===== verification/Sem_Types.thy ===== *)
theory Sem_Types
  imports Format
begin

section \<open>Types in the semantic phase\<close>

text \<open>
  The parts of the semantic phase that work on types alone: the aliases of \<^verbatim>\<open>scope lookup.cpp\<close>, the
  comparison of \<^verbatim>\<open>compare types.cpp\<close>, the types of expressions of \<^verbatim>\<open>symbols.hpp\<close>, the comparison of
  parameters of \<^verbatim>\<open>compare params args.cpp\<close> and the rules for operators of \<^verbatim>\<open>builtin symbols.cpp\<close>. All of them
  run on validated types, in which every name has its definition.
\<close>

subsection \<open>Aliases\<close>

fun lookupStrongType :: "rty \<Rightarrow> rty" where
  "lookupStrongType (RNamed n strong t) = (if strong then RNamed n strong t else lookupStrongType t)"
| "lookupStrongType t = t"

fun lookupConcreteType :: "rty \<Rightarrow> rty" where
  "lookupConcreteType (RNamed n strong t) = lookupConcreteType t"
| "lookupConcreteType t = t"

text \<open>\<^verbatim>\<open>dynamic_pointer_cast\<close> to the classes of types.\<close>

fun as_btn :: "rty \<Rightarrow> BtnTypeEnum option" where
  "as_btn (RBtn b) = Some b"
| "as_btn _ = None"

fun as_array :: "rty \<Rightarrow> rty option" where
  "as_array (RArray t) = Some t"
| "as_array _ = None"

fun as_func :: "rty \<Rightarrow> ((ParamRef \<times> rty) list \<times> rty option) option" where
  "as_func (RFunc ps r) = Some (ps, r)"
| "as_func _ = None"

fun as_struct :: "rty \<Rightarrow> (name \<times> rty) list option" where
  "as_struct (RStruct fs) = Some fs"
| "as_struct _ = None"

fun as_user :: "rty \<Rightarrow> ((name \<times> rty \<times> nat) list \<times> nat \<times> nat \<times> user_ops) option" where
  "as_user (RUser fs sz al ops) = Some (fs, sz, al, ops)"
| "as_user _ = None"

text \<open>\<^verbatim>\<open>lookupConcrete<Type>(ctx, type)\<close>; a null pointer has no class.\<close>

definition concrete_btn :: "rty option \<Rightarrow> BtnTypeEnum option" where
  "concrete_btn t = Option.bind t (\<lambda>t. as_btn (lookupConcreteType t))"

definition concrete_array :: "rty option \<Rightarrow> rty option" where
  "concrete_array t = Option.bind t (\<lambda>t. as_array (lookupConcreteType t))"

definition concrete_struct :: "rty option \<Rightarrow> (name \<times> rty) list option" where
  "concrete_struct t = Option.bind t (\<lambda>t. as_struct (lookupConcreteType t))"

definition concrete_user :: "rty option \<Rightarrow> ((name \<times> rty \<times> nat) list \<times> nat \<times> nat \<times> user_ops) option" where
  "concrete_user t = Option.bind t (\<lambda>t. as_user (lookupConcreteType t))"

text \<open>The node of a validated type, for the messages that print one.\<close>

fun type_node :: "rty \<Rightarrow> ty" where
  "type_node (RBtn b) = BtnType no_loc b"
| "type_node (RArray t) = ArrayType no_loc (type_node t)"
| "type_node (RFunc ps r) = FuncType no_loc (map (\<lambda>(p, t). (p, type_node t)) ps) (map_option type_node r)"
| "type_node (RNamed n strong t) = NamedType no_loc n (Some (strong, t))"
| "type_node (RStruct fs) = StructType no_loc (map (\<lambda>(n, t). (n, type_node t, no_loc)) fs)"
| "type_node (RUser fs sz al ops) = UserType no_loc fs sz al ops"

definition typeDesc :: "rty \<Rightarrow> string" where
  "typeDesc t = plainFormatInline (format_type (type_node t))"

subsection \<open>Comparison\<close>

text \<open>
  \<open>leftVisitor\<close> and \<open>rightVisitor\<close> are the two visitors: each looks through the weak aliases of its side. A
  strong alias is compared by its name. Null pointers are equal to each other only; the test whether
  both sides are the same object needs no model, since the comparison is reflexive.
\<close>

lemma zip_sizes: "(a, b) \<in> set (zip xs ys) \<Longrightarrow> f a \<le> size_list f xs \<and> g b \<le> size_list g ys"
  by (meson order_refl set_zip_leftD set_zip_rightD size_list_estimation')

function (sequential) leftVisitor :: "rty \<Rightarrow> rty \<Rightarrow> bool"
  and rightVisitor :: "rty \<Rightarrow> rty \<Rightarrow> bool" where
  "leftVisitor (RNamed n strong t) rhs =
     (if strong then rightVisitor (RNamed n strong t) rhs else leftVisitor t rhs)"
| "leftVisitor lhs rhs = rightVisitor lhs rhs"
| "rightVisitor lhs (RNamed m strong t) =
     (if strong then (case lhs of RNamed n _ _ \<Rightarrow> n = m | _ \<Rightarrow> False) else rightVisitor lhs t)"
| "rightVisitor (RBtn a) (RBtn b) = (a = b)"
| "rightVisitor (RArray a) (RArray b) = leftVisitor a b"
| "rightVisitor (RFunc ps r) (RFunc qs q) =
     ((case (r, q) of
         (None, None) \<Rightarrow> True
       | (Some a, Some b) \<Rightarrow> leftVisitor a b
       | _ \<Rightarrow> False)
      \<and> length ps = length qs
      \<and> (\<forall>(a, b) \<in> set (zip ps qs). fst a = fst b \<and> leftVisitor (snd a) (snd b)))"
| "rightVisitor (RStruct fs) (RStruct gs) =
     (length fs = length gs
      \<and> (\<forall>(a, b) \<in> set (zip fs gs). fst a = fst b \<and> leftVisitor (snd a) (snd b)))"
| "rightVisitor (RUser fs sz al _) (RUser gs sz' al' _) =
     (sz = sz' \<and> al = al' \<and> length fs = length gs
      \<and> (\<forall>(a, b) \<in> set (zip fs gs).
            snd (snd a) = snd (snd b) \<and> fst a = fst b \<and> leftVisitor (fst (snd a)) (fst (snd b))))"
| "rightVisitor _ _ = False"
  by pat_completeness auto
termination
  by (relation "measure (\<lambda>p. case p of
        Inl (a, b) \<Rightarrow> 2 * (size a + size b) + 1 | Inr (a, b) \<Rightarrow> 2 * (size a + size b))")
    (auto dest!: zip_sizes [where f = "size_prod (\<lambda>_. 0) size" and g = "size_prod (\<lambda>_. 0) size"]
      zip_sizes [where f = "size_prod (\<lambda>_. 0) (size_prod size (\<lambda>_. 0))"
        and g = "size_prod (\<lambda>_. 0) (size_prod size (\<lambda>_. 0))"])

fun compareTypes :: "rty option \<Rightarrow> rty option \<Rightarrow> bool" where
  "compareTypes None None = True"
| "compareTypes (Some a) (Some b) = leftVisitor a b"
| "compareTypes _ _ = False"

text \<open>
  What the comparison decides. The normal form of a type replaces every weak alias by its type,
  strips a strong alias to its name, and forgets the operations of a user type.
\<close>

definition no_ctor :: user_ctor where
  "no_ctor = \<lparr>addr = user_ctor_none, ctor_name = []\<rparr>"

definition no_ops :: user_ops where
  "no_ops = \<lparr>dtor = no_ctor, defCtor = no_ctor, copCtor = no_ctor, copAsgn = no_ctor, movCtor = no_ctor,
     movAsgn = no_ctor, op_eq = no_ctor, op_lt = no_ctor, boolConv = no_ctor\<rparr>"

fun norm :: "rty \<Rightarrow> rty" where
  "norm (RBtn b) = RBtn b"
| "norm (RArray t) = RArray (norm t)"
| "norm (RFunc ps r) = RFunc (map (\<lambda>(p, t). (p, norm t)) ps) (map_option norm r)"
| "norm (RNamed n strong t) = (if strong then RNamed n True (RBtn Void) else norm t)"
| "norm (RStruct fs) = RStruct (map (\<lambda>(n, t). (n, norm t)) fs)"
| "norm (RUser fs sz al _) = RUser (map (\<lambda>(n, t, off). (n, norm t, off)) fs) sz al no_ops"

fun weak_alias :: "rty \<Rightarrow> bool" where
  "weak_alias (RNamed _ strong _) = (\<not> strong)"
| "weak_alias _ = False"

lemma map_eq_zip:
  "map f xs = map g ys \<longleftrightarrow> length xs = length ys \<and> (\<forall>(a, b) \<in> set (zip xs ys). f a = g b)"
proof (induction xs arbitrary: ys)
  case (Cons x xs)
  then show ?case by (cases ys) auto
qed auto

lemma right_named:
  "\<not> weak_alias lhs \<Longrightarrow>
     (case lhs of RNamed n _ _ \<Rightarrow> n = m | _ \<Rightarrow> False) = (norm lhs = RNamed m True (RBtn Void))"
  by (cases lhs) auto

lemma visitors_norm:
  "leftVisitor a b \<longleftrightarrow> norm a = norm b"
  "\<not> weak_alias a' \<Longrightarrow> rightVisitor a' b' \<longleftrightarrow> norm a' = norm b'"
  by (induction a b and a' b' rule: leftVisitor_rightVisitor.induct)
    (auto simp: map_eq_zip split_beta right_named split: option.splits)

lemma compareTypes_iff: "compareTypes a b \<longleftrightarrow> map_option norm a = map_option norm b"
  by (cases a; cases b) (simp_all add: visitors_norm)

lemma norm_lookup [simp]: "norm (lookupStrongType t) = norm t"
  by (induction t) auto

lemma lookupConcreteType_not_named [simp]: "lookupConcreteType t \<noteq> RNamed n s u"
  by (induction t) auto

subsection \<open>Types of expressions\<close>

datatype ValueMut = mut_let | mut_var

datatype ValueRef = ref_val | ref_ref

record expr_type =
  et_type :: "rty option"
  et_mut :: ValueMut
  et_ref :: ValueRef

definition common_mut :: "ValueMut \<Rightarrow> ValueMut \<Rightarrow> ValueMut" where
  "common_mut a b = (if a = mut_let then a else b)"

definition common_ref :: "ValueRef \<Rightarrow> ValueRef \<Rightarrow> ValueRef" where
  "common_ref a b = (if a = ref_val then a else b)"

definition fieldType :: "expr_type \<Rightarrow> rty option \<Rightarrow> expr_type" where
  "fieldType obj mem = \<lparr>et_type = mem, et_mut = et_mut obj, et_ref = et_ref obj\<rparr>"

definition makeLetVal :: "rty option \<Rightarrow> expr_type" where
  "makeLetVal type = \<lparr>et_type = type, et_mut = mut_let, et_ref = ref_val\<rparr>"

definition makeVarVal :: "rty option \<Rightarrow> expr_type" where
  "makeVarVal type = \<lparr>et_type = type, et_mut = mut_var, et_ref = ref_val\<rparr>"

definition null_type :: expr_type where
  "null_type = \<lparr>et_type = None, et_mut = mut_let, et_ref = ref_val\<rparr>"

fun mut_num :: "ValueMut \<Rightarrow> nat" where
  "mut_num mut_let = 0"
| "mut_num mut_var = 1"

definition callMut :: "ValueMut \<Rightarrow> ValueMut \<Rightarrow> bool" where
  "callMut param arg = (mut_num param \<le> mut_num arg)"

definition callMutRef :: "expr_type \<Rightarrow> expr_type \<Rightarrow> bool" where
  "callMutRef param arg = (et_ref param = ref_val \<or> callMut (et_mut param) (et_mut arg))"

subsection \<open>Parameters and arguments\<close>

definition compatParams :: "expr_type list \<Rightarrow> expr_type list \<Rightarrow> bool" where
  "compatParams params args =
     list_all2 (\<lambda>param arg. compareTypes (et_type param) (et_type arg) \<and> callMutRef param arg) params args"

definition sameParams :: "expr_type list \<Rightarrow> expr_type list \<Rightarrow> bool" where
  "sameParams params args =
     list_all2 (\<lambda>param arg. compareTypes (et_type param) (et_type arg)) params args"

lemma sameParams_iff:
  "sameParams ps qs \<longleftrightarrow> map (map_option norm \<circ> et_type) ps = map (map_option norm \<circ> et_type) qs"
  by (auto simp: sameParams_def compareTypes_iff list_all2_conv_all_nth list_eq_iff_nth_eq)

lemma compatParams_same: "compatParams ps args \<Longrightarrow> sameParams ps args"
  by (auto simp: compatParams_def sameParams_def elim: list_all2_mono)

subsection \<open>Operators on builtin types\<close>

text \<open>The enumerations are compared by their position, on which \<^verbatim>\<open>builtin symbols.cpp\<close> relies.\<close>

fun btn_num :: "BtnTypeEnum \<Rightarrow> nat" where
  "btn_num Void = 0" | "btn_num Opaq = 1" | "btn_num Bool = 2" | "btn_num Byte = 3"
| "btn_num Char = 4" | "btn_num Real = 5" | "btn_num Sint = 6" | "btn_num Uint = 7"

fun bin_num :: "BinOp \<Rightarrow> nat" where
  "bin_num bool_or = 0" | "bin_num bool_and = 1"
| "bin_num bit_or = 2" | "bin_num bit_xor = 3" | "bin_num bit_and = 4" | "bin_num bit_shl = 5"
| "bin_num bit_shr = 6"
| "bin_num eq = 7" | "bin_num ne = 8" | "bin_num lt = 9" | "bin_num le = 10" | "bin_num gt = 11"
| "bin_num ge = 12"
| "bin_num add = 13" | "bin_num sub = 14" | "bin_num mul = 15" | "bin_num div_op = 16"
| "bin_num mod_op = 17"

fun assign_num :: "AssignOp \<Rightarrow> nat" where
  "assign_num a_add = 0" | "assign_num a_sub = 1" | "assign_num a_mul = 2" | "assign_num a_div = 3"
| "assign_num a_mod = 4"
| "assign_num a_bit_or = 5" | "assign_num a_bit_xor = 6" | "assign_num a_bit_and = 7"
| "assign_num a_bit_shl = 8" | "assign_num a_bit_shr = 9"

lemma btn_num_inject: "btn_num a = btn_num b \<Longrightarrow> a = b"
  by (cases a; cases b) simp_all

lemma bin_num_inject: "bin_num a = bin_num b \<Longrightarrow> a = b"
  by (cases a; cases b) simp_all

lemma assign_num_inject: "assign_num a = assign_num b \<Longrightarrow> a = b"
  by (cases a; cases b) simp_all

instantiation BtnTypeEnum :: linorder
begin
definition less_eq_BtnTypeEnum :: "BtnTypeEnum \<Rightarrow> BtnTypeEnum \<Rightarrow> bool" where
  "less_eq_BtnTypeEnum a b = (btn_num a \<le> btn_num b)"
definition less_BtnTypeEnum :: "BtnTypeEnum \<Rightarrow> BtnTypeEnum \<Rightarrow> bool" where
  "less_BtnTypeEnum a b = (btn_num a < btn_num b)"
instance
  by standard (auto simp: less_eq_BtnTypeEnum_def less_BtnTypeEnum_def intro: btn_num_inject)
end

instantiation BinOp :: linorder
begin
definition less_eq_BinOp :: "BinOp \<Rightarrow> BinOp \<Rightarrow> bool" where
  "less_eq_BinOp a b = (bin_num a \<le> bin_num b)"
definition less_BinOp :: "BinOp \<Rightarrow> BinOp \<Rightarrow> bool" where
  "less_BinOp a b = (bin_num a < bin_num b)"
instance
  by standard (auto simp: less_eq_BinOp_def less_BinOp_def intro: bin_num_inject)
end

instantiation AssignOp :: linorder
begin
definition less_eq_AssignOp :: "AssignOp \<Rightarrow> AssignOp \<Rightarrow> bool" where
  "less_eq_AssignOp a b = (assign_num a \<le> assign_num b)"
definition less_AssignOp :: "AssignOp \<Rightarrow> AssignOp \<Rightarrow> bool" where
  "less_AssignOp a b = (assign_num a < assign_num b)"
instance
  by standard (auto simp: less_eq_AssignOp_def less_AssignOp_def intro: assign_num_inject)
end

lemmas enum_order = less_eq_BtnTypeEnum_def less_eq_BinOp_def less_eq_AssignOp_def

definition isBoolType :: "BtnTypeEnum \<Rightarrow> bool" where
  "isBoolType type = (type = Bool)"

definition isBitwiseType :: "BtnTypeEnum \<Rightarrow> bool" where
  "isBitwiseType type = (type = Byte \<or> type = Uint)"

definition isArithType :: "BtnTypeEnum \<Rightarrow> bool" where
  "isArithType type = (Char \<le> type \<and> type \<le> Uint)"

definition isBoolOp :: "BinOp \<Rightarrow> bool" where
  "isBoolOp opr = (opr = bool_or \<or> opr = bool_and)"

definition isBitwiseOp :: "BinOp \<Rightarrow> bool" where
  "isBitwiseOp opr = (bit_or \<le> opr \<and> opr \<le> bit_shr)"

definition isEqualOp :: "BinOp \<Rightarrow> bool" where
  "isEqualOp opr = (opr = eq \<or> opr = ne)"

definition isOrderOp :: "BinOp \<Rightarrow> bool" where
  "isOrderOp opr = (lt \<le> opr \<and> opr \<le> ge)"

definition isArithOp :: "BinOp \<Rightarrow> bool" where
  "isArithOp opr = (add \<le> opr \<and> opr \<le> mod_op)"

definition isBitwiseAssign :: "AssignOp \<Rightarrow> bool" where
  "isBitwiseAssign opr = (a_bit_or \<le> opr \<and> opr \<le> a_bit_shr)"

definition isArithAssign :: "AssignOp \<Rightarrow> bool" where
  "isArithAssign opr = (a_add \<le> opr \<and> opr \<le> a_mod)"

definition boolOp_bin :: "BinOp \<Rightarrow> bool" where
  "boolOp_bin opr = isBoolOp opr"

definition boolOp_un :: "UnOp \<Rightarrow> bool" where
  "boolOp_un opr = (opr = bool_not)"

definition compOp :: "BinOp \<Rightarrow> bool" where
  "compOp opr = (isEqualOp opr \<or> isOrderOp opr)"

definition validIncr :: "BtnTypeEnum \<Rightarrow> bool" where
  "validIncr type = isArithType type"

fun validOp_un :: "UnOp \<Rightarrow> BtnTypeEnum \<Rightarrow> bool" where
  "validOp_un neg type = isArithType type"
| "validOp_un bool_not type = isBoolType type"
| "validOp_un bit_not type = isBitwiseType type"

definition checkType :: "(BtnTypeEnum \<Rightarrow> bool) \<Rightarrow> BtnTypeEnum \<Rightarrow> BtnTypeEnum option" where
  "checkType category type = (if category type then Some type else None)"

text \<open>Assertions and \<^verbatim>\<open>UNREACHABLE()\<close> are \<open>Undefined\<close>.\<close>

definition validOp_bin :: "BinOp \<Rightarrow> BtnTypeEnum \<Rightarrow> BtnTypeEnum \<Rightarrow> BtnTypeEnum option res" where
  "validOp_bin opr lhs rhs =
     (if lhs \<noteq> rhs then Inr None
      else if isEqualOp opr \<or> isOrderOp opr then Inl (Undefined ''assertion: comparison operator'')
      else if isBoolOp opr then Inr (checkType isBoolType lhs)
      else if isBitwiseOp opr then Inr (checkType isBitwiseType lhs)
      else if isArithOp opr then Inr (checkType isArithType lhs)
      else Inl (Undefined ''unreachable''))"

definition validOp_assign :: "AssignOp \<Rightarrow> BtnTypeEnum \<Rightarrow> bool res" where
  "validOp_assign opr type =
     (if isArithAssign opr then Inr (isArithType type)
      else if isBitwiseAssign opr then Inr (isBitwiseType type)
      else Inl (Undefined ''unreachable''))"

definition validSubscript :: "BtnTypeEnum \<Rightarrow> bool" where
  "validSubscript index = (index = Sint \<or> index = Uint)"

definition validCast :: "BtnTypeEnum \<Rightarrow> BtnTypeEnum \<Rightarrow> bool" where
  "validCast dst src = (dst \<noteq> Void \<and> src \<noteq> Void \<and> dst \<noteq> Opaq \<and> src \<noteq> Opaq)"

text \<open>\<^verbatim>\<open>validComp\<close>; the types it descends into are concrete, so an alias is looked through.\<close>

fun validComp :: "BinOp \<Rightarrow> rty \<Rightarrow> loc \<Rightarrow> unit res" where
  "validComp opr (RNamed _ _ t) l = validComp opr t l"
| "validComp opr (RBtn b) l =
     (if b = Void then Inl (Fatal l ''Cannot compare void expressions'') else Inr ())"
| "validComp opr (RArray t) l = validComp opr t l"
| "validComp opr (RFunc _ _) l = Inr ()"
| "validComp opr (RStruct fs) l = foldE (\<lambda>(_, t) _. validComp opr t l) fs ()"
| "validComp opr (RUser _ _ _ _) l = Inr ()"

subsection \<open>Builtin functions\<close>

text \<open>
  \<^verbatim>\<open>format\<close> asserts that its node is not null, so a message that prints the type of nothing has no
  defined meaning.
\<close>

definition failType :: "loc \<Rightarrow> string \<Rightarrow> rty option \<Rightarrow> string \<Rightarrow> 'a res" where
  "failType l msg t msg2 =
     (case t of
        None \<Rightarrow> Inl (Undefined ''assertion: node'')
      | Some t \<Rightarrow> Inl (Fatal l (msg @ typeDesc t @ msg2)))"

definition quoted :: "string \<Rightarrow> string" where
  "quoted str = quote @ str @ quote"

definition checkArgs :: "name \<Rightarrow> loc \<Rightarrow> bool \<Rightarrow> unit res" where
  "checkArgs n l correct =
     (if correct then Inr () else Inl (Fatal l (''No matching call to builtin function '' @ quoted n)))"

definition checkArray :: "name \<Rightarrow> loc \<Rightarrow> rty option \<Rightarrow> rty res" where
  "checkArray n l type =
     (case concrete_array type of
        None \<Rightarrow> failType l (''Expected [T] in call to builtin function '' @ quoted n @ '' but got '') type []
      | Some elem \<Rightarrow> Inr elem)"

definition checkUint :: "name \<Rightarrow> loc \<Rightarrow> rty option \<Rightarrow> unit res" where
  "checkUint n l type =
     (if compareTypes (Some (RBtn Uint)) type then Inr ()
      else failType l (''Expected uint in call to builtin function '' @ quoted n @ '' but got '') type [])"

definition checkMutRef :: "name \<Rightarrow> loc \<Rightarrow> expr_type \<Rightarrow> unit res" where
  "checkMutRef n l etype =
     (if callMutRef \<lparr>et_type = None, et_mut = mut_var, et_ref = ref_ref\<rparr> etype then Inr ()
      else Inl (Fatal l (''No matching call to builtin function '' @ quoted n)))"

definition capacityFn :: "expr_type list \<Rightarrow> loc \<Rightarrow> rty res" where
  "capacityFn args l =
     bindE (checkArgs ''capacity'' l (length args = 1)) (\<lambda>_.
     bindE (checkArray ''capacity'' l (et_type (args ! 0))) (\<lambda>_. Inr (RBtn Uint)))"

definition sizeFn :: "expr_type list \<Rightarrow> loc \<Rightarrow> rty res" where
  "sizeFn args l =
     bindE (checkArgs ''size'' l (length args = 1)) (\<lambda>_.
     bindE (checkArray ''size'' l (et_type (args ! 0))) (\<lambda>_. Inr (RBtn Uint)))"

definition dataFn :: "expr_type list \<Rightarrow> loc \<Rightarrow> rty res" where
  "dataFn args l =
     bindE (checkArgs ''data'' l (length args = 1)) (\<lambda>_.
     bindE (checkArray ''data'' l (et_type (args ! 0))) (\<lambda>_. Inr (RBtn Opaq)))"

definition pushBackFn :: "expr_type list \<Rightarrow> loc \<Rightarrow> rty res" where
  "pushBackFn args l =
     bindE (checkArgs ''push_back'' l (length args = 2)) (\<lambda>_.
     bindE (checkArray ''push_back'' l (et_type (args ! 0))) (\<lambda>elem.
     bindE (checkMutRef ''push_back'' l (args ! 0)) (\<lambda>_.
     if compareTypes (et_type (args ! 1)) (Some elem) then Inr (RBtn Void)
     else failType l (''Expected T for second argument to builtin function '' @ quoted ''push_back''
       @ '' but got '') (et_type (args ! 1)) [])))"

definition appendFn :: "expr_type list \<Rightarrow> loc \<Rightarrow> rty res" where
  "appendFn args l =
     bindE (checkArgs ''append'' l (length args = 2)) (\<lambda>_.
     bindE (checkArray ''append'' l (et_type (args ! 0))) (\<lambda>elem.
     bindE (checkMutRef ''append'' l (args ! 0)) (\<lambda>_.
     if compareTypes (et_type (args ! 1)) (Some (RArray elem)) then Inr (RBtn Void)
     else failType l (''Expected [T] for second argument to builtin function '' @ quoted ''append''
       @ '' but got '') (et_type (args ! 1)) [])))"

definition popBackFn :: "expr_type list \<Rightarrow> loc \<Rightarrow> rty res" where
  "popBackFn args l =
     bindE (checkArgs ''pop_back'' l (length args = 1)) (\<lambda>_.
     bindE (checkArray ''pop_back'' l (et_type (args ! 0))) (\<lambda>_.
     bindE (checkMutRef ''pop_back'' l (args ! 0)) (\<lambda>_. Inr (RBtn Void))))"

definition resizeFn :: "expr_type list \<Rightarrow> loc \<Rightarrow> rty res" where
  "resizeFn args l =
     bindE (checkArgs ''resize'' l (length args = 2)) (\<lambda>_.
     bindE (checkArray ''resize'' l (et_type (args ! 0))) (\<lambda>_.
     bindE (checkMutRef ''resize'' l (args ! 0)) (\<lambda>_.
     bindE (checkUint ''resize'' l (et_type (args ! 1))) (\<lambda>_. Inr (RBtn Void)))))"

definition reserveFn :: "expr_type list \<Rightarrow> loc \<Rightarrow> rty res" where
  "reserveFn args l =
     bindE (checkArgs ''reserve'' l (length args = 2)) (\<lambda>_.
     bindE (checkArray ''reserve'' l (et_type (args ! 0))) (\<lambda>_.
     bindE (checkMutRef ''reserve'' l (args ! 0)) (\<lambda>_.
     bindE (checkUint ''reserve'' l (et_type (args ! 1))) (\<lambda>_. Inr (RBtn Void)))))"

fun callBtnFunc :: "BtnFuncEnum \<Rightarrow> expr_type list \<Rightarrow> loc \<Rightarrow> rty res" where
  "callBtnFunc fn_capacity args l = capacityFn args l"
| "callBtnFunc fn_size args l = sizeFn args l"
| "callBtnFunc fn_data args l = dataFn args l"
| "callBtnFunc fn_push_back args l = pushBackFn args l"
| "callBtnFunc fn_append args l = appendFn args l"
| "callBtnFunc fn_pop_back args l = popBackFn args l"
| "callBtnFunc fn_resize args l = resizeFn args l"
| "callBtnFunc fn_reserve args l = reserveFn args l"

subsection \<open>Properties\<close>

text \<open>
  C32: two types compare equal exactly when they have the same normal form. So the comparison is an
  equivalence relation, weak aliases are interchangeable with what they stand for at any depth, and
  strong aliases are told apart by their names only.
\<close>

theorem compareTypes_norm: "compareTypes a b \<longleftrightarrow> map_option norm a = map_option norm b"
  by (rule compareTypes_iff)

text \<open>
  C33: if two parameter lists both accept the arguments of a call, they are the same for \<^verbatim>\<open>checkFuncCollide\<close>,
  which refuses to declare both in a scope.
\<close>

theorem compatible_overloads_collide:
  assumes "compatParams params args" and "compatParams params' args"
  shows "sameParams params params'"
  using assms [THEN compatParams_same] by (simp add: sameParams_iff)

theorem compatible_overloads_collide_witness:
  "sameParams [null_type, \<lparr>et_type = Some (RNamed ''Int'' False (RBtn Sint)), et_mut = mut_var, et_ref = ref_val\<rparr>]
     [null_type, \<lparr>et_type = Some (RBtn Sint), et_mut = mut_var, et_ref = ref_ref\<rparr>]"
  by (rule compatible_overloads_collide [where args = "[null_type, makeVarVal (Some (RBtn Sint))]"])
    (simp_all add: compatParams_def null_type_def makeVarVal_def callMutRef_def callMut_def)

text \<open>
  The order of the enumerations gives every operator its operands, and no operator reaches
  \<^verbatim>\<open>UNREACHABLE()\<close>: \<^verbatim>\<open>||\<close> and \<^verbatim>\<open>&&\<close> take \<^verbatim>\<open>bool\<close>, the bitwise operators \<^verbatim>\<open>byte\<close> and \<^verbatim>\<open>uint\<close>, the arithmetic ones \<^verbatim>\<open>char\<close>,
  \<^verbatim>\<open>real\<close>, \<^verbatim>\<open>sint\<close> and \<^verbatim>\<open>uint\<close>, on both sides the same type; the comparisons have a rule of their own.
\<close>

theorem validOp_bin_table:
  "validOp_bin opr lhs rhs =
     (if lhs \<noteq> rhs then Inr None
      else if opr \<in> {eq, ne, lt, le, gt, ge} then Inl (Undefined ''assertion: comparison operator'')
      else if (opr \<in> {bool_or, bool_and} \<and> lhs = Bool)
        \<or> (opr \<in> {bit_or, bit_xor, bit_and, bit_shl, bit_shr} \<and> lhs \<in> {Byte, Uint})
        \<or> (opr \<in> {add, sub, mul, div_op, mod_op} \<and> lhs \<in> {Char, Real, Sint, Uint})
      then Inr (Some lhs) else Inr None)"
  by (cases opr; cases lhs)
    (simp_all add: validOp_bin_def isEqualOp_def isOrderOp_def isBoolOp_def isBitwiseOp_def isArithOp_def
      checkType_def isBoolType_def isBitwiseType_def isArithType_def enum_order)

text \<open>
  Two strong aliases of the same name are one type to the comparison, whatever they stand for.
  Modules may declare the same name, and a name may be declared again in an inner scope.
\<close>

theorem strong_aliases_by_name:
  "compareTypes (Some (RNamed n True a)) (Some (RNamed n True b))
   \<and> (m \<noteq> n \<longleftrightarrow> \<not> compareTypes (Some (RNamed n True a)) (Some (RNamed m True a)))"
  by auto

text \<open>The arguments and the result that the comments in front of the builtin functions document.\<close>

fun btn_func_sig :: "BtnFuncEnum \<Rightarrow> expr_type list \<Rightarrow> bool" where
  "btn_func_sig fn [a] =
     (fn \<in> {fn_capacity, fn_size, fn_data, fn_pop_back}
      \<and> (\<exists>t elem. et_type a = Some t \<and> lookupConcreteType t = RArray elem)
      \<and> (fn = fn_pop_back \<longrightarrow> et_mut a = mut_var))"
| "btn_func_sig fn [a, b] =
     (fn \<in> {fn_push_back, fn_append, fn_resize, fn_reserve} \<and> et_mut a = mut_var
      \<and> (\<exists>t elem. et_type a = Some t \<and> lookupConcreteType t = RArray elem
           \<and> (fn = fn_push_back \<longrightarrow> map_option norm (et_type b) = Some (norm elem))
           \<and> (fn = fn_append \<longrightarrow> map_option norm (et_type b) = Some (norm (RArray elem)))
           \<and> (fn \<in> {fn_resize, fn_reserve} \<longrightarrow> map_option norm (et_type b) = Some (RBtn Uint))))"
| "btn_func_sig fn _ = False"

fun btn_func_ret :: "BtnFuncEnum \<Rightarrow> rty" where
  "btn_func_ret fn =
     RBtn (if fn \<in> {fn_capacity, fn_size} then Uint else if fn = fn_data then Opaq else Void)"

lemma callMutRef_var:
  "callMutRef \<lparr>et_type = None, et_mut = mut_var, et_ref = ref_ref\<rparr> a \<longleftrightarrow> et_mut a = mut_var"
  by (cases "et_mut a") (simp_all add: callMutRef_def callMut_def)

lemma failType_not_Inr [simp]: "failType l b t a \<noteq> Inr x"
  by (simp add: failType_def split: option.splits)

lemma checkArray_iff: "checkArray n l t = Inr elem \<longleftrightarrow> (\<exists>u. t = Some u \<and> lookupConcreteType u = RArray elem)"
  by (cases t; cases "lookupConcreteType (the t)") (auto simp: checkArray_def concrete_array_def)

lemma checkUint_iff: "checkUint n l t = Inr u \<longleftrightarrow> map_option norm t = Some (RBtn Uint)"
  by (cases t) (auto simp: checkUint_def compareTypes_iff)

lemmas btn_func_defs = capacityFn_def sizeFn_def dataFn_def pushBackFn_def appendFn_def popBackFn_def
  resizeFn_def reserveFn_def checkArgs_def checkMutRef_def callMutRef_var

text \<open>
  C34: a builtin function is accepted exactly when its arguments have the types it documents: an array
  (mutable for the functions that change it) and, for two arguments, an element, an array of the same
  type or a \<^verbatim>\<open>uint\<close>; the result is \<^verbatim>\<open>uint\<close>, \<^verbatim>\<open>opaq\<close> or \<^verbatim>\<open>void\<close>.
\<close>

theorem callBtnFunc_accepts:
  "callBtnFunc fn args l = Inr t \<longleftrightarrow> btn_func_sig fn args \<and> t = btn_func_ret fn"
  by (cases "(fn, args)" rule: btn_func_sig.cases; cases fn)
    (auto simp: btn_func_defs checkArray_iff checkUint_iff compareTypes_iff eval_nat_numeral)

end
