(* ===== verification/Expr_Stack.thy ===== *)
theory Expr_Stack
  imports Sem_Types
begin

section \<open>The expression stack\<close>

text \<open>
  \<^verbatim>\<open>src/Semantic/expr stack.cpp\<close> and \<^verbatim>\<open>expr stack.hpp\<close>: while the type of an expression is inferred, the
  stack holds what is known of the enclosing calls and member accesses, and \<^verbatim>\<open>exprType\<close> the type of the
  last expression. The model keeps the stack with its top first. An assertion that fails is
  \<open>Undefined\<close>. The constructors of \<^verbatim>\<open>ExprStack::Expr\<close> assert which kinds carry a name; every push uses the
  right one.
\<close>

datatype ExprKind = K_call | K_member | K_func | K_btn_func | K_expr | K_subexpr

record expr_stack =
  exprs :: "(ExprKind \<times> name) list"
  exprType :: expr_type

definition empty_stack :: expr_stack where
  "empty_stack = \<lparr>exprs = [], exprType = null_type\<rparr>"

definition pushKind :: "ExprKind \<Rightarrow> name \<Rightarrow> expr_stack \<Rightarrow> expr_stack" where
  "pushKind kind n st = st\<lparr>exprs := (kind, n) # exprs st\<rparr>"

definition pushCall :: "expr_stack \<Rightarrow> expr_stack" where
  "pushCall = pushKind K_call []"

definition pushExpr :: "expr_type \<Rightarrow> expr_stack \<Rightarrow> expr_stack" where
  "pushExpr type st = (pushKind K_expr [] st)\<lparr>exprType := type\<rparr>"

definition pushMember :: "name \<Rightarrow> expr_stack \<Rightarrow> expr_stack" where
  "pushMember n = pushKind K_member n"

definition pushMemberExpr :: "rty option \<Rightarrow> expr_stack \<Rightarrow> expr_stack" where
  "pushMemberExpr type st = pushExpr (fieldType (exprType st) type) st"

definition pushFunc :: "name \<Rightarrow> expr_stack \<Rightarrow> expr_stack" where
  "pushFunc n = pushKind K_func n"

definition pushBtnFunc :: "name \<Rightarrow> expr_stack \<Rightarrow> expr_stack" where
  "pushBtnFunc n = pushKind K_btn_func n"

definition top_kind :: "expr_stack \<Rightarrow> ExprKind res" where
  "top_kind st =
     (case exprs st of [] \<Rightarrow> Inl (Undefined ''assertion: empty stack'') | (k, _) # _ \<Rightarrow> Inr k)"

fun memVarExpr :: "ExprKind \<Rightarrow> (ExprKind \<times> name) list \<Rightarrow> bool" where
  "memVarExpr kind ((k, _) # (k', _) # es) =
     (k = kind \<and> k' = K_member \<and> (case es of [] \<Rightarrow> True | (k'', _) # _ \<Rightarrow> k'' \<noteq> K_call))"
| "memVarExpr kind _ = False"

fun memFunExpr :: "ExprKind \<Rightarrow> (ExprKind \<times> name) list \<Rightarrow> bool" where
  "memFunExpr kind ((k, _) # (k', _) # (k'', _) # _) = (k = kind \<and> k' = K_member \<and> k'' = K_call)"
| "memFunExpr kind _ = False"

fun callExpr :: "ExprKind \<Rightarrow> (ExprKind \<times> name) list \<Rightarrow> bool" where
  "callExpr kind ((k, _) # (k', _) # _) = (k = kind \<and> k' = K_call)"
| "callExpr kind _ = False"

definition popName :: "ExprKind \<Rightarrow> expr_stack \<Rightarrow> (name \<times> expr_stack) res" where
  "popName kind st =
     (case exprs st of
        [] \<Rightarrow> Inl (Undefined ''assertion: empty stack'')
      | (k, n) # es \<Rightarrow>
          if k = kind then Inr (n, st\<lparr>exprs := es\<rparr>) else Inl (Undefined ''assertion: top of stack''))"

definition pop :: "ExprKind \<Rightarrow> expr_stack \<Rightarrow> expr_stack res" where
  "pop kind st = bindE (popName kind st) (\<lambda>(_, st). Inr st)"

definition popCall :: "expr_stack \<Rightarrow> expr_stack res" where
  "popCall = pop K_call"

definition popMember :: "expr_stack \<Rightarrow> (name \<times> expr_stack) res" where
  "popMember = popName K_member"

definition popFunc :: "expr_stack \<Rightarrow> (name \<times> expr_stack) res" where
  "popFunc = popName K_func"

definition popBtnFunc :: "expr_stack \<Rightarrow> (name \<times> expr_stack) res" where
  "popBtnFunc = popName K_btn_func"

definition popExpr :: "expr_stack \<Rightarrow> (expr_type \<times> expr_stack) res" where
  "popExpr st = bindE (pop K_expr st) (\<lambda>st. Inr (exprType st, st))"

definition setExpr :: "expr_type \<Rightarrow> expr_stack \<Rightarrow> expr_stack res" where
  "setExpr type st =
     bindE (top_kind st) (\<lambda>k.
       if k = K_expr then Inl (Undefined ''assertion: expression on top'') else Inr (pushExpr type st))"

definition enterSubExpr :: "expr_stack \<Rightarrow> expr_stack" where
  "enterSubExpr = pushKind K_subexpr []"

definition leaveSubExpr :: "expr_stack \<Rightarrow> (expr_type \<times> expr_stack) res" where
  "leaveSubExpr st =
     bindE (pop K_expr st) (\<lambda>st.
     bindE (pop K_subexpr st) (\<lambda>st. Inr (exprType st, st\<lparr>exprType := null_type\<rparr>)))"

definition topType :: "expr_stack \<Rightarrow> rty option res" where
  "topType st =
     bindE (top_kind st) (\<lambda>k.
       if k = K_expr then Inr (et_type (exprType st))
       else Inl (Undefined ''assertion: no expression on top''))"

lemmas stack_push_defs = pushKind_def pushCall_def pushExpr_def pushMember_def pushMemberExpr_def
  pushFunc_def pushBtnFunc_def enterSubExpr_def

lemmas stack_pop_defs = pop_def popName_def popCall_def popMember_def popFunc_def popBtnFunc_def
  popExpr_def leaveSubExpr_def topType_def top_kind_def setExpr_def

end
