(* ===== verification/Scopes.thy ===== *)
theory Scopes
  imports Error_State Expr_Stack "HOL-Library.List_Lexorder" "HOL-Library.Char_ord"
begin

section \<open>Symbols and scopes\<close>

text \<open>
  \<^verbatim>\<open>include/STELA/symbols.hpp\<close>, \<^verbatim>\<open>scope manager.cpp\<close>, \<^verbatim>\<open>scope traverse.hpp\<close>, \<^verbatim>\<open>scope lookup.cpp\<close>,
  \<^verbatim>\<open>symbol desc.cpp\<close>, \<^verbatim>\<open>check scopes.cpp\<close>, \<^verbatim>\<open>scope insert.cpp\<close> and the part of \<^verbatim>\<open>compare types.cpp\<close> that
  validates types.

  The scopes are a list, as in \<^verbatim>\<open>Symbols::scopes\<close>; a pointer to a scope is its index and a pointer to a
  symbol the index of its scope and its position in the table of that scope. The table, an
  \<^verbatim>\<open>unordered_multimap\<close>, is an association list in the order of insertion: \<^verbatim>\<open>find\<close> gives the first entry of a
  name and \<^verbatim>\<open>equal_range\<close> all of them. A scope is pushed behind its parent, so the parent has a smaller
  index; the recursions up the scopes test this to be total.
\<close>

subsection \<open>The symbols\<close>

datatype ScopeType = ns_scope | block_scope | func_scope | flow_scope | closure_scope

type_synonym sym_ref = "nat \<times> nat"

text \<open>\<^verbatim>\<open>ClosureCap\<close>; the captured object is identified by its symbol instead of its node.\<close>

record closure_cap =
  cap_type :: "rty option"
  cap_object :: sym_ref
  cap_index :: u32

text \<open>
  What the phase reads of the node of a function: whether it is an \<^verbatim>\<open>ExtFunc\<close>, whether it has a receiver,
  its parameters and its return type.
\<close>

record func_node =
  fn_ext :: bool
  fn_receiver :: bool
  fn_params :: "(ParamRef \<times> rty) list"
  fn_ret :: "rty option"

datatype symbol_data =
    TypeAliasSym bool rty
  | ObjectSym expr_type
  | FuncSym expr_type "expr_type list" func_node
  | LambdaSym expr_type "expr_type list" "closure_cap list"
  | BtnFuncSym BtnFuncEnum

record symbol =
  sym_scope :: "nat option"
  sym_loc :: loc
  referenced :: bool
  sym_data :: symbol_data

record scope =
  parent :: "nat option"
  stype :: ScopeType
  scope_sym :: "sym_ref option"
  smodule :: name
  table :: "(name \<times> symbol) list"

text \<open>
  The state of the phase: the scopes, the current one (\<^verbatim>\<open>ScopeMan\<close>), the module and the warnings of the
  log, and the variables of the visitor of expressions that is active (\<^verbatim>\<open>ExprLookup::stack\<close>,
  \<^verbatim>\<open>ExprLookup::expType\<close> and \<^verbatim>\<open>expected\<close> of \<^verbatim>\<open>infer type.cpp\<close>).
\<close>

record sem =
  scopes :: "scope list"
  cur :: nat
  log_mod :: name
  sem_warns :: "(name \<times> loc \<times> string) list"
  lkp_stack :: expr_stack
  expType :: "rty option"
  expected :: "rty option"

type_synonym 'a sem_m = "(sem, 'a) se"

fun symbolDesc :: "symbol_data \<Rightarrow> string" where
  "symbolDesc (TypeAliasSym _ _) = ''type''"
| "symbolDesc (ObjectSym _) = ''variable''"
| "symbolDesc (FuncSym _ _ _) = ''function''"
| "symbolDesc (LambdaSym _ _ _) = ''lambda''"
| "symbolDesc (BtnFuncSym _) = ''function''"

definition show_loc :: "loc \<Rightarrow> string" where
  "show_loc l = show_nat (unat (loc_l l)) @ '':'' @ show_nat (unat (loc_c l))"

definition warnS :: "loc \<Rightarrow> string \<Rightarrow> unit sem_m" where
  "warnS l msg = modS (\<lambda>s. s\<lparr>sem_warns := sem_warns s @ [(log_mod s, l, msg)]\<rparr>)"

subsection \<open>Scopes\<close>

definition make_scope :: "nat option \<Rightarrow> ScopeType \<Rightarrow> sym_ref option \<Rightarrow> name \<Rightarrow> scope" where
  "make_scope p ty sy m = \<lparr>parent = p, stype = ty, scope_sym = sy, smodule = m, table = []\<rparr>"

definition pushScope :: "scope \<Rightarrow> nat sem_m" where
  "pushScope sc s = Inr (length (scopes s), s\<lparr>scopes := scopes s @ [sc], cur := length (scopes s)\<rparr>)"

definition enterScope_ns :: "name \<Rightarrow> nat sem_m" where
  "enterScope_ns m = bindS (getS cur) (\<lambda>c. pushScope (make_scope (Some c) ns_scope None m))"

definition enterScope :: "ScopeType \<Rightarrow> nat sem_m" where
  "enterScope ty = bindS (getS cur) (\<lambda>c. pushScope (make_scope (Some c) ty None []))"

definition enterScope_sym :: "ScopeType \<Rightarrow> sym_ref \<Rightarrow> nat sem_m" where
  "enterScope_sym ty sy = bindS (getS cur) (\<lambda>c. pushScope (make_scope (Some c) ty (Some sy) []))"

text \<open>Leaving the outermost scope would leave a null pointer behind.\<close>

definition leaveScope :: "unit sem_m" where
  "leaveScope s =
     (case parent (scopes s ! cur s) of
        None \<Rightarrow> Inl (Undefined ''null scope'')
      | Some p \<Rightarrow> Inr ((), s\<lparr>cur := p\<rparr>))"

text \<open>\<open>climb f scs i\<close>: the first result of \<open>f\<close> on the scope \<open>i\<close>, its parent and so on.\<close>

function climb :: "(nat \<Rightarrow> 'a option) \<Rightarrow> scope list \<Rightarrow> nat \<Rightarrow> 'a option" where
  "climb f scs i =
     (case f i of
        Some x \<Rightarrow> Some x
      | None \<Rightarrow> (case parent (scs ! i) of
          None \<Rightarrow> None
        | Some p \<Rightarrow> if p < i then climb f scs p else None))"
  by auto
termination by (relation "measure (\<lambda>(_, _, i). i)") auto

declare climb.simps [simp del]

definition findNearest :: "ScopeType \<Rightarrow> scope list \<Rightarrow> nat \<Rightarrow> nat option" where
  "findNearest ty = (\<lambda>scs. climb (\<lambda>i. if stype (scs ! i) = ty then Some i else None) scs)"

definition findNearestEither :: "ScopeType \<Rightarrow> ScopeType \<Rightarrow> scope list \<Rightarrow> nat \<Rightarrow> nat res" where
  "findNearestEither a b scs i =
     (case climb (\<lambda>i. if stype (scs ! i) = a \<or> stype (scs ! i) = b then Some i else None) scs i of
        None \<Rightarrow> Inl (Undefined ''unreachable'')
      | Some j \<Rightarrow> Inr j)"

definition findNearestNot :: "ScopeType \<Rightarrow> scope list \<Rightarrow> nat \<Rightarrow> nat res" where
  "findNearestNot ty scs i =
     (case climb (\<lambda>i. if stype (scs ! i) = ty then None else Some i) scs i of
        None \<Rightarrow> Inl (Undefined ''unreachable'')
      | Some j \<Rightarrow> Inr j)"

subsection \<open>Lookup\<close>

text \<open>\<^verbatim>\<open>table.equal_range(name)\<close> and \<^verbatim>\<open>table.find(name)\<close>, as positions in the table.\<close>

definition equal_range :: "name \<Rightarrow> (name \<times> symbol) list \<Rightarrow> nat list" where
  "equal_range n tbl = filter (\<lambda>k. fst (tbl ! k) = n) [0..<length tbl]"

definition find_pos :: "name \<Rightarrow> (name \<times> symbol) list \<Rightarrow> nat option" where
  "find_pos n tbl = (case equal_range n tbl of [] \<Rightarrow> None | k # _ \<Rightarrow> Some k)"

definition findScope :: "scope list \<Rightarrow> nat \<Rightarrow> name \<Rightarrow> sym_ref option" where
  "findScope scs i n =
     climb (\<lambda>i. map_option (\<lambda>k. (i, k)) (find_pos n (table (scs ! i)))) scs i"

definition get_symbol :: "scope list \<Rightarrow> sym_ref \<Rightarrow> symbol" where
  "get_symbol scs r = snd (table (scs ! fst r) ! snd r)"

definition upd_symbol :: "(symbol \<Rightarrow> symbol) \<Rightarrow> sym_ref \<Rightarrow> sem \<Rightarrow> sem" where
  "upd_symbol f r s =
     s\<lparr>scopes := (scopes s)[fst r := (scopes s ! fst r)
       \<lparr>table := (table (scopes s ! fst r))[snd r :=
          (fst (table (scopes s ! fst r) ! snd r), f (get_symbol (scopes s) r))]\<rparr>]\<rparr>"

definition moduleName :: "scope list \<Rightarrow> nat \<Rightarrow> name res" where
  "moduleName scs i =
     (case findNearest ns_scope scs i of
        None \<Rightarrow> Inl (Undefined ''assertion: global'')
      | Some g \<Rightarrow> Inr (smodule (scs ! g)))"

text \<open>\<^verbatim>\<open>lookupTypeImpl\<close> and \<^verbatim>\<open>lookupTypeName\<close>, for a name without and with a definition.\<close>

definition set_referenced :: "symbol \<Rightarrow> symbol" where
  "set_referenced sy = sy\<lparr>referenced := True\<rparr>"

definition lookupTypeImpl :: "loc \<Rightarrow> name \<Rightarrow> (bool \<times> rty) sem_m" where
  "lookupTypeImpl l n s =
     (case findScope (scopes s) (cur s) n of
        None \<Rightarrow> Inl (Fatal l (''Expected type name but found '' @ quoted n))
      | Some r \<Rightarrow>
          (case sym_data (get_symbol (scopes s) r) of
             TypeAliasSym strong t \<Rightarrow> Inr ((strong, t), upd_symbol set_referenced r s)
           | _ \<Rightarrow> Inl (Fatal l (''The name '' @ quoted n @ '' does not refer to a type''))))"

definition lookupTypeName :: "loc \<Rightarrow> name \<Rightarrow> (bool \<times> rty) option \<Rightarrow> (bool \<times> rty) sem_m" where
  "lookupTypeName l n defn = (case defn of Some d \<Rightarrow> retS d | None \<Rightarrow> lookupTypeImpl l n)"

text \<open>The test for duplicate fields in the visitor of a struct.\<close>

fun adjacent_dup :: "(name \<times> loc) list \<Rightarrow> (name \<times> loc) option" where
  "adjacent_dup (a # b # xs) = (if fst a = fst b then Some a else adjacent_dup (b # xs))"
| "adjacent_dup _ = None"

definition checkFields :: "(name \<times> loc) list \<Rightarrow> unit res" where
  "checkFields names =
     (case adjacent_dup (sort_key fst names) of
        None \<Rightarrow> Inr ()
      | Some (n, l) \<Rightarrow> Inl (Fatal l (''Duplicate field '' @ quoted n @ '' in struct'')))"

fun validateType :: "ty \<Rightarrow> rty sem_m" where
  "validateType (BtnType _ b) = retS (RBtn b)"
| "validateType (ArrayType _ elem) = bindS (validateType elem) (\<lambda>t. retS (RArray t))"
| "validateType (FuncType _ params ret) =
     bindS (case ret of None \<Rightarrow> retS (RBtn Void) | Some r \<Rightarrow> validateType r) (\<lambda>r.
     bindS (mapS (\<lambda>(p, t). bindS (validateType t) (\<lambda>t. retS (p, t))) params) (\<lambda>ps.
       retS (RFunc ps (Some r))))"
| "validateType (NamedType l n defn) =
     bindS (lookupTypeName l n defn) (\<lambda>(strong, t). retS (RNamed n strong t))"
| "validateType (StructType _ flds) =
     bindS (mapS (\<lambda>(n, t, l). bindS (validateType t) (\<lambda>t. retS (n, t))) flds) (\<lambda>fs.
     bindS (liftE (checkFields (map (\<lambda>(n, t, l). (n, l)) flds))) (\<lambda>_. retS (RStruct fs)))"
| "validateType (UserType _ flds sz al ops) = retS (RUser flds sz al ops)"

definition validateOpt :: "ty option \<Rightarrow> rty option sem_m" where
  "validateOpt t = (case t of None \<Rightarrow> retS None | Some t \<Rightarrow> bindS (validateType t) (\<lambda>t. retS (Some t)))"

definition validateParams :: "(ParamRef \<times> ty) list \<Rightarrow> (ParamRef \<times> rty) list sem_m" where
  "validateParams ps = mapS (\<lambda>(p, t). bindS (validateType t) (\<lambda>t. retS (p, t))) ps"

definition getFuncType :: "func_node \<Rightarrow> loc \<Rightarrow> rty res" where
  "getFuncType func l =
     (if fn_receiver func then Inl (Fatal l ''Cannot take address of method'')
      else Inr (RFunc (fn_params func) (fn_ret func)))"

definition getLambdaType :: "(ParamRef \<times> rty) list \<Rightarrow> rty option \<Rightarrow> rty" where
  "getLambdaType ps r = RFunc ps r"

definition checkIdentShadow :: "name \<Rightarrow> loc \<Rightarrow> unit sem_m" where
  "checkIdentShadow n l s =
     (case parent (scopes s ! cur s) of
        None \<Rightarrow> Inl (Undefined ''null scope'')
      | Some p \<Rightarrow>
          (case findScope (scopes s) p n of
             None \<Rightarrow> Inr ((), s)
           | Some r \<Rightarrow>
               bindE (moduleName (scopes s) (fst r)) (\<lambda>m.
                 warnS l (''Declaration of '' @ quoted n @ '' shadows a ''
                   @ symbolDesc (sym_data (get_symbol (scopes s) r)) @ '' at '' @ m @ '':''
                   @ show_loc (sym_loc (get_symbol (scopes s) r))) s)))"

subsection \<open>Insertion\<close>

definition convertRef :: "ParamRef \<Rightarrow> ValueRef" where
  "convertRef r = (if r = ref then ref_ref else ref_val)"

text \<open>\<^verbatim>\<open>convert\<close> and \<^verbatim>\<open>convertNullable\<close> of a validated type.\<close>

definition convert :: "ParamRef \<times> rty \<Rightarrow> expr_type" where
  "convert p = \<lparr>et_type = Some (snd p), et_mut = mut_var, et_ref = convertRef (fst p)\<rparr>"

definition convertNullable :: "rty option \<Rightarrow> expr_type" where
  "convertNullable t = \<lparr>et_type = t, et_mut = mut_let, et_ref = convertRef val\<rparr>"

text \<open>\<^verbatim>\<open>scope->table.insert\<close>, with the position of the new symbol.\<close>

definition addSymbol :: "nat \<Rightarrow> name \<Rightarrow> symbol \<Rightarrow> sym_ref sem_m" where
  "addSymbol i n sy s =
     Inr ((i, length (table (scopes s ! i))),
       s\<lparr>scopes := (scopes s)[i := (scopes s ! i)\<lparr>table := table (scopes s ! i) @ [(n, sy)]\<rparr>]\<rparr>)"

definition insert_symbol :: "name \<Rightarrow> symbol \<Rightarrow> sym_ref sem_m" where
  "insert_symbol n sy s =
     (case find_pos n (table (scopes s ! cur s)) of
        Some k \<Rightarrow>
          bindE (moduleName (scopes s) (cur s)) (\<lambda>m.
            Inl (Fatal (sym_loc sy) (''Redefinition of symbol '' @ quoted n @ '' previously declared at ''
              @ m @ '':'' @ show_loc (sym_loc (get_symbol (scopes s) (cur s, k))))))
      | None \<Rightarrow> bindS (checkIdentShadow n (sym_loc sy)) (\<lambda>_. addSymbol (cur s) n sy) s)"

text \<open>
  \<^verbatim>\<open>insert<sym::Object>\<close> and \<^verbatim>\<open>insert<sym::TypeAlias>\<close> with what \<^verbatim>\<open>traverse.cpp\<close> writes into the symbol right
  after.
\<close>

definition insert_object :: "name \<Rightarrow> loc \<Rightarrow> bool \<Rightarrow> expr_type \<Rightarrow> sym_ref sem_m" where
  "insert_object n l external etype = bindS (getS cur) (\<lambda>c.
     insert_symbol n \<lparr>sym_scope = Some c, sym_loc = l, referenced = external, sym_data = ObjectSym etype\<rparr>)"

definition insert_alias :: "name \<Rightarrow> loc \<Rightarrow> bool \<Rightarrow> rty \<Rightarrow> sym_ref sem_m" where
  "insert_alias n l strong t = bindS (getS cur) (\<lambda>c.
     insert_symbol n
       \<lparr>sym_scope = Some c, sym_loc = l, referenced = False, sym_data = TypeAliasSym strong t\<rparr>)"

text \<open>
  \<^verbatim>\<open>checkMethodCollide\<close> runs before the receiver is validated: the fields of its concrete type are those
  of the type itself or of the definition of its name.
\<close>

fun field_names :: "rty \<Rightarrow> name list" where
  "field_names (RStruct fs) = map fst fs"
| "field_names (RUser fs _ _ _) = map fst fs"
| "field_names _ = []"

definition receiver_fields :: "ty \<Rightarrow> name list sem_m" where
  "receiver_fields t =
     (case t of
        NamedType l n defn \<Rightarrow>
          bindS (lookupTypeName l n defn) (\<lambda>(_, u). retS (field_names (lookupConcreteType u)))
      | StructType _ fs \<Rightarrow> retS (map fst fs)
      | UserType _ fs _ _ _ \<Rightarrow> retS (map fst fs)
      | _ \<Rightarrow> retS [])"

definition checkMethodCollide :: "name \<Rightarrow> ty \<Rightarrow> loc \<Rightarrow> unit sem_m" where
  "checkMethodCollide n receiver l =
     bindS (receiver_fields receiver) (\<lambda>fs.
       if n \<in> set fs then failS (Fatal l (''Colliding function and field '' @ quoted n)) else retS ())"

definition checkFuncCollide :: "name \<Rightarrow> loc \<Rightarrow> expr_type list \<Rightarrow> unit sem_m" where
  "checkFuncCollide n l params s =
     bindE
       (foldE (\<lambda>k _.
          let sy = get_symbol (scopes s) (cur s, k) in
          case sym_data sy of
            FuncSym _ dup _ \<Rightarrow>
              if sameParams dup params then
                bindE (moduleName (scopes s) (cur s)) (\<lambda>m.
                  Inl (Fatal l (''Redefinition of function '' @ quoted n @ '' previously declared at ''
                    @ m @ '':'' @ show_loc (sym_loc sy))))
              else Inr ()
          | _ \<Rightarrow>
              bindE (moduleName (scopes s) (cur s)) (\<lambda>m.
                Inl (Fatal l (''Redefinition of function '' @ quoted n
                  @ '' previously declared (as a different kind of symbol) at '' @ m @ '':''
                  @ show_loc (sym_loc sy)))))
         (equal_range n (table (scopes s ! cur s))) ())
       (\<lambda>_. Inr ((), s))"

text \<open>
  \<^verbatim>\<open>insertFunc\<close>, for an \<^verbatim>\<open>ast::Func\<close> and for an \<^verbatim>\<open>ast::ExtFunc\<close>. The first parameter is the receiver, with a
  null type when there is none.
\<close>

definition insertFunc ::
  "bool \<Rightarrow> bool \<Rightarrow> (ParamRef \<times> ty) option \<Rightarrow> name \<Rightarrow> (ParamRef \<times> ty) list \<Rightarrow> ty option \<Rightarrow> loc \<Rightarrow> sym_ref sem_m"
where
  "insertFunc ext external receiver n params ret l =
     bindS (case receiver of
         None \<Rightarrow> retS null_type
       | Some (r, t) \<Rightarrow> bindS (validateType t) (\<lambda>t. retS (convert (r, t)))) (\<lambda>rec.
     bindS (validateParams params) (\<lambda>ps.
     bindS (validateOpt ret) (\<lambda>rt.
     bindS (checkFuncCollide n l (rec # map convert ps)) (\<lambda>_.
     bindS (checkIdentShadow n l) (\<lambda>_.
     bindS (getS cur) (\<lambda>c.
       addSymbol c n
         \<lparr>sym_scope = None, sym_loc = l, referenced = external,
           sym_data = FuncSym (convertNullable rt) (rec # map convert ps)
             \<lparr>fn_ext = ext, fn_receiver = (receiver \<noteq> None), fn_params = ps, fn_ret = rt\<rparr>\<rparr>))))))"

definition param_pair :: "FuncParam \<Rightarrow> ParamRef \<times> ty" where
  "param_pair p = (param_ref p, param_type p)"

definition insert_func ::
  "bool \<Rightarrow> FuncParam option \<Rightarrow> name \<Rightarrow> FuncParam list \<Rightarrow> ty option \<Rightarrow> loc \<Rightarrow> sym_ref sem_m" where
  "insert_func external receiver n params ret l = bindS (getS (\<lambda>s. stype (scopes s ! cur s))) (\<lambda>ty.
     if ty \<noteq> ns_scope then failS (Fatal l ''Functions must appear at global scope'')
     else
       bindS (case receiver of None \<Rightarrow> retS () | Some p \<Rightarrow> checkMethodCollide n (param_type p) l) (\<lambda>_.
         insertFunc False external (map_option param_pair receiver) n (map param_pair params) ret l))"

definition insert_ext_func ::
  "(ParamRef \<times> ty) option \<Rightarrow> name \<Rightarrow> (ParamRef \<times> ty) list \<Rightarrow> ty \<Rightarrow> sym_ref sem_m" where
  "insert_ext_func receiver n params ret = bindS (getS (\<lambda>s. stype (scopes s ! cur s))) (\<lambda>ty.
     if ty \<noteq> ns_scope then failS (Fatal no_loc ''External functions must appear at global scope'')
     else
       bindS (case receiver of None \<Rightarrow> retS () | Some (_, t) \<Rightarrow> checkMethodCollide n t no_loc) (\<lambda>_.
         insertFunc True False receiver n params (Some ret) no_loc))"

text \<open>\<^verbatim>\<open>makeParam\<close>; parameters go into the table without a test for duplicates.\<close>

definition addParam :: "nat \<Rightarrow> FuncParam \<times> expr_type \<Rightarrow> unit sem_m" where
  "addParam i p = bindS (addSymbol i (param_name (fst p))
     \<lparr>sym_scope = Some i, sym_loc = param_loc (fst p), referenced = False, sym_data = ObjectSym (snd p)\<rparr>)
     (\<lambda>_. retS ())"

definition func_params :: "symbol_data \<Rightarrow> expr_type list" where
  "func_params d = (case d of FuncSym _ ps _ \<Rightarrow> ps | LambdaSym _ ps _ \<Rightarrow> ps | _ \<Rightarrow> [])"

definition enterFuncScope :: "sym_ref \<Rightarrow> nat \<Rightarrow> FuncParam option \<Rightarrow> FuncParam list \<Rightarrow> unit sem_m" where
  "enterFuncScope r i receiver params =
     bindS (getS (\<lambda>s. func_params (sym_data (get_symbol (scopes s) r)))) (\<lambda>ps.
     bindS (mapS (addParam i) (zip params (tl ps))) (\<lambda>_.
       (case receiver of None \<Rightarrow> retS () | Some p \<Rightarrow> addParam i (p, hd ps))))"

fun symbol_ret :: "symbol_data \<Rightarrow> rty option" where
  "symbol_ret (FuncSym rt _ _) = et_type rt"
| "symbol_ret (LambdaSym rt _ _) = et_type rt"
| "symbol_ret _ = None"

fun set_ret :: "rty \<Rightarrow> symbol_data \<Rightarrow> symbol_data" where
  "set_ret t (FuncSym rt ps nd) = FuncSym (rt\<lparr>et_type := Some t\<rparr>) ps nd"
| "set_ret t (LambdaSym rt ps caps) = LambdaSym (rt\<lparr>et_type := Some t\<rparr>) ps caps"
| "set_ret t d = d"

fun set_node_ret :: "rty \<Rightarrow> symbol_data \<Rightarrow> symbol_data" where
  "set_node_ret t (FuncSym rt ps nd) = FuncSym rt ps (nd\<lparr>fn_ret := Some t\<rparr>)"
| "set_node_ret t d = d"

definition upd_data :: "(symbol_data \<Rightarrow> symbol_data) \<Rightarrow> sym_ref \<Rightarrow> unit sem_m" where
  "upd_data f r = modS (upd_symbol (\<lambda>sy. sy\<lparr>sym_data := f (sym_data sy)\<rparr>) r)"

text \<open>\<^verbatim>\<open>leaveFuncScope\<close> and \<^verbatim>\<open>leaveLambdaScope\<close>: the return type, which also becomes that of the node.\<close>

definition leaveFuncScope :: "sym_ref \<Rightarrow> rty sem_m" where
  "leaveFuncScope r =
     bindS (getS (\<lambda>s. symbol_ret (sym_data (get_symbol (scopes s) r)))) (\<lambda>rt.
       let t = (case rt of None \<Rightarrow> RBtn Void | Some t \<Rightarrow> t) in
       bindS (upd_data (\<lambda>d. set_node_ret t (set_ret t d)) r) (\<lambda>_. retS t))"

definition insert_lambda :: "(ParamRef \<times> rty) list \<Rightarrow> rty option \<Rightarrow> loc \<Rightarrow> sym_ref sem_m" where
  "insert_lambda params ret l = bindS (getS cur) (\<lambda>c.
     addSymbol c ''$lambda''
       \<lparr>sym_scope = None, sym_loc = l, referenced = True,
         sym_data = LambdaSym (convertNullable ret) (map convert params) []\<rparr>)"

definition enterLambdaScope :: "sym_ref \<Rightarrow> nat \<Rightarrow> FuncParam list \<Rightarrow> unit sem_m" where
  "enterLambdaScope r i params =
     bindS (getS (\<lambda>s. func_params (sym_data (get_symbol (scopes s) r)))) (\<lambda>ps.
     bindS (mapS (addParam i) (zip params ps)) (\<lambda>_. retS ()))"

definition set_scope :: "sym_ref \<Rightarrow> nat \<Rightarrow> unit sem_m" where
  "set_scope r i = modS (upd_symbol (\<lambda>sy. sy\<lparr>sym_scope := Some i\<rparr>) r)"

subsection \<open>The builtin module\<close>

definition insertType :: "BtnTypeEnum \<Rightarrow> name \<Rightarrow> name \<times> symbol" where
  "insertType e n =
     (n, \<lparr>sym_scope = None, sym_loc = no_loc, referenced = False, sym_data = TypeAliasSym False (RBtn e)\<rparr>)"

definition insertTypes :: "(name \<times> symbol) list" where
  "insertTypes =
     [insertType Opaq ''opaq'', insertType Bool ''bool'', insertType Byte ''byte'',
      insertType Char ''char'', insertType Real ''real'', insertType Sint ''sint'',
      insertType Uint ''uint'']"

text \<open>\<^verbatim>\<open>Builtins::string\<close>, the type of string literals.\<close>

definition btn_string :: rty where
  "btn_string = RArray (RNamed ''char'' False (RBtn Char))"

definition insertBtnFunc :: "BtnFuncEnum \<Rightarrow> name \<Rightarrow> name \<times> symbol" where
  "insertBtnFunc e n =
     (n, \<lparr>sym_scope = None, sym_loc = no_loc, referenced = False, sym_data = BtnFuncSym e\<rparr>)"

definition insertFuncs :: "(name \<times> symbol) list" where
  "insertFuncs =
     [insertBtnFunc fn_capacity ''capacity'', insertBtnFunc fn_size ''size'',
      insertBtnFunc fn_data ''data'', insertBtnFunc fn_push_back ''push_back'',
      insertBtnFunc fn_append ''append'', insertBtnFunc fn_pop_back ''pop_back'',
      insertBtnFunc fn_resize ''resize'', insertBtnFunc fn_reserve ''reserve'']"

definition makeBuiltinModule :: scope where
  "makeBuiltinModule =
     (make_scope None ns_scope None ''$builtin'')\<lparr>table := insertTypes @ insertFuncs\<rparr>"

subsection \<open>Unused symbols\<close>

definition warnUnused :: "name \<times> symbol \<Rightarrow> unit sem_m" where
  "warnUnused e =
     (if referenced (snd e) then retS ()
      else warnS (sym_loc (snd e)) (''Unused '' @ symbolDesc (sym_data (snd e)) @ '' '' @ quoted (fst e)))"

definition unusedScope :: "scope \<Rightarrow> unit sem_m" where
  "unusedScope sc =
     bindS (if smodule sc \<noteq> [] then modS (\<lambda>s. s\<lparr>log_mod := smodule sc\<rparr>) else retS ()) (\<lambda>_.
     bindS (mapS warnUnused (table sc)) (\<lambda>_. retS ()))"

definition checkScopes :: "unit sem_m" where
  "checkScopes s =
     (if 1 < length (scopes s) then bindS (mapS unusedScope (tl (scopes s))) (\<lambda>_. retS ()) s
      else Inl (Undefined ''assertion: scopes''))"

end
