(* ===== verification/Expr_Lookup.thy ===== *)
theory Expr_Lookup
  imports Scopes
begin

section \<open>Lookup of names in expressions\<close>

text \<open>
  \<^verbatim>\<open>src/Semantic/expr lookup.cpp\<close>: \<^verbatim>\<open>ExprLookup\<close> resolves identifiers, members and calls against the
  scopes, with the expression stack as its memory. What the code stores in the tree as a definition is
  returned here: the symbol of a called function or of a variable, the index of a field, the index of
  a capture.
\<close>

subsection \<open>The stack as part of the state\<close>

definition stackS :: "(expr_stack \<Rightarrow> expr_stack) \<Rightarrow> unit sem_m" where
  "stackS f = modS (\<lambda>s. s\<lparr>lkp_stack := f (lkp_stack s)\<rparr>)"

definition stackE :: "(expr_stack \<Rightarrow> expr_stack res) \<Rightarrow> unit sem_m" where
  "stackE f s = bindE (f (lkp_stack s)) (\<lambda>st. Inr ((), s\<lparr>lkp_stack := st\<rparr>))"

definition stackP :: "(expr_stack \<Rightarrow> ('a \<times> expr_stack) res) \<Rightarrow> 'a sem_m" where
  "stackP f s = bindE (f (lkp_stack s)) (\<lambda>(x, st). Inr (x, s\<lparr>lkp_stack := st\<rparr>))"

definition stackR :: "(expr_stack \<Rightarrow> 'a res) \<Rightarrow> 'a sem_m" where
  "stackR f s = bindE (f (lkp_stack s)) (\<lambda>x. Inr (x, s))"

subsection \<open>Functions\<close>

text \<open>The loop of \<^verbatim>\<open>lookupFun\<close> over the overloads in one scope.\<close>

fun pickOverload :: "scope list \<Rightarrow> nat \<Rightarrow> nat \<Rightarrow> name \<Rightarrow> expr_type list \<Rightarrow> loc \<Rightarrow> nat list \<Rightarrow> nat res" where
  "pickOverload scs c i n args l [] = Inl (Fatal l (''No matching call to function '' @ quoted n))"
| "pickOverload scs c i n args l (k # ks) =
     (let sy = get_symbol scs (i, k) in
      case sym_data sy of
        FuncSym _ params _ \<Rightarrow>
          if compatParams params args then Inr k else pickOverload scs c i n args l ks
      | _ \<Rightarrow>
          bindE (moduleName scs c) (\<lambda>m.
            Inl (Fatal l (''Calling '' @ quoted n @ '' declarared at '' @ m @ '':''
              @ show_loc (sym_loc sy) @ '' but it is not a function''))))"

definition lookupFun :: "name \<Rightarrow> expr_type list \<Rightarrow> loc \<Rightarrow> sym_ref sem_m" where
  "lookupFun n args l s =
     (case climb (\<lambda>i. if equal_range n (table (scopes s ! i)) = [] then None else Some i)
         (scopes s) (cur s) of
        None \<Rightarrow> Inl (Fatal l (''Use of undefined symbol '' @ quoted n))
      | Some i \<Rightarrow>
          bindE (pickOverload (scopes s) (cur s) i n args l (equal_range n (table (scopes s ! i)))) (\<lambda>k.
            Inr ((i, k), upd_symbol set_referenced (i, k) s)))"

definition pushReceiver :: "expr_type \<Rightarrow> expr_type list \<Rightarrow> expr_type list" where
  "pushReceiver receiver args = receiver # args"

fun func_ret :: "symbol_data \<Rightarrow> expr_type" where
  "func_ret (FuncSym rt _ _) = rt"
| "func_ret _ = null_type"

definition popCallPushRet :: "sym_ref \<Rightarrow> sym_ref option sem_m" where
  "popCallPushRet r =
     bindS (stackE popCall) (\<lambda>_.
     bindS (getS (\<lambda>s. func_ret (sym_data (get_symbol (scopes s) r)))) (\<lambda>rt.
     bindS (stackS (pushExpr rt)) (\<lambda>_. retS (Some r))))"

definition ret_known :: "sym_ref \<Rightarrow> bool sem_m" where
  "ret_known r = getS (\<lambda>s. et_type (func_ret (sym_data (get_symbol (scopes s) r))) \<noteq> None)"

text \<open>The four branches of \<^verbatim>\<open>lookupFunc\<close>: a method, a function, a builtin function and a function object.\<close>

definition callMethod :: "expr_type list \<Rightarrow> loc \<Rightarrow> sym_ref option sem_m" where
  "callMethod args l =
     bindS (stackP popExpr) (\<lambda>receiver.
     bindS (stackP popMember) (\<lambda>n.
     bindS (lookupFun n (pushReceiver receiver args) l) (\<lambda>r.
     bindS (ret_known r) (\<lambda>known.
       if known then popCallPushRet r
       else failS (Undefined ''assertion: return type of method'')))))"

definition callFree :: "expr_type list \<Rightarrow> loc \<Rightarrow> sym_ref option sem_m" where
  "callFree args l =
     bindS (stackP popFunc) (\<lambda>n.
     bindS (lookupFun n (pushReceiver null_type args) l) (\<lambda>r.
     bindS (ret_known r) (\<lambda>known.
       if known then popCallPushRet r
       else failS (Fatal l (''Return type of function '' @ quoted n @ '' cannot be deduced'')))))"

definition callBuiltin :: "expr_type list \<Rightarrow> loc \<Rightarrow> sym_ref option sem_m" where
  "callBuiltin args l =
     bindS (stackP popBtnFunc) (\<lambda>n.
     bindS (getS (\<lambda>s. findScope (scopes s) (cur s) n)) (\<lambda>found.
     bindS (getS (\<lambda>s. map_option (\<lambda>r. sym_data (get_symbol (scopes s) r)) found)) (\<lambda>d.
     bindS (stackE popCall) (\<lambda>_.
       case d of
         Some (BtnFuncSym fn) \<Rightarrow>
           bindS (liftE (callBtnFunc fn args l)) (\<lambda>t.
           bindS (stackS (pushExpr (makeLetVal (Some t)))) (\<lambda>_. retS found))
       | _ \<Rightarrow> failS (Undefined ''assertion: down cast'')))))"

text \<open>The type of a function object is cast without looking through aliases.\<close>

definition callObject :: "expr_type list \<Rightarrow> loc \<Rightarrow> sym_ref option sem_m" where
  "callObject args l =
     bindS (stackP popExpr) (\<lambda>e.
     bindS (stackE popCall) (\<lambda>_.
       case Option.bind (et_type e) as_func of
         None \<Rightarrow> failS (Fatal l ''Calling an expression but it is not a function object'')
       | Some (params, ret) \<Rightarrow>
           if \<not> compatParams (map convert params) args
           then failS (Fatal l ''No matching call to function object'')
           else if ret = None then failS (Undefined ''assertion: return type of function object'')
           else bindS (stackS (pushExpr (convertNullable ret))) (\<lambda>_. retS None)))"

definition lookupFunc :: "expr_type list \<Rightarrow> loc \<Rightarrow> sym_ref option sem_m" where
  "lookupFunc args l = bindS (getS (\<lambda>s. exprs (lkp_stack s))) (\<lambda>es.
     if memFunExpr K_expr es then callMethod args l
     else if callExpr K_func es then callFree args l
     else if callExpr K_btn_func es then callBuiltin args l
     else if callExpr K_expr es then callObject args l
     else failS (Undefined ''unreachable''))"

subsection \<open>Members\<close>

fun find_field :: "name \<Rightarrow> (name \<times> rty) list \<Rightarrow> nat \<Rightarrow> (nat \<times> rty) option" where
  "find_field n [] i = None"
| "find_field n ((m, t) # fs) i = (if m = n then Some (i, t) else find_field n fs (Suc i))"

definition lookupField :: "(name \<times> rty) list \<Rightarrow> rty option \<Rightarrow> name \<Rightarrow> loc \<Rightarrow> nat option sem_m" where
  "lookupField fs type n l =
     (case find_field n fs 0 of
        None \<Rightarrow> liftE (failType l (''No field '' @ quoted n @ '' found in '') type [])
      | Some (i, t) \<Rightarrow> bindS (stackS (pushMemberExpr (Some t))) (\<lambda>_. retS (Some i)))"

definition lookupMember :: "loc \<Rightarrow> nat option sem_m" where
  "lookupMember l = bindS (getS (\<lambda>s. exprs (lkp_stack s))) (\<lambda>es.
     if \<not> memVarExpr K_expr es then retS None
     else
       bindS (stackP popExpr) (\<lambda>e.
       bindS (stackP popMember) (\<lambda>n.
       let conc = map_option lookupConcreteType (et_type e) in
       if compareTypes conc (Some (RBtn Void)) then
         failS (Fatal l (''Cannot access field '' @ quoted n @ '' of void expression''))
       else
         case conc of
           Some (RStruct fs) \<Rightarrow> lookupField fs (et_type e) n l
         | Some (RUser fs _ _ _) \<Rightarrow> lookupField (map (\<lambda>(m, t, _). (m, t)) fs) (et_type e) n l
         | _ \<Rightarrow> liftE (failType l (''Cannot access field '' @ quoted n @ '' of '') (et_type e) []))))"

subsection \<open>Captures\<close>

fun captures_of :: "symbol_data \<Rightarrow> closure_cap list option" where
  "captures_of (LambdaSym _ _ caps) = Some caps"
| "captures_of _ = None"

fun add_capture :: "closure_cap \<Rightarrow> symbol_data \<Rightarrow> symbol_data" where
  "add_capture cap (LambdaSym rt ps caps) = LambdaSym rt ps (caps @ [cap])"
| "add_capture cap d = d"

text \<open>The captures of the lambda of a closure scope, \<^verbatim>\<open>assertDownCast<sym::Lambda>(scope->symbol)\<close>.\<close>

definition closure_captures :: "scope list \<Rightarrow> nat \<Rightarrow> (sym_ref \<times> closure_cap list) res" where
  "closure_captures scs i =
     (case scope_sym (scs ! i) of
        None \<Rightarrow> Inl (Undefined ''assertion: down cast'')
      | Some r \<Rightarrow>
          (case captures_of (sym_data (get_symbol scs r)) of
             None \<Rightarrow> Inl (Undefined ''assertion: down cast'')
           | Some caps \<Rightarrow> Inr (r, caps)))"

fun find_capture :: "sym_ref \<Rightarrow> closure_cap list \<Rightarrow> nat \<Rightarrow> nat option" where
  "find_capture obj [] c = None"
| "find_capture obj (cap # caps) c = (if cap_object cap = obj then Some c else find_capture obj caps (Suc c))"

definition pushCapture :: "sym_ref \<Rightarrow> closure_cap \<Rightarrow> nat \<Rightarrow> u32 option sem_m" where
  "pushCapture r cap len = bindS (upd_data (add_capture cap) r) (\<lambda>_. retS (Some (of_nat len)))"

text \<open>
  \<^verbatim>\<open>lambdaCapture\<close> for the object \<open>obj\<close> of the type \<open>t\<close> in the scope \<open>sc\<close>, seen from the scope \<open>i\<close>: the index of
  the capture when the closure around \<open>i\<close> has to capture it.
\<close>

function lambdaCapture :: "sym_ref \<Rightarrow> rty option \<Rightarrow> nat \<Rightarrow> nat \<Rightarrow> u32 option sem_m" where
  "lambdaCapture obj t sc i s =
     (if stype (scopes s ! sc) = ns_scope then Inr (None, s)
      else case findNearest closure_scope (scopes s) i of
        None \<Rightarrow> Inr (None, s)
      | Some cl \<Rightarrow>
          if findNearest closure_scope (scopes s) sc = Some cl then Inr (None, s)
          else
            bindE (closure_captures (scopes s) cl) (\<lambda>(r, caps).
              case find_capture obj caps 0 of
                Some c \<Rightarrow> Inr (Some (of_nat c), s)
              | None \<Rightarrow>
                  let direct = pushCapture r \<lparr>cap_type = t, cap_object = obj, cap_index = - 1\<rparr> (length caps) in
                  case parent (scopes s ! cl) of
                    None \<Rightarrow> direct s
                  | Some p \<Rightarrow>
                      (case findNearest closure_scope (scopes s) p of
                         None \<Rightarrow> direct s
                       | Some pc \<Rightarrow>
                           if \<not> p < i then Inl Out_of_fuel
                           else
                             bindE (lambdaCapture obj t sc p s) (\<lambda>(captured, s).
                               if captured = None then direct s
                               else
                                 bindE (closure_captures (scopes s) pc) (\<lambda>(_, pcaps).
                                   case find_capture obj pcaps 0 of
                                     None \<Rightarrow> Inl (Undefined ''unreachable'')
                                   | Some c \<Rightarrow>
                                       pushCapture r
                                         \<lparr>cap_type = t, cap_object = obj, cap_index = of_nat c\<rparr>
                                         (length caps) s)))))"
  by auto
termination by (relation "measure (\<lambda>(_, _, _, i, _). i)") auto

declare lambdaCapture.simps [simp del]

subsection \<open>Identifiers\<close>

definition addressOfFunc :: "symbol_data \<Rightarrow> loc \<Rightarrow> func_node res" where
  "addressOfFunc d l =
     (case d of
        FuncSym _ _ nd \<Rightarrow>
          if fn_ext nd then Inl (Fatal l ''Cannot take the address of an external function'') else Inr nd
      | _ \<Rightarrow> Inl (Undefined ''assertion: down cast''))"

text \<open>The loop of \<^verbatim>\<open>pushFunPtr\<close> over several overloads.\<close>

fun pickFunPtr :: "scope list \<Rightarrow> nat \<Rightarrow> name \<Rightarrow> rty option \<Rightarrow> loc \<Rightarrow> nat list \<Rightarrow> (nat \<times> rty) res" where
  "pickFunPtr scs i n ex l [] = Inl (Fatal l (''No overload of function '' @ quoted n @ '' matches signature''))"
| "pickFunPtr scs i n ex l (k # ks) =
     bindE (addressOfFunc (sym_data (get_symbol scs (i, k))) l) (\<lambda>nd.
     bindE (getFuncType nd l) (\<lambda>t.
       if compareTypes ex (Some t) then Inr (k, t) else pickFunPtr scs i n ex l ks))"

definition chooseFunPtr :: "scope list \<Rightarrow> nat \<Rightarrow> name \<Rightarrow> rty option \<Rightarrow> loc \<Rightarrow> (nat \<times> rty) res" where
  "chooseFunPtr scs i n ex l =
     (case equal_range n (table (scs ! i)) of
        [] \<Rightarrow> Inl (Undefined ''assertion: no symbol'')
      | [k] \<Rightarrow>
          bindE (addressOfFunc (sym_data (get_symbol scs (i, k))) l) (\<lambda>nd.
          bindE (getFuncType nd l) (\<lambda>t.
            if ex \<noteq> None \<and> \<not> compareTypes ex (Some t)
            then Inl (Fatal l (''Function '' @ quoted n @ '' does not match signature''))
            else Inr (k, t)))
      | ks \<Rightarrow>
          if ex = None then Inl (Fatal l (''Ambiguous reference to overloaded function '' @ quoted n))
          else pickFunPtr scs i n ex l ks)"

definition pushFunPtr :: "nat \<Rightarrow> name \<Rightarrow> loc \<Rightarrow> sym_ref sem_m" where
  "pushFunPtr i n l =
     bindS (getS (\<lambda>s. chooseFunPtr (scopes s) i n (expType s) l)) (\<lambda>choice.
     bindS (liftE choice) (\<lambda>(k, t).
     bindS (modS (upd_symbol set_referenced (i, k))) (\<lambda>_.
     bindS (stackS (pushExpr (makeLetVal (Some t)))) (\<lambda>_. retS (i, k)))))"

definition lookupObject :: "sym_ref \<Rightarrow> expr_type \<Rightarrow> sym_ref option sem_m" where
  "lookupObject r etype =
     bindS (modS (upd_symbol set_referenced r)) (\<lambda>_.
     bindS (getS cur) (\<lambda>c.
     bindS (lambdaCapture r (et_type etype) (fst r) c) (\<lambda>captured.
     bindS (stackS (pushExpr (if captured \<noteq> None then makeVarVal (et_type etype) else etype))) (\<lambda>_.
       retS (Some r)))))"

definition lookupIdent :: "loc \<Rightarrow> name \<Rightarrow> sym_ref option sem_m" where
  "lookupIdent l n =
     bindS (getS (\<lambda>s. findScope (scopes s) (cur s) n)) (\<lambda>found.
       case found of
         None \<Rightarrow> failS (Fatal l (''Use of undefined symbol '' @ quoted n))
       | Some r \<Rightarrow>
           bindS (getS (\<lambda>s. sym_data (get_symbol (scopes s) r))) (\<lambda>d.
             case d of
               ObjectSym etype \<Rightarrow> lookupObject r etype
             | FuncSym _ _ _ \<Rightarrow>
                 bindS (stackR top_kind) (\<lambda>k.
                   if k = K_call then bindS (stackS (pushFunc n)) (\<lambda>_. retS None)
                   else bindS (pushFunPtr (fst r) n l) (\<lambda>f. retS (Some f)))
             | BtnFuncSym _ \<Rightarrow>
                 bindS (stackR top_kind) (\<lambda>k.
                   if k \<noteq> K_call then
                     failS (Fatal l (''Reference to builtin function '' @ quoted n @ '' must be called''))
                   else bindS (stackS (pushBtnFunc n)) (\<lambda>_. retS None))
             | _ \<Rightarrow>
                 failS (Fatal l (''Expected variable or function but found '' @ symbolDesc d @ '' ''
                   @ quoted n))))"

end
