(* ===== verification/Missing_Return.thy ===== *)
theory Missing_Return
  imports Ast
begin

section \<open>The check for missing returns\<close>

text \<open>
  \<^verbatim>\<open>src/Semantic/check missing return.cpp\<close>. The visitor keeps two variables, \<^verbatim>\<open>term\<close> and \<^verbatim>\<open>occurs\<close>: the way
  control leaves the statement visited last and whether it does. A statement for which the visitor has
  no override leaves both as they are. The visitor rewrites the tree as it goes: it appends a
  \<open>Terminate\<close> to a block that may fall through and sets the flag of a switch. The second part is the
  control flow that \<^verbatim>\<open>src/CodeGen/generate stat.cpp\<close> gives to the same statements, as a big-step relation
  from a statement to the ways it can be left; conditions are not evaluated, either branch may be taken.
\<close>

datatype Term = continues | breaks | returns

datatype Occurs = no | maybe | yes

record flow =
  terminator :: Term
  occurs :: Occurs

fun term_rank :: "Term \<Rightarrow> nat" where
  "term_rank continues = 0"
| "term_rank breaks = 1"
| "term_rank returns = 2"

definition maxTerm :: "Term \<Rightarrow> Term \<Rightarrow> Term" where
  "maxTerm a b = (if term_rank a < term_rank b then b else a)"

definition unreachable_error :: "loc \<Rightarrow> error" where
  "unreachable_error l = Fatal l ''Unreachable code''"

definition may_continue_error :: "loc \<Rightarrow> error" where
  "may_continue_error l = Fatal l ''Case may continue but this case does not precede another''"

definition afterIf :: "flow \<Rightarrow> flow \<Rightarrow> flow" where
  "afterIf troo f =
     f\<lparr>occurs := (if occurs f \<noteq> occurs troo \<or> terminator f \<noteq> terminator troo then maybe else occurs f),
       terminator := (if terminator troo = returns then returns else terminator f)\<rparr>"

definition afterLoop :: "flow \<Rightarrow> flow" where
  "afterLoop f =
     (if terminator f = returns then
        (if occurs f \<noteq> no then f\<lparr>occurs := maybe\<rparr> else f)
      else f\<lparr>terminator := returns, occurs := no\<rparr>)"

text \<open>The counters of \<^verbatim>\<open>visit(ast::Switch &)\<close>.\<close>

record switch_count =
  foundDefault :: bool
  retCount :: nat
  totalCases :: nat
  maybeRet :: bool

definition countCase :: "flow \<Rightarrow> switch_count \<Rightarrow> switch_count" where
  "countCase f k =
     (if terminator f = returns then
        (if occurs f = maybe then k\<lparr>maybeRet := True\<rparr>
         else if occurs f = yes then k\<lparr>retCount := Suc (retCount k)\<rparr>
         else k)
      else if terminator f = continues \<and> occurs f = yes then k\<lparr>totalCases := totalCases k - 1\<rparr>
      else k)"

definition afterSwitch :: "switch_count \<Rightarrow> flow \<Rightarrow> flow" where
  "afterSwitch k f =
     f\<lparr>terminator := returns,
       occurs :=
         (if retCount k = totalCases k \<and> foundDefault k then yes
          else if maybeRet k \<or> retCount k \<noteq> 0 then maybe
          else no)\<rparr>"

text \<open>
  \<^verbatim>\<open>visit\<close> on a statement, on the nodes of a block from one node on (with \<^verbatim>\<open>maybeLeave\<close> and \<^verbatim>\<open>blockTerm\<close>),
  and on the cases of a switch from one case on.
\<close>

fun visit_stat :: "stat \<Rightarrow> flow \<Rightarrow> (stat \<times> flow) res"
  and visit_nodes :: "stat list \<Rightarrow> bool \<Rightarrow> Term \<Rightarrow> flow \<Rightarrow> (stat list \<times> bool \<times> Term \<times> flow) res"
  and visit_cases :: "(loc \<times> expr option \<times> stat) list \<Rightarrow> switch_count \<Rightarrow> flow
    \<Rightarrow> ((loc \<times> expr option \<times> stat) list \<times> switch_count \<times> flow) res" where
  "visit_stat (Block l nodes) f =
     bindE (visit_nodes nodes False continues (f\<lparr>occurs := no\<rparr>)) (\<lambda>(nodes, maybeLeave, blockTerm, f).
       let f = f\<lparr>terminator := blockTerm, occurs := (if maybeLeave then maybe else occurs f)\<rparr>
       in Inr (Block l (if occurs f \<noteq> yes then nodes @ [Terminate] else nodes), f))"
| "visit_stat (If l c body None) f =
     bindE (visit_stat body f) (\<lambda>(body, troo).
       Inr (If l c body None, afterIf troo (troo\<lparr>occurs := no\<rparr>)))"
| "visit_stat (If l c body (Some other)) f =
     bindE (visit_stat body f) (\<lambda>(body, troo).
     bindE (visit_stat other troo) (\<lambda>(other, f).
       Inr (If l c body (Some other), afterIf troo f)))"
| "visit_stat (Switch l e cases always) f =
     bindE (visit_cases cases
         \<lparr>foundDefault = False, retCount = 0, totalCases = length cases, maybeRet = False\<rparr> f)
       (\<lambda>(cases, k, f). let f = afterSwitch k f in Inr (Switch l e cases (occurs f = yes), f))"
| "visit_stat (Break l) f = Inr (Break l, f\<lparr>terminator := breaks, occurs := yes\<rparr>)"
| "visit_stat (Continue l) f = Inr (Continue l, f\<lparr>terminator := continues, occurs := yes\<rparr>)"
| "visit_stat (Return l e) f = Inr (Return l e, f\<lparr>terminator := returns, occurs := yes\<rparr>)"
| "visit_stat (While l c body) f =
     bindE (visit_stat body f) (\<lambda>(body, f). Inr (While l c body, afterLoop f))"
| "visit_stat (For l init c incr body) f =
     bindE (visit_stat body f) (\<lambda>(body, f). Inr (For l init c incr body, afterLoop f))"
| "visit_stat Terminate f = Inr (Terminate, f)"
| "visit_stat (SDecl d) f = Inr (SDecl d, f)"
| "visit_stat (SAsgn a) f = Inr (SAsgn a, f)"
| "visit_nodes [] maybeLeave blockTerm f = Inr ([], maybeLeave, blockTerm, f)"
| "visit_nodes (s # nodes) maybeLeave blockTerm f =
     bindE (visit_stat s f) (\<lambda>(s, f).
       if occurs f = yes \<and> nodes \<noteq> [] then Inl (unreachable_error (stat_loc (hd nodes)))
       else
         bindE (visit_nodes nodes (maybeLeave \<or> (occurs f = maybe \<and> terminator f \<noteq> returns))
             (maxTerm blockTerm (terminator f)) f)
           (\<lambda>(nodes, r). Inr (s # nodes, r)))"
| "visit_cases [] k f = Inr ([], k, f)"
| "visit_cases ((l, e, body) # cases) k f =
     bindE (visit_stat body f) (\<lambda>(body, f).
       if terminator f = continues \<and> occurs f \<noteq> no \<and> cases = [] then Inl (may_continue_error l)
       else
         bindE (visit_cases cases (countCase f (k\<lparr>foundDefault := foundDefault k \<or> e = None\<rparr>)) f)
           (\<lambda>(cases, r). Inr ((l, e, body) # cases, r)))"

text \<open>
  \<^verbatim>\<open>checkMissingRet\<close> on the body of a function, given whether its return type is \<^verbatim>\<open>void\<close>, and the nodes
  of the body afterwards.
\<close>

definition checkMissingRet :: "bool \<Rightarrow> loc \<Rightarrow> loc \<Rightarrow> stat list \<Rightarrow> stat list res" where
  "checkMissingRet retVoid l bl nodes =
     bindE (visit_stat (Block bl nodes) \<lparr>terminator = continues, occurs = no\<rparr>) (\<lambda>(b, f).
       let nodes = (case b of Block _ ns \<Rightarrow> ns | _ \<Rightarrow> []) in
       if retVoid \<and> (occurs f = no \<or> occurs f = maybe) then
         Inr ((if nodes \<noteq> [] \<and> last nodes = Terminate then butlast nodes else nodes)
           @ [Return no_loc None])
       else if occurs f = no then Inl (Fatal l ''Non-void function does not return'')
       else if occurs f = maybe then Inl (Fatal l ''Non-void function may not return'')
       else Inr nodes)"

subsection \<open>The control flow of the generated code\<close>

text \<open>
  The ways to leave a statement. \<^verbatim>\<open>continue\<close> in the last case of a switch has no block to branch to:
  \<open>Stuck\<close>.
\<close>

datatype outcome = Falls | Breaks | Continues | Returns | Stuck

inductive exec :: "stat \<Rightarrow> outcome \<Rightarrow> bool"
  and execs :: "stat list \<Rightarrow> outcome \<Rightarrow> bool"
  and exec_cases :: "(loc \<times> expr option \<times> stat) list \<Rightarrow> outcome \<Rightarrow> bool" where
  exec_Block: "execs nodes r \<Longrightarrow> exec (Block l nodes) r"
| exec_If_true: "exec body r \<Longrightarrow> exec (If l c body other) r"
| exec_If_false: "exec other r \<Longrightarrow> exec (If l c body (Some other)) r"
| exec_If_skip: "exec (If l c body None) Falls"
| exec_Switch_case: "exec_cases (drop i cases) r \<Longrightarrow> i < length cases \<Longrightarrow> exec (Switch l e cases a) r"
| exec_Switch_skip: "\<forall>(_, e, _) \<in> set cases. e \<noteq> None \<Longrightarrow> exec (Switch l e cases a) Falls"
| exec_Terminate: "exec Terminate Falls"
| exec_Break: "exec (Break l) Breaks"
| exec_Continue: "exec (Continue l) Continues"
| exec_Return: "exec (Return l e) Returns"
| exec_While_skip: "exec (While l c body) Falls"
| exec_While_break: "exec body Breaks \<Longrightarrow> exec (While l c body) Falls"
| exec_While_loop:
    "exec body r \<Longrightarrow> r \<in> {Falls, Continues} \<Longrightarrow> exec (While l c body) r' \<Longrightarrow> exec (While l c body) r'"
| exec_While_leave: "exec body r \<Longrightarrow> r \<in> {Returns, Stuck} \<Longrightarrow> exec (While l c body) r"
| exec_For_skip: "exec (For l init c incr body) Falls"
| exec_For_break: "exec body Breaks \<Longrightarrow> exec (For l init c incr body) Falls"
| exec_For_loop:
    "exec body r \<Longrightarrow> r \<in> {Falls, Continues} \<Longrightarrow> exec (For l init c incr body) r'
      \<Longrightarrow> exec (For l init c incr body) r'"
| exec_For_leave: "exec body r \<Longrightarrow> r \<in> {Returns, Stuck} \<Longrightarrow> exec (For l init c incr body) r"
| exec_SDecl: "exec (SDecl d) Falls"
| exec_SAsgn: "exec (SAsgn a) Falls"
| execs_Nil: "execs [] Falls"
| execs_next: "exec s Falls \<Longrightarrow> execs nodes r \<Longrightarrow> execs (s # nodes) r"
| execs_leave: "exec s r \<Longrightarrow> r \<noteq> Falls \<Longrightarrow> execs (s # nodes) r"
| cases_done: "exec body r \<Longrightarrow> r \<in> {Falls, Breaks} \<Longrightarrow> exec_cases ((l, e, body) # cases) Falls"
| cases_next: "exec body Continues \<Longrightarrow> exec_cases cases r \<Longrightarrow> exec_cases ((l, e, body) # cases) r"
| cases_last: "exec body Continues \<Longrightarrow> exec_cases [(l, e, body)] Stuck"
| cases_leave: "exec body r \<Longrightarrow> r \<in> {Returns, Stuck} \<Longrightarrow> exec_cases ((l, e, body) # cases) r"

inductive_cases exec_BlockE: "exec (Block l nodes) r"
inductive_cases exec_IfE: "exec (If l c body other) r"
inductive_cases exec_SwitchE: "exec (Switch l e cases a) r"
inductive_cases exec_simpleE:
  "exec Terminate r" "exec (Break l) r" "exec (Continue l) r" "exec (Return l e) r"
  "exec (SDecl d) r" "exec (SAsgn a) r"
inductive_cases execs_NilE: "execs [] r"
inductive_cases execs_ConsE: "execs (s # nodes) r"
inductive_cases exec_cases_NilE: "exec_cases [] r"
inductive_cases exec_cases_ConsE: "exec_cases (c # cases) r"

subsection \<open>Statements the check is right about\<close>

text \<open>
  \<open>jump_free s\<close>: no \<^verbatim>\<open>break\<close> or \<^verbatim>\<open>continue\<close> of \<open>s\<close> leaves \<open>s\<close>. \<open>structured s\<close>: both branches of an \<^verbatim>\<open>if\<close> with
  an \<^verbatim>\<open>else\<close> and the bodies of all cases are statements that the visitor overrides (blocks, for
  example), and the bodies of cases are left by neither \<^verbatim>\<open>break\<close> nor \<^verbatim>\<open>continue\<close>. The theorems
  \<open>missing_return_stale\<close> and \<open>missing_return_break\<close> show that neither condition can be dropped.
\<close>

fun is_control :: "stat \<Rightarrow> bool" where
  "is_control Terminate = False"
| "is_control (SDecl _) = False"
| "is_control (SAsgn _) = False"
| "is_control _ = True"

fun jump_free :: "stat \<Rightarrow> bool" where
  "jump_free (Block l nodes) = (\<forall>s \<in> set nodes. jump_free s)"
| "jump_free (If l c body None) = jump_free body"
| "jump_free (If l c body (Some other)) = (jump_free body \<and> jump_free other)"
| "jump_free (Break l) = False"
| "jump_free (Continue l) = False"
| "jump_free _ = True"

fun structured :: "stat \<Rightarrow> bool" where
  "structured (Block l nodes) = (\<forall>s \<in> set nodes. structured s)"
| "structured (If l c body None) = structured body"
| "structured (If l c body (Some other)) =
     (structured body \<and> structured other \<and> is_control body \<and> is_control other)"
| "structured (Switch l e cases a) =
     (\<forall>(_, _, body) \<in> set cases. structured body \<and> is_control body \<and> jump_free body)"
| "structured (While l c body) = structured body"
| "structured (For l init c incr body) = structured body"
| "structured _ = True"

lemma jump_free_outcome:
  "exec s r \<Longrightarrow> jump_free s \<Longrightarrow> r \<notin> {Breaks, Continues}"
  "execs nodes r \<Longrightarrow> \<forall>s \<in> set nodes. jump_free s \<Longrightarrow> r \<notin> {Breaks, Continues}"
  "exec_cases cs r \<Longrightarrow> r \<notin> {Breaks, Continues}"
  by (induction rule: exec_execs_exec_cases.inducts)
    (auto split: option.splits dest: in_set_dropD elim: jump_free.elims)

lemma structured_outcome:
  "exec s r \<Longrightarrow> structured s \<Longrightarrow> r \<noteq> Stuck"
  "execs nodes r \<Longrightarrow> \<forall>s \<in> set nodes. structured s \<Longrightarrow> r \<noteq> Stuck"
  "exec_cases cs r \<Longrightarrow> \<forall>(_, _, body) \<in> set cs. structured body \<and> jump_free body \<Longrightarrow> r \<noteq> Stuck"
proof (induction rule: exec_execs_exec_cases.inducts)
  case (exec_If_true body r l c other)
  then show ?case by (cases other) auto
next
  case (exec_Switch_case i cases r l e a)
  then show ?case by (fastforce dest: in_set_dropD)
next
  case (cases_last body l e)
  then show ?case using jump_free_outcome(1) by fastforce
qed auto

text \<open>The rewriting keeps the shape.\<close>

lemma visit_keeps:
  "visit_stat s f = Inr (s', f') \<Longrightarrow>
     jump_free s' = jump_free s \<and> structured s' = structured s \<and> is_control s' = is_control s"
  "visit_nodes nodes ml bt f = Inr (nodes', ml', bt', f') \<Longrightarrow>
     (\<forall>s \<in> set nodes'. jump_free s) = (\<forall>s \<in> set nodes. jump_free s)
     \<and> (\<forall>s \<in> set nodes'. structured s) = (\<forall>s \<in> set nodes. structured s)"
  "visit_cases cs k f = Inr (cs', k', f') \<Longrightarrow>
     (\<forall>(_, _, body) \<in> set cs'. structured body \<and> is_control body \<and> jump_free body)
     = (\<forall>(_, _, body) \<in> set cs. structured body \<and> is_control body \<and> jump_free body)"
proof (induction s f and nodes ml bt f and cs k f arbitrary: s' f' and nodes' ml' bt' f' and cs' k' f'
    rule: visit_stat_visit_nodes_visit_cases.induct)
  case (1 l nodes f)
  then show ?case by (fastforce simp: Let_def split: if_splits)
qed (fastforce simp: Let_def split: if_splits)+

text \<open>What \<open>occurs = yes\<close> means: control does not reach the end of the statement.\<close>

lemma afterIf_yes: "occurs (afterIf troo f) = yes \<longleftrightarrow> occurs f = yes \<and> occurs troo = yes \<and> terminator f = terminator troo"
  by (cases "occurs f"; cases "occurs troo") (auto simp: afterIf_def)

lemma afterLoop_yes: "occurs (afterLoop f) \<noteq> yes"
  by (auto simp: afterLoop_def)

lemma noncontrol_visit: "\<not> is_control s \<Longrightarrow> visit_stat s f = Inr (s', f') \<Longrightarrow> s' = s \<and> f' = f"
  by (cases s) auto

lemma cases_never_fall:
  assumes "exec_cases cs r"
    and "\<forall>(_, _, body) \<in> set cs. jump_free body \<and> \<not> exec body Falls"
  shows "r \<noteq> Falls"
  using assms
proof (induction cs)
  case Nil
  then show ?case by (auto elim: exec_cases_NilE)
next
  case (Cons c cs)
  from Cons.prems(1) show ?case
    by (rule exec_cases_ConsE) (use Cons.prems(2) jump_free_outcome(1) in \<open>fastforce+\<close>)
qed

lemma countCase_simps [simp]: "foundDefault (countCase f k) = foundDefault k"
  by (simp add: countCase_def)

lemma visit_cases_default:
  "visit_cases cs k f = Inr (cs', k', f') \<Longrightarrow>
     foundDefault k' = (foundDefault k \<or> (\<exists>(_, e, _) \<in> set cs'. e = None)) \<and> length cs' = length cs"
  by (induction cs arbitrary: k f cs' k' f') (fastforce split: if_splits)+

lemma visit_yes:
  "visit_stat s f = Inr (s', f') \<Longrightarrow> structured s \<Longrightarrow> is_control s \<Longrightarrow> occurs f' = yes
     \<Longrightarrow> \<not> exec s' Falls"
  "visit_nodes nodes ml bt f = Inr (nodes', ml', bt', f') \<Longrightarrow> \<forall>s \<in> set nodes. structured s
     \<Longrightarrow> occurs f \<noteq> yes \<Longrightarrow> occurs f' = yes \<Longrightarrow> \<not> execs nodes' Falls"
  "visit_cases cs k f = Inr (cs', k', f')
     \<Longrightarrow> \<forall>(_, _, body) \<in> set cs. structured body \<and> is_control body \<and> jump_free body
     \<Longrightarrow> retCount k + length cs \<le> totalCases k
     \<Longrightarrow> retCount k' \<le> totalCases k' \<and> (retCount k' = totalCases k'
           \<longrightarrow> retCount k + length cs = totalCases k \<and> (\<forall>(_, _, body) \<in> set cs'. \<not> exec body Falls))"
proof (induction s f and nodes ml bt f and cs k f arbitrary: s' f' and nodes' ml' bt' f' and cs' k' f'
    rule: visit_stat_visit_nodes_visit_cases.induct)
  case (1 l nodes f)
  then obtain nodes1 ml1 bt1 f1 where
    v: "visit_nodes nodes False continues (f\<lparr>occurs := no\<rparr>) = Inr (nodes1, ml1, bt1, f1)"
    and s': "s' = Block l nodes1" "occurs f1 = yes"
    by (auto simp: Let_def split: if_splits)
  have "\<not> execs nodes1 Falls" using 1 v s' by auto
  then show ?case using s' by (auto elim: exec_BlockE)
next
  case (2 l c body f)
  then show ?case by (auto simp: afterIf_yes)
next
  case (3 l c body other f)
  then show ?case by (fastforce simp: afterIf_yes elim!: exec_IfE)
next
  case (4 l e cases always f)
  then obtain cs1 k1 f1 where
    v: "visit_cases cases \<lparr>foundDefault = False, retCount = 0, totalCases = length cases, maybeRet = False\<rparr> f
      = Inr (cs1, k1, f1)"
    and s': "s' = Switch l e cs1 True" "retCount k1 = totalCases k1" "foundDefault k1"
    by (auto simp: Let_def afterSwitch_def split: if_splits)
  have never: "\<forall>(_, _, body) \<in> set cs1. \<not> exec body Falls" using 4 v s' by auto
  have "\<forall>(_, _, body) \<in> set cs1. jump_free body" using visit_keeps(3) [OF v] 4(3) by auto
  with never have "\<forall>(_, _, body) \<in> set cs1. jump_free body \<and> \<not> exec body Falls" by auto
  then have "\<forall>(_, _, body) \<in> set (drop i cs1). jump_free body \<and> \<not> exec body Falls" for i
    by (meson in_set_dropD)
  then have "\<not> exec_cases (drop i cs1) Falls" for i using cases_never_fall by blast
  moreover have "\<exists>(_, e, _) \<in> set cs1. e = None" using visit_cases_default [OF v] s'(3) by auto
  ultimately show ?case using s'(1) by (fastforce elim!: exec_SwitchE)
next
  case (14 s nodes ml bt f)
  then obtain s1 f1 where v: "visit_stat s f = Inr (s1, f1)" by auto
  show ?case
  proof (cases "occurs f1 = yes")
    case True
    then have ctrl: "is_control s" using 14(5) noncontrol_visit v by blast
    have "nodes = []" "nodes' = [s1]" using 14(3) v True by (auto split: if_splits)
    moreover have "\<not> exec s1 Falls" using 14(1) v 14(4) ctrl True by auto
    ultimately show ?thesis by (auto elim: execs_ConsE)
  next
    case False
    then obtain nodes1 where n: "nodes' = s1 # nodes1"
      "visit_nodes nodes (ml \<or> (occurs f1 = maybe \<and> terminator f1 \<noteq> returns))
        (maxTerm bt (terminator f1)) f1 = Inr (nodes1, ml', bt', f')"
      using 14(3) v by (auto split: if_splits)
    have "\<not> execs nodes1 Falls" using 14(2) [OF v refl _ n(2)] False 14(4,6) by auto
    then show ?thesis using n(1) by (auto elim: execs_ConsE)
  qed
next
  case (16 l e body cs k f)
  then obtain body1 f1 where v: "visit_stat body f = Inr (body1, f1)" by auto
  let ?k = "countCase f1 (k\<lparr>foundDefault := foundDefault k \<or> e = None\<rparr>)"
  obtain cs1 where c: "cs' = (l, e, body1) # cs1" "visit_cases cs ?k f1 = Inr (cs1, k', f')"
    and guard: "\<not> (terminator f1 = continues \<and> occurs f1 \<noteq> no \<and> cs = [])"
    using 16(3) v by (auto split: if_splits)
  have le: "retCount ?k + length cs \<le> totalCases ?k" using 16(5) by (auto simp: countCase_def)
  have rest: "retCount k' \<le> totalCases k' \<and> (retCount k' = totalCases k'
      \<longrightarrow> retCount ?k + length cs = totalCases ?k \<and> (\<forall>(_, _, body) \<in> set cs1. \<not> exec body Falls))"
    by (rule 16(2) [OF v refl guard c(2) _ le]) (use 16(4) in auto)
  have "occurs f1 = yes" if "retCount ?k + length cs = totalCases ?k"
    using that 16(5) by (auto simp: countCase_def split: if_splits)
  moreover have "\<not> exec body1 Falls" if "occurs f1 = yes" using 16(1) [OF v] 16(4) that by auto
  moreover have "retCount k + length ((l, e, body) # cs) = totalCases k"
    if "retCount ?k + length cs = totalCases ?k"
    using that 16(5) by (auto simp: countCase_def split: if_splits)
  ultimately show ?case using rest c(1) by auto
qed (auto simp: afterLoop_yes elim: exec_simpleE)

lemma execs_return:
  assumes "execs (xs @ [Return l e]) r" and "\<forall>s \<in> set xs. jump_free s" and "\<forall>s \<in> set xs. structured s"
  shows "r = Returns"
proof -
  have "r \<noteq> Falls" if "execs (xs @ [Return l e]) r"
    using that by (induction xs) (auto elim!: execs_ConsE execs_NilE elim: exec_simpleE)
  moreover have "r \<notin> {Breaks, Continues}" "r \<noteq> Stuck"
    using jump_free_outcome(2) [OF assms(1)] structured_outcome(2) [OF assms(1)] assms(2,3) by auto
  ultimately show ?thesis using assms(1) by (cases r) auto
qed

text \<open>The nodes of a checked body: those of the visited block, or these and a \<^verbatim>\<open>return\<close> in the place of \<open>Terminate\<close>.\<close>

lemma checkMissingRet_nodes:
  assumes "checkMissingRet retVoid l bl nodes = Inr nodes'"
  shows "\<exists>ns f. visit_stat (Block bl nodes) \<lparr>terminator = continues, occurs = no\<rparr> = Inr (Block bl ns, f)
    \<and> nodes' = (if occurs f = yes then ns
                else (if ns \<noteq> [] \<and> last ns = Terminate then butlast ns else ns) @ [Return no_loc None])"
proof -
  obtain b f where v: "visit_stat (Block bl nodes) \<lparr>terminator = continues, occurs = no\<rparr> = Inr (b, f)"
    using assms by (auto simp: checkMissingRet_def)
  then obtain ns where b: "b = Block bl ns" by (auto simp: Let_def split: if_splits)
  show ?thesis using assms v b by (cases "occurs f")
    (auto simp: checkMissingRet_def Let_def simp del: visit_stat.simps split: if_splits)
qed

lemma visited_returns:
  assumes v: "visit_stat (Block bl nodes) g = Inr (Block bl ns, f)"
    and shape: "\<forall>s \<in> set nodes. structured s \<and> jump_free s"
    and run: "execs (if occurs f = yes then ns
      else (if ns \<noteq> [] \<and> last ns = Terminate then butlast ns else ns) @ [Return no_loc None]) r"
  shows "r = Returns"
proof -
  have keep: "\<forall>s \<in> set ns. jump_free s" "\<forall>s \<in> set ns. structured s"
    using visit_keeps(1) [OF v] shape by auto
  show ?thesis
  proof (cases "occurs f = yes")
    case True
    have "\<not> exec (Block bl ns) Falls" using visit_yes(1) [OF v] True shape by auto
    then have "\<not> execs ns Falls" by (auto intro: exec_Block)
    moreover have "r \<notin> {Breaks, Continues}" "r \<noteq> Stuck"
      using run True keep jump_free_outcome(2) structured_outcome(2) by (metis (full_types))+
    ultimately show ?thesis using run True by (cases r) auto
  next
    case False
    let ?ns = "if ns \<noteq> [] \<and> last ns = Terminate then butlast ns else ns"
    have "execs (?ns @ [Return no_loc None]) r" using run False by simp
    then show ?thesis
      by (rule execs_return) (use keep in \<open>auto dest: in_set_butlastD split: if_splits\<close>)
  qed
qed

text \<open>
  C14: a function whose body is structured, that no \<^verbatim>\<open>break\<close> or \<^verbatim>\<open>continue\<close> leaves and that passes the check always
  returns. Every way through the rewritten body, loops
  that do not end apart, leaves it by \<^verbatim>\<open>return\<close>; for a \<^verbatim>\<open>void\<close> function this is the appended \<^verbatim>\<open>return\<close> or one
  before it.
\<close>

theorem checkMissingRet_returns:
  assumes ok: "checkMissingRet retVoid l bl nodes = Inr nodes'"
    and shape: "\<forall>s \<in> set nodes. structured s \<and> jump_free s"
    and run: "execs nodes' r"
  shows "r = Returns"
proof -
  obtain ns f where "visit_stat (Block bl nodes) \<lparr>terminator = continues, occurs = no\<rparr> = Inr (Block bl ns, f)"
    and "nodes' = (if occurs f = yes then ns
      else (if ns \<noteq> [] \<and> last ns = Terminate then butlast ns else ns) @ [Return no_loc None])"
    using checkMissingRet_nodes [OF ok] by blast
  then show ?thesis using visited_returns shape run by blast
qed

theorem checkMissingRet_returns_witness:
  "checkMissingRet False no_loc no_loc
     [If no_loc (BoolLiteral no_loc True) (Block no_loc [Return no_loc None])
        (Some (Block no_loc [SDecl (Var no_loc False ''x'' None None), Return no_loc None]))]
   = Inr [If no_loc (BoolLiteral no_loc True) (Block no_loc [Return no_loc None])
        (Some (Block no_loc [SDecl (Var no_loc False ''x'' None None), Return no_loc None]))]
   \<and> {r. execs [If no_loc (BoolLiteral no_loc True) (Block no_loc [Return no_loc None])
        (Some (Block no_loc [SDecl (Var no_loc False ''x'' None None), Return no_loc None]))] r}
     = {Returns}"
proof -
  let ?body = "[If no_loc (BoolLiteral no_loc True) (Block no_loc [Return no_loc None])
        (Some (Block no_loc [SDecl (Var no_loc False ''x'' None None), Return no_loc None]))]"
  have ok: "checkMissingRet False no_loc no_loc ?body = Inr ?body"
    by (simp add: checkMissingRet_def afterIf_def maxTerm_def)
  moreover have "execs ?body Returns"
    by (intro execs_leave exec_If_true exec_Block exec_Return) simp_all
  moreover have "r = Returns" if "execs ?body r" for r
    using checkMissingRet_returns [OF ok _ that] by simp
  ultimately show ?thesis by auto
qed

text \<open>
  C31: a structured statement that the visitor overrides, and after which it reports unreachable code, is never left
  at its end.
\<close>

theorem unreachable_code_sound:
  assumes "visit_stat s f = Inr (s', f')" and "structured s" and "is_control s" and "occurs f' = yes"
  shows "visit_nodes (s # t # nodes) ml bt f = Inl (unreachable_error (stat_loc t)) \<and> \<not> exec s' Falls"
  using visit_yes(1) [OF assms] assms(1,4) by simp

theorem unreachable_code_sound_witness:
  "visit_nodes [If no_loc (BoolLiteral no_loc True) (Break no_loc) (Some (Break no_loc)), Return no_loc None]
     False continues \<lparr>terminator = continues, occurs = no\<rparr> = Inl (unreachable_error no_loc)
   \<and> \<not> exec (If no_loc (BoolLiteral no_loc True) (Break no_loc) (Some (Break no_loc))) Falls"
  using unreachable_code_sound
    [of "If no_loc (BoolLiteral no_loc True) (Break no_loc) (Some (Break no_loc))"
      "\<lparr>terminator = continues, occurs = no\<rparr>"
      "If no_loc (BoolLiteral no_loc True) (Break no_loc) (Some (Break no_loc))"
      "\<lparr>terminator = breaks, occurs = yes\<rparr>" "Return no_loc None" "[]" False continues]
  by (simp add: afterIf_def)

text \<open>
  C24: the flag \<^verbatim>\<open>alwaysReturns\<close> of a structured switch, whose cases no \<^verbatim>\<open>break\<close> or \<^verbatim>\<open>continue\<close> leaves, is set only if no way through the switch reaches the block
  behind it, where the code generator then emits \<^verbatim>\<open>unreachable\<close>.
\<close>

theorem alwaysReturns_sound:
  assumes "visit_stat (Switch l e cs a) f = Inr (Switch l e cs' True, f')"
    and "structured (Switch l e cs a)"
  shows "exec (Switch l e cs' True) r \<longrightarrow> r = Returns"
proof
  assume run: "exec (Switch l e cs' True) r"
  have "occurs f' = yes" using assms(1) by (auto simp: Let_def)
  then have "\<not> exec (Switch l e cs' True) Falls" using visit_yes(1) [OF assms] by simp
  moreover have "structured (Switch l e cs' True)" using visit_keeps(1) [OF assms(1)] assms(2) by blast
  then have "r \<noteq> Stuck" using structured_outcome(1) [OF run] by blast
  moreover have "r \<notin> {Breaks, Continues}" using jump_free_outcome(1) [OF run] by simp
  ultimately show "r = Returns" using run by (cases r) auto
qed

theorem alwaysReturns_sound_witness:
  "{r. exec (Switch no_loc (Identifier no_loc ''x'')
     [(no_loc, Some (NumberLiteral no_loc ''1''), Return no_loc None), (no_loc, None, Return no_loc None)]
     True) r} = {Returns}"
proof -
  let ?cs = "[(no_loc, Some (NumberLiteral no_loc ''1''), Return no_loc None), (no_loc, None, Return no_loc None)]"
  let ?sw = "Switch no_loc (Identifier no_loc ''x'') ?cs"
  have v: "visit_stat (?sw False) \<lparr>terminator = continues, occurs = no\<rparr>
      = Inr (?sw True, \<lparr>terminator = returns, occurs = yes\<rparr>)"
    by (simp add: countCase_def afterSwitch_def)
  have "r = Returns" if "exec (?sw True) r" for r
    using alwaysReturns_sound [OF v] that by simp
  moreover have "exec (?sw True) Returns"
    by (rule exec_Switch_case [where i = 0]) (auto intro: cases_leave exec_Return)
  ultimately show ?thesis by auto
qed

subsection \<open>Where the check is wrong\<close>

text \<open>
  C26: the \<^verbatim>\<open>else\<close> branch is an assignment, for which the visitor keeps the result of the other branch: the
  function passes the check, but the end of its body is reached.
\<close>

theorem missing_return_stale:
  "\<exists>nodes'. checkMissingRet False no_loc no_loc
       [If no_loc (Identifier no_loc ''c'') (Return no_loc (Some (NumberLiteral no_loc ''1'')))
         (Some (SAsgn (Assign no_loc (Identifier no_loc ''x'') (NumberLiteral no_loc ''5''))))] = Inr nodes'
     \<and> execs nodes' Falls"
proof -
  let ?body = "[If no_loc (Identifier no_loc ''c'') (Return no_loc (Some (NumberLiteral no_loc ''1'')))
         (Some (SAsgn (Assign no_loc (Identifier no_loc ''x'') (NumberLiteral no_loc ''5''))))]"
  have "checkMissingRet False no_loc no_loc ?body = Inr ?body"
    by (simp add: checkMissingRet_def afterIf_def maxTerm_def)
  moreover have "execs ?body Falls"
    by (intro execs_next execs_Nil exec_If_false exec_SAsgn)
  ultimately show ?thesis by blast
qed

text \<open>A case that may return in one branch and may \<^verbatim>\<open>break\<close> in the other.\<close>

definition break_body :: "stat list" where
  "break_body =
     [Switch no_loc (Identifier no_loc ''x'')
       [(no_loc, None,
         Block no_loc
          [If no_loc (Identifier no_loc ''a'')
            (Block no_loc [If no_loc (Identifier no_loc ''b'') (Block no_loc [Return no_loc None]) None])
            (Some (Block no_loc [If no_loc (Identifier no_loc ''c'') (Block no_loc [Break no_loc]) None])),
           Return no_loc None])] False]"

text \<open>
  A case whose body may return in one branch and may \<^verbatim>\<open>break\<close> in the other: \<^verbatim>\<open>visit(ast::If &)\<close> keeps
  only \<^verbatim>\<open>returns\<close>, the switch is flagged as always returning and the function passes the check, but the
  \<^verbatim>\<open>break\<close> leads to the block that the code generator marks as unreachable.
\<close>

theorem missing_return_break:
  "\<exists>cases. checkMissingRet False no_loc no_loc break_body
       = Inr [Switch no_loc (Identifier no_loc ''x'') cases True]
     \<and> execs [Switch no_loc (Identifier no_loc ''x'') cases True] Falls"
proof -
  define cs where "cs =
    [(no_loc, None :: expr option,
         Block no_loc
          [If no_loc (Identifier no_loc ''a'')
            (Block no_loc [If no_loc (Identifier no_loc ''b'') (Block no_loc [Return no_loc None]) None, Terminate])
            (Some (Block no_loc [If no_loc (Identifier no_loc ''c'') (Block no_loc [Break no_loc]) None, Terminate])),
           Return no_loc None])]"
  have "checkMissingRet False no_loc no_loc break_body
      = Inr [Switch no_loc (Identifier no_loc ''x'') cs True]"
    by (simp add: checkMissingRet_def break_body_def afterIf_def maxTerm_def countCase_def
        afterSwitch_def cs_def)
  moreover have "exec_cases (drop 0 cs) Falls"
    unfolding cs_def drop_0
    by (rule cases_done [where r = Breaks], intro exec_Block execs_leave exec_If_false
        exec_If_true [of "Block _ [Break _]"] exec_Break) simp_all
  then have "execs [Switch no_loc (Identifier no_loc ''x'') cs True] Falls"
    by (intro execs_next execs_Nil exec_Switch_case) (auto simp: cs_def)
  ultimately show ?thesis by blast
qed

end
