(* ===== verification/Infer.thy ===== *)
theory Infer
  imports Expr_Lookup Number_Literal Missing_Return
begin

section \<open>Inference of types and traversal of the tree\<close>

text \<open>
  \<^verbatim>\<open>src/Semantic/infer type.cpp\<close> and \<^verbatim>\<open>src/Semantic/traverse.cpp\<close>: one visitor infers the type of an
  expression, another checks statements, declarations and assignments. They call each other, since a
  lambda contains statements, so they are one recursive definition here. A method of the source that
  visits a subexpression and works on its type takes the visit as an argument (\<open>visit\<close>). The types
  written into the tree for the code generator are not kept. The argument \<open>ld\<close> is the format of
  \<^verbatim>\<open>long double\<close> that number literals are read with.
\<close>

subsection \<open>Visiting a subexpression\<close>

definition visitExprNoCheck :: "unit sem_m \<Rightarrow> rty option \<Rightarrow> expr_type sem_m" where
  "visitExprNoCheck visit type =
     bindS (stackS enterSubExpr) (\<lambda>_.
     bindS (getS expected) (\<lambda>oldExpected.
     bindS (modS (\<lambda>s. s\<lparr>expected := type\<rparr>)) (\<lambda>_.
     bindS visit (\<lambda>_.
     bindS (modS (\<lambda>s. s\<lparr>expected := oldExpected\<rparr>)) (\<lambda>_.
       stackP leaveSubExpr)))))"

definition convertibleToBool :: "rty option \<Rightarrow> bool" where
  "convertibleToBool t =
     (case map_option lookupConcreteType t of
        Some (RFunc _ _) \<Rightarrow> True
      | Some (RUser _ _ _ ops) \<Rightarrow> addr (boolConv ops) \<noteq> user_ctor_none
      | _ \<Rightarrow> False)"

definition btn_bool :: "rty option" where "btn_bool = Some (RBtn Bool)"

definition visitExprNoCheckBool :: "unit sem_m \<Rightarrow> rty option \<Rightarrow> expr_type sem_m" where
  "visitExprNoCheckBool visit type =
     bindS (visitExprNoCheck visit type) (\<lambda>etype.
       if type \<noteq> None \<and> \<not> compareTypes type (et_type etype)
         \<and> compareTypes type btn_bool \<and> convertibleToBool (et_type etype)
       then retS (makeLetVal btn_bool) else retS etype)"

definition failExpected :: "loc \<Rightarrow> rty option \<Rightarrow> rty option \<Rightarrow> 'a res" where
  "failExpected l want got =
     (case (want, got) of
        (Some w, Some g) \<Rightarrow> Inl (Fatal l (''Expected '' @ typeDesc w @ '' but got '' @ typeDesc g))
      | _ \<Rightarrow> Inl (Undefined ''assertion: node''))"

definition checkExpected :: "loc \<Rightarrow> rty option \<Rightarrow> expr_type \<Rightarrow> expr_type sem_m" where
  "checkExpected l type etype =
     (if type \<noteq> None \<and> \<not> compareTypes type (et_type etype) then
        if compareTypes type btn_bool \<and> convertibleToBool (et_type etype)
        then retS (makeLetVal btn_bool)
        else liftE (failExpected l type (et_type etype))
      else retS etype)"

definition visitExprCheck :: "unit sem_m \<Rightarrow> loc \<Rightarrow> rty option \<Rightarrow> expr_type sem_m" where
  "visitExprCheck visit l type = bindS (visitExprNoCheck visit type) (checkExpected l type)"

text \<open>
  \<^verbatim>\<open>visitExprCheck(expr, expected)\<close>, where the argument is the member \<^verbatim>\<open>expected\<close> itself, by reference. \<^verbatim>\<open>visitExprNoCheck\<close>
  moves \<^verbatim>\<open>expected\<close> away before it assigns its argument to it, and the argument is null by then: the expression is
  visited with no expected type. The member has its value again when the type of the expression is checked.
\<close>

definition visitExprCheckMember :: "unit sem_m \<Rightarrow> loc \<Rightarrow> expr_type sem_m" where
  "visitExprCheckMember visit l =
     bindS (visitExprNoCheck visit None) (\<lambda>etype.
     bindS (getS expected) (\<lambda>type. checkExpected l type etype))"

text \<open>\<^verbatim>\<open>getExprType\<close> works with a visitor of its own.\<close>

definition freshVisitor :: "'a sem_m \<Rightarrow> 'a sem_m" where
  "freshVisitor m s =
     bindE (m (s\<lparr>lkp_stack := empty_stack, expType := None, expected := None\<rparr>)) (\<lambda>(x, s').
       Inr (x, s'\<lparr>lkp_stack := lkp_stack s, expType := expType s, expected := expected s\<rparr>))"

definition getExprType :: "unit sem_m \<Rightarrow> loc \<Rightarrow> rty option \<Rightarrow> expr_type sem_m" where
  "getExprType visit l type = freshVisitor (visitExprCheck visit l type)"

definition setType :: "expr_type \<Rightarrow> unit sem_m" where
  "setType t = stackE (setExpr t)"

subsection \<open>The rules for each kind of expression\<close>

definition binaryType :: "loc \<Rightarrow> BinOp \<Rightarrow> expr_type \<Rightarrow> expr_type \<Rightarrow> expr_type res" where
  "binaryType l opr lhs rhs =
     (if \<not> compareTypes (et_type lhs) (et_type rhs) then
        Inl (Fatal l (''Operands to binary expression '' @ opName_bin opr @ '' must have same type''))
      else if compOp opr then
        bindE (case et_type lhs of None \<Rightarrow> Inr () | Some t \<Rightarrow> validComp opr t l) (\<lambda>_.
          Inr (makeLetVal btn_bool))
      else
        bindE
          (case (concrete_btn (et_type lhs), concrete_btn (et_type rhs)) of
             (Some a, Some b) \<Rightarrow> validOp_bin opr a b
           | _ \<Rightarrow> Inr None)
          (\<lambda>r. case r of
             Some t \<Rightarrow> Inr (makeLetVal (Some (RBtn t)))
           | None \<Rightarrow> Inl (Fatal l (''Invalid operands to binary expression '' @ opName_bin opr))))"

definition unaryType :: "loc \<Rightarrow> UnOp \<Rightarrow> expr_type \<Rightarrow> expr_type res" where
  "unaryType l opr etype =
     (case concrete_btn (et_type etype) of
        Some b \<Rightarrow>
          if validOp_un opr b then Inr (makeLetVal (et_type etype))
          else Inl (Fatal l (''Invalid operand to unary expression '' @ opName_un opr))
      | None \<Rightarrow> Inl (Fatal l (''Invalid operand to unary expression '' @ opName_un opr)))"

definition subscriptType :: "loc \<Rightarrow> loc \<Rightarrow> expr_type \<Rightarrow> expr_type \<Rightarrow> expr_type res" where
  "subscriptType objLoc idxLoc obj idx =
     (case concrete_btn (et_type idx) of
        Some b \<Rightarrow>
          if validSubscript b then
            (case concrete_array (et_type obj) of
               Some elem \<Rightarrow> Inr (fieldType obj (Some (lookupStrongType elem)))
             | None \<Rightarrow> Inl (Fatal objLoc ''Subscripted value is not an array''))
          else Inl (Fatal idxLoc ''Invalid subscript index'')
      | None \<Rightarrow> Inl (Fatal idxLoc ''Invalid subscript index''))"

definition ternaryType :: "loc \<Rightarrow> expr_type \<Rightarrow> expr_type \<Rightarrow> expr_type res" where
  "ternaryType l troo fols =
     (if compareTypes (et_type troo) (et_type fols) then
        Inr \<lparr>et_type = et_type troo, et_mut = common_mut (et_mut troo) (et_mut fols),
          et_ref = common_ref (et_ref troo) (et_ref fols)\<rparr>
      else Inl (Fatal l ''Branches of ternary have different types''))"

definition makeSame :: "loc \<Rightarrow> rty \<Rightarrow> expr_type \<Rightarrow> expr_type res" where
  "makeSame l type etype =
     (if compareTypes (map_option lookupConcreteType (et_type etype)) (Some (lookupConcreteType type))
      then Inr (makeLetVal (Some type))
      else
        (case et_type etype of
           None \<Rightarrow> Inl (Undefined ''assertion: node'')
         | Some t \<Rightarrow> Inl (Fatal l (''Cannot make '' @ typeDesc type @ '' from '' @ typeDesc t))))"

definition makeType :: "loc \<Rightarrow> rty \<Rightarrow> expr_type \<Rightarrow> expr_type res" where
  "makeType l type etype =
     (case (concrete_btn (Some type), concrete_btn (et_type etype)) of
        (Some dst, Some src) \<Rightarrow>
          if validCast dst src then Inr (makeLetVal (Some type)) else makeSame l type etype
      | _ \<Rightarrow> makeSame l type etype)"

definition charType :: "loc \<Rightarrow> string \<Rightarrow> expr_type res" where
  "charType l litr =
     bindE (parseStringLiteral litr l) (\<lambda>str.
       if length str \<noteq> 1 then Inl (Fatal l ''Character literal must be one character'')
       else Inr (makeLetVal (Some (RBtn Char))))"

definition stringType :: "loc \<Rightarrow> string \<Rightarrow> expr_type res" where
  "stringType l litr =
     bindE (if litr \<noteq> [] then parseStringLiteral litr l else Inr []) (\<lambda>_.
       Inr (makeLetVal (Some btn_string)))"

fun variant_type :: "number_variant \<Rightarrow> rty option" where
  "variant_type (NByte _) = Some (RBtn Byte)"
| "variant_type (NChar _) = Some (RBtn Char)"
| "variant_type (NReal _) = Some (RBtn Real)"
| "variant_type (NSint _) = Some (RBtn Sint)"
| "variant_type (NUint _) = Some (RBtn Uint)"
| "variant_type Monostate = None"

definition numberType :: "fp_format \<Rightarrow> string \<Rightarrow> expr_type res" where
  "numberType ld litr = bindE (parseNumberLiteral ld litr) (\<lambda>v. Inr (makeLetVal (variant_type v)))"

text \<open>The element type that an array literal is expected to have.\<close>

definition arrayExpected :: "loc \<Rightarrow> rty option \<Rightarrow> rty option res" where
  "arrayExpected l ex =
     (case ex of
        None \<Rightarrow> Inr None
      | Some t \<Rightarrow>
          (case concrete_array ex of
             Some elem \<Rightarrow> Inr (Some (lookupStrongType elem))
           | None \<Rightarrow> failType l ''Array literal cannot initialize '' ex []))"

definition arrayElem :: "loc \<Rightarrow> rty option \<Rightarrow> rty res" where
  "arrayElem l first =
     (case first of
        None \<Rightarrow> Inl (Undefined ''null type'')
      | Some t \<Rightarrow>
          if concrete_btn (Some (lookupStrongType t)) = Some Void
          then Inl (Fatal l ''Array element type cannot be void'')
          else Inr (lookupStrongType t))"

text \<open>The subexpressions of a list literal or a call: the visit and the location of each.\<close>

type_synonym visits = "(unit sem_m \<times> loc) list"

definition inferArray :: "loc \<Rightarrow> visits \<Rightarrow> unit sem_m" where
  "inferArray l vs =
     bindS (getS expected) (\<lambda>ex.
     bindS (liftE (arrayExpected l ex)) (\<lambda>elem.
     bindS
       (case vs of
          [] \<Rightarrow>
            (case elem of
               None \<Rightarrow> failS (Fatal l ''Could not infer type of empty array'')
             | Some t \<Rightarrow> retS t)
        | (v, vl) # vs \<Rightarrow>
            bindS (visitExprCheck v vl elem) (\<lambda>first.
            bindS (mapS (\<lambda>(w, wl). bindS (visitExprNoCheck w elem) (\<lambda>currExpr.
                if compareTypes (et_type first) (et_type currExpr) then retS ()
                else failS (Fatal wl ''Unmatching types in array literal''))) vs) (\<lambda>_.
              liftE (arrayElem l (et_type first)))))
       (\<lambda>t. setType (makeLetVal (Some (RArray t))))))"

definition initFields :: "loc \<Rightarrow> visits \<Rightarrow> rty option \<Rightarrow> unit sem_m" where
  "initFields l vs ex =
     (case concrete_struct ex of
        None \<Rightarrow> failS (Fatal l ''Initializer list can only initialize structs'')
      | Some fs \<Rightarrow>
          if length vs > length fs then failS (Fatal l ''Too many expressions in initializer list'')
          else if length vs < length fs then failS (Fatal l ''Too few expressions in initializer list'')
          else
            bindS (mapS (\<lambda>((v, vl), (_, t)). visitExprCheck v vl (Some t)) (zip vs fs)) (\<lambda>_. retS ()))"

definition inferInitList :: "loc \<Rightarrow> visits \<Rightarrow> unit sem_m" where
  "inferInitList l vs =
     bindS (getS expected) (\<lambda>ex.
       if ex = None then failS (Fatal l ''Could not infer type of init list'')
       else
         bindS (if vs = [] then retS () else initFields l vs ex) (\<lambda>_.
         bindS (modS (\<lambda>s. s\<lparr>expected := None\<rparr>)) (\<lambda>_. setType (makeLetVal ex))))"

definition argTypes :: "visits \<Rightarrow> expr_type list sem_m" where
  "argTypes vs = mapS (\<lambda>(v, vl). getExprType v vl None) vs"

definition inferCall :: "loc \<Rightarrow> unit sem_m \<Rightarrow> visits \<Rightarrow> unit sem_m" where
  "inferCall l visit args =
     bindS (stackS pushCall) (\<lambda>_.
     bindS visit (\<lambda>_.
     bindS (argTypes args) (\<lambda>ts.
     bindS (lookupFunc ts l) (\<lambda>_.
     bindS (stackR topType) (\<lambda>_. retS ())))))"

definition inferIdent :: "loc \<Rightarrow> name \<Rightarrow> unit sem_m" where
  "inferIdent l n =
     bindS (modS (\<lambda>s. s\<lparr>expType := expected s\<rparr>)) (\<lambda>_.
     bindS (lookupIdent l n) (\<lambda>_. retS ()))"

definition is_void :: "rty option \<Rightarrow> bool" where
  "is_void t = (concrete_btn t = Some Void)"

definition inferLambda ::
  "loc \<Rightarrow> FuncParam list \<Rightarrow> ty option \<Rightarrow> loc \<Rightarrow> stat list \<Rightarrow> unit sem_m \<Rightarrow> unit sem_m" where
  "inferLambda l params ret bl body visit =
     bindS (validateOpt ret) (\<lambda>rt.
     bindS (validateParams (map param_pair params)) (\<lambda>ps.
     bindS (insert_lambda ps rt l) (\<lambda>r.
     bindS (enterScope_sym closure_scope r) (\<lambda>i.
     bindS (set_scope r i) (\<lambda>_.
     bindS (enterLambdaScope r i params) (\<lambda>_.
     bindS visit (\<lambda>_.
     bindS (leaveFuncScope r) (\<lambda>t.
     bindS leaveScope (\<lambda>_.
     bindS (setType (makeLetVal (Some (getLambdaType ps (Some t))))) (\<lambda>_.
     bindS (liftE (checkMissingRet (is_void (Some t)) l bl body)) (\<lambda>_. retS ())))))))))))"

subsection \<open>The rules for statements\<close>

definition visitCond :: "unit sem_m \<Rightarrow> loc \<Rightarrow> unit sem_m" where
  "visitCond visit l = bindS (getExprType visit l btn_bool) (\<lambda>_. retS ())"

definition inScope :: "ScopeType \<Rightarrow> unit sem_m \<Rightarrow> unit sem_m" where
  "inScope ty m = bindS (enterScope ty) (\<lambda>_. bindS m (\<lambda>_. leaveScope))"

definition checkFlowKeyword :: "string \<Rightarrow> loc \<Rightarrow> unit sem_m" where
  "checkFlowKeyword keyword l s =
     bindE (findNearestNot block_scope (scopes s) (cur s)) (\<lambda>i.
       if stype (scopes s ! i) \<noteq> flow_scope then
         Inl (Fatal l (''Invalid usage of keyword '' @ quoted keyword @ '' outside of loop or switch''))
       else Inr ((), s))"

definition return_symbol :: "sem \<Rightarrow> sym_ref res" where
  "return_symbol s =
     bindE (findNearestEither func_scope closure_scope (scopes s) (cur s)) (\<lambda>i.
       case scope_sym (scopes s ! i) of
         None \<Rightarrow> Inl (Undefined ''assertion: symbol'')
       | Some r \<Rightarrow>
           (case sym_data (get_symbol (scopes s) r) of
              FuncSym _ _ _ \<Rightarrow> Inr r
            | LambdaSym _ _ _ \<Rightarrow> Inr r
            | _ \<Rightarrow> Inl (Undefined ''unreachable'')))"

definition set_symbol_ret :: "sym_ref \<Rightarrow> rty option \<Rightarrow> unit sem_m" where
  "set_symbol_ret r t = (case t of None \<Rightarrow> retS () | Some t \<Rightarrow> upd_data (set_ret t) r)"

definition travReturn :: "loc \<Rightarrow> (unit sem_m \<times> loc) option \<Rightarrow> unit sem_m" where
  "travReturn l e =
     bindS (getS return_symbol) (\<lambda>rr.
     bindS (liftE rr) (\<lambda>r.
     bindS (getS (\<lambda>s. symbol_ret (sym_data (get_symbol (scopes s) r)))) (\<lambda>ret.
       case e of
         Some (visit, el) \<Rightarrow>
           bindS (getExprType visit el ret) (\<lambda>t.
             if ret \<noteq> None then retS () else set_symbol_ret r (et_type t))
       | None \<Rightarrow>
           (case ret of
              Some t \<Rightarrow>
                if compareTypes ret (Some (RBtn Void)) then retS ()
                else failS (Fatal l (''Expected '' @ typeDesc t @ '' but got void''))
            | None \<Rightarrow> set_symbol_ret r (Some (RBtn Void))))))"

definition objectType :: "ty option \<Rightarrow> (unit sem_m \<times> loc) option \<Rightarrow> loc \<Rightarrow> rty option sem_m" where
  "objectType type e l =
     bindS (validateOpt type) (\<lambda>t.
     bindS (case e of None \<Rightarrow> retS null_type | Some (visit, el) \<Rightarrow> getExprType visit el t) (\<lambda>etype.
       if compareTypes (et_type etype) (Some (RBtn Void)) then
         failS (Fatal l ''Cannot initialize variable with void expression'')
       else if t = None \<and> e = None then failS (Fatal l ''Cannot infer type of variable'')
       else retS (if t \<noteq> None then t else et_type etype)))"

definition travObject ::
  "name \<Rightarrow> loc \<Rightarrow> bool \<Rightarrow> ty option \<Rightarrow> (unit sem_m \<times> loc) option \<Rightarrow> (rty option \<Rightarrow> expr_type) \<Rightarrow> unit sem_m"
where
  "travObject n l external type e mk =
     bindS (objectType type e l) (\<lambda>t.
     bindS (insert_object n l external (mk t)) (\<lambda>_. retS ()))"

definition travFunc ::
  "loc \<Rightarrow> bool \<Rightarrow> FuncParam option \<Rightarrow> name \<Rightarrow> FuncParam list \<Rightarrow> ty option \<Rightarrow> loc \<Rightarrow> stat list
     \<Rightarrow> unit sem_m \<Rightarrow> unit sem_m" where
  "travFunc l external receiver n params ret bl body visit =
     bindS (insert_func external receiver n params ret l) (\<lambda>r.
     bindS (enterScope_sym func_scope r) (\<lambda>i.
     bindS (set_scope r i) (\<lambda>_.
     bindS (enterFuncScope r i receiver params) (\<lambda>_.
     bindS visit (\<lambda>_.
     bindS (leaveFuncScope r) (\<lambda>t.
     bindS leaveScope (\<lambda>_.
     bindS (liftE (checkMissingRet (is_void (Some t)) l bl body)) (\<lambda>_. retS ()))))))))"

definition travCompAssign :: "loc \<Rightarrow> AssignOp \<Rightarrow> expr_type \<Rightarrow> expr_type \<Rightarrow> unit res" where
  "travCompAssign l opr dst src =
     (case (concrete_btn (et_type dst), concrete_btn (et_type src)) of
        (Some a, Some b) \<Rightarrow>
          if a \<noteq> b then Inl (Undefined ''assertion: types of operands'')
          else
            bindE (validOp_assign opr a) (\<lambda>valid.
              if valid then
                (if et_mut dst = mut_var then Inr ()
                 else Inl (Fatal l ''Left side of compound assignment must be mutable''))
              else Inl (Fatal l (''Invalid operands to compound assignment operator ''
                @ opName_assign opr)))
      | _ \<Rightarrow> Inl (Fatal l (''Invalid operands to compound assignment operator '' @ opName_assign opr)))"

definition travIncrDecr :: "loc \<Rightarrow> bool \<Rightarrow> expr_type \<Rightarrow> unit res" where
  "travIncrDecr l incr etype =
     (if et_mut etype = mut_let then
        Inl (Fatal l ''Operand to mutating unary operator must be mutable'')
      else
        (case concrete_btn (et_type etype) of
           Some b \<Rightarrow>
             if validIncr b then Inr ()
             else Inl (Fatal l (''Invalid operand to unary operator '' @ (if incr then ''++'' else ''--'')))
         | None \<Rightarrow>
             Inl (Fatal l (''Invalid operand to unary operator '' @ (if incr then ''++'' else ''--'')))))"

subsection \<open>The visitors\<close>

function (sequential) infer_expr :: "fp_format \<Rightarrow> expr \<Rightarrow> unit sem_m"
  and trav_stat :: "fp_format \<Rightarrow> stat \<Rightarrow> unit sem_m"
  and trav_cases ::
    "fp_format \<Rightarrow> rty option \<Rightarrow> bool \<Rightarrow> (loc \<times> expr option \<times> stat) list \<Rightarrow> unit sem_m"
  and trav_decl :: "fp_format \<Rightarrow> decl \<Rightarrow> unit sem_m"
  and trav_asgn :: "fp_format \<Rightarrow> asgn \<Rightarrow> unit sem_m" where
  "infer_expr ld (BinaryExpr l lhs opr rhs) =
     bindS (visitExprCheck (infer_expr ld lhs) (expr_loc lhs) (if boolOp_bin opr then btn_bool else None))
       (\<lambda>lt.
     bindS (visitExprCheck (infer_expr ld rhs) (expr_loc rhs) (if boolOp_bin opr then btn_bool else None))
       (\<lambda>rt.
     bindS (liftE (binaryType l opr lt rt)) setType))"
| "infer_expr ld (UnaryExpr l opr e) =
     bindS (visitExprCheck (infer_expr ld e) (expr_loc e) (if boolOp_un opr then btn_bool else None)) (\<lambda>t.
     bindS (liftE (unaryType l opr t)) setType)"
| "infer_expr ld (FuncCall l func args) =
     inferCall l (infer_expr ld func) (map (\<lambda>e. (infer_expr ld e, expr_loc e)) args)"
| "infer_expr ld (MemberIdent l object member) =
     bindS (stackS (pushMember member)) (\<lambda>_.
     bindS (infer_expr ld object) (\<lambda>_.
     bindS (lookupMember l) (\<lambda>_. retS ())))"
| "infer_expr ld (Subscript l object index) =
     bindS (visitExprCheck (infer_expr ld object) (expr_loc object) None) (\<lambda>obj.
     bindS (visitExprCheck (infer_expr ld index) (expr_loc index) None) (\<lambda>idx.
     bindS (liftE (subscriptType (expr_loc object) (expr_loc index) obj idx)) setType))"
| "infer_expr ld (Identifier l n) = inferIdent l n"
| "infer_expr ld (Ternary l cond troo fols) =
     bindS (visitExprCheck (infer_expr ld cond) (expr_loc cond) btn_bool) (\<lambda>_.
     bindS (visitExprCheckMember (infer_expr ld troo) (expr_loc troo)) (\<lambda>tt.
     bindS (visitExprCheckMember (infer_expr ld fols) (expr_loc fols)) (\<lambda>ft.
     bindS (liftE (ternaryType l tt ft)) setType)))"
| "infer_expr ld (Make l type e) =
     bindS (validateType type) (\<lambda>t.
     bindS (visitExprNoCheckBool (infer_expr ld e) (Some t)) (\<lambda>etype.
     bindS (liftE (makeType l t etype)) setType))"
| "infer_expr ld (StringLiteral l litr) = bindS (liftE (stringType l litr)) setType"
| "infer_expr ld (CharLiteral l litr) = bindS (liftE (charType l litr)) setType"
| "infer_expr ld (NumberLiteral l litr) = bindS (liftE (numberType ld litr)) setType"
| "infer_expr ld (BoolLiteral l value) = setType (makeLetVal btn_bool)"
| "infer_expr ld (ArrayLiteral l es) =
     inferArray l (map (\<lambda>e. (infer_expr ld e, expr_loc e)) es)"
| "infer_expr ld (InitList l es) =
     inferInitList l (map (\<lambda>e. (infer_expr ld e, expr_loc e)) es)"
| "infer_expr ld (Lambda l params ret bl body) =
     inferLambda l params ret bl body (bindS (mapS (trav_stat ld) body) (\<lambda>_. retS ()))"
| "trav_stat ld (Block _ nodes) =
     inScope block_scope (bindS (mapS (trav_stat ld) nodes) (\<lambda>_. retS ()))"
| "trav_stat ld (If _ cond body elseBody) =
     inScope block_scope
       (bindS (visitCond (infer_expr ld cond) (expr_loc cond)) (\<lambda>_.
        bindS (trav_stat ld body) (\<lambda>_.
          (case elseBody of None \<Rightarrow> retS () | Some b \<Rightarrow> trav_stat ld b))))"
| "trav_stat ld (Switch _ e cases _) =
     bindS (getExprType (infer_expr ld e) (expr_loc e) None) (\<lambda>etype.
       trav_cases ld (et_type etype) False cases)"
| "trav_stat ld Terminate = retS ()"
| "trav_stat ld (Break l) = checkFlowKeyword ''break'' l"
| "trav_stat ld (Continue l) = checkFlowKeyword ''continue'' l"
| "trav_stat ld (Return l e) =
     travReturn l (case e of None \<Rightarrow> None | Some e \<Rightarrow> Some (infer_expr ld e, expr_loc e))"
| "trav_stat ld (While _ cond body) =
     inScope flow_scope
       (bindS (visitCond (infer_expr ld cond) (expr_loc cond)) (\<lambda>_. trav_stat ld body))"
| "trav_stat ld (For _ init cond incr body) =
     inScope flow_scope
       (bindS (case init of None \<Rightarrow> retS () | Some a \<Rightarrow> trav_asgn ld a) (\<lambda>_.
        bindS (visitCond (infer_expr ld cond) (expr_loc cond)) (\<lambda>_.
        bindS (case incr of None \<Rightarrow> retS () | Some a \<Rightarrow> trav_asgn ld a) (\<lambda>_.
          trav_stat ld body))))"
| "trav_stat ld (SDecl d) = trav_decl ld d"
| "trav_stat ld (SAsgn a) = trav_asgn ld a"
| "trav_cases ld t foundDef [] = retS ()"
| "trav_cases ld t foundDef ((cl, ce, body) # cases) =
     bindS
       (case ce of
          Some e \<Rightarrow> bindS (getExprType (infer_expr ld e) (expr_loc e) t) (\<lambda>_. retS ())
        | None \<Rightarrow>
            if foundDef then failS (Fatal cl ''Multiple default cases found in switch'') else retS ())
       (\<lambda>_.
     bindS (inScope flow_scope (trav_stat ld body)) (\<lambda>_.
       trav_cases ld t (foundDef \<or> ce = None) cases))"
| "trav_decl ld (Func l external receiver n params ret bl body) =
     travFunc l external receiver n params ret bl body (bindS (mapS (trav_stat ld) body) (\<lambda>_. retS ()))"
| "trav_decl ld (ExtFunc n receiver params ret _ _) =
     bindS (insert_ext_func receiver n params ret) (\<lambda>_. retS ())"
| "trav_decl ld (BtnFunc _) = retS ()"
| "trav_decl ld (Var l external n type e) =
     travObject n l external type (case e of None \<Rightarrow> None | Some e \<Rightarrow> Some (infer_expr ld e, expr_loc e))
       makeVarVal"
| "trav_decl ld (Let l external n type e) =
     travObject n l external type (Some (infer_expr ld e, expr_loc e)) makeLetVal"
| "trav_decl ld (TypeAlias l n type strong) =
     bindS (validateType type) (\<lambda>t. bindS (insert_alias n l strong t) (\<lambda>_. retS ()))"
| "trav_asgn ld (CompAssign l dst opr src) =
     bindS (getExprType (infer_expr ld dst) (expr_loc dst) None) (\<lambda>dt.
     bindS (getExprType (infer_expr ld src) (expr_loc src) (et_type dt)) (\<lambda>st.
       liftE (travCompAssign l opr dt st)))"
| "trav_asgn ld (IncrDecr l e incr) =
     bindS (getExprType (infer_expr ld e) (expr_loc e) None) (\<lambda>t. liftE (travIncrDecr l incr t))"
| "trav_asgn ld (Assign l dst src) =
     bindS (getExprType (infer_expr ld dst) (expr_loc dst) None) (\<lambda>dt.
     bindS (getExprType (infer_expr ld src) (expr_loc src) (et_type dt)) (\<lambda>_.
       if et_mut dt = mut_let then failS (Fatal l ''Left side of assignment must be mutable'')
       else retS ()))"
| "trav_asgn ld (DeclAssign l n e) =
     travObject n l False None (Some (infer_expr ld e, expr_loc e)) makeVarVal"
| "trav_asgn ld (CallAssign l func args cl) =
     bindS (getExprType (inferCall cl (infer_expr ld func)
         (map (\<lambda>e. (infer_expr ld e, expr_loc e)) args)) cl None) (\<lambda>t.
       if compareTypes (et_type t) (Some (RBtn Void)) then retS ()
       else failS (Fatal l ''Discarded return value''))"
  by pat_completeness auto
termination
  by (relation "measure (\<lambda>p. case p of
      Inl (Inl (_, e)) \<Rightarrow> size e
    | Inl (Inr (_, st)) \<Rightarrow> size st
    | Inr (Inl (_, _, _, cs)) \<Rightarrow> size_list (size_prod (\<lambda>_. 0) (size_prod (size_option size) size)) cs
    | Inr (Inr (Inl (_, d))) \<Rightarrow> size d
    | Inr (Inr (Inr (_, a))) \<Rightarrow> size a)")
    (auto simp: less_Suc_eq_le intro: size_list_estimation' trans_le_add1)

definition traverse :: "fp_format \<Rightarrow> decl list \<Rightarrow> unit sem_m" where
  "traverse ld decls = bindS (mapS (trav_decl ld) decls) (\<lambda>_. retS ())"

end
