(* ===== verification/Semantic.thy ===== *)
theory Semantic
  imports Infer Module_Order
begin

section \<open>Semantic analysis of modules\<close>

text \<open>
  \<^verbatim>\<open>src/Semantic/semantic analysis.cpp\<close> and \<^verbatim>\<open>src/Semantic/c standard library.cpp\<close>. The symbols that the
  phases share are the scopes, the scope of the module compiled last and the declarations of all
  modules. The scope of a module is a child of the scope of the module before it, down to the builtin
  module. The functions return the new symbols and the warnings.
\<close>

record symbols =
  syms_scopes :: "scope list"
  syms_global :: nat
  syms_decls :: "decl list"

definition initModules :: symbols where
  "initModules = \<lparr>syms_scopes = [makeBuiltinModule], syms_global = 0, syms_decls = []\<rparr>"

text \<open>The context that \<^verbatim>\<open>compileModuleImpl\<close> makes: a \<^verbatim>\<open>ScopeMan\<close> at the scope of the last module and the log.\<close>

definition module_context :: "symbols \<Rightarrow> name \<Rightarrow> (name \<times> loc \<times> string) list \<Rightarrow> sem" where
  "module_context syms m warnings =
     \<lparr>scopes = syms_scopes syms, cur = syms_global syms, log_mod = m, sem_warns = warnings,
      lkp_stack = empty_stack, expType = None, expected = None\<rparr>"

definition compileModuleImpl ::
  "fp_format \<Rightarrow> ast \<Rightarrow> symbols \<times> (name \<times> loc \<times> string) list \<Rightarrow> (symbols \<times> (name \<times> loc \<times> string) list) res"
where
  "compileModuleImpl ld a sw =
     bindE (bindS (enterScope_ns (ast_name a)) (\<lambda>g. bindS (traverse ld (ast_global a)) (\<lambda>_. retS g))
         (module_context (fst sw) (ast_name a) (snd sw)))
       (\<lambda>(g, s).
         Inr (\<lparr>syms_scopes = scopes s, syms_global = g, syms_decls = syms_decls (fst sw) @ ast_global a\<rparr>,
           sem_warns s))"

definition checkSymbols ::
  "symbols \<times> (name \<times> loc \<times> string) list \<Rightarrow> (symbols \<times> (name \<times> loc \<times> string) list) res" where
  "checkSymbols sw =
     bindE (checkScopes (module_context (fst sw) [] (snd sw))) (\<lambda>(_, s). Inr (fst sw, sem_warns s))"

definition compileModule ::
  "fp_format \<Rightarrow> symbols \<Rightarrow> ast \<Rightarrow> (symbols \<times> (name \<times> loc \<times> string) list) res" where
  "compileModule ld syms a = bindE (compileModuleImpl ld a (syms, [])) checkSymbols"

definition compileModules_order ::
  "fp_format \<Rightarrow> symbols \<Rightarrow> nat list \<Rightarrow> ast list \<Rightarrow> (symbols \<times> (name \<times> loc \<times> string) list) res" where
  "compileModules_order ld syms ord asts =
     bindE (foldE (\<lambda>i. compileModuleImpl ld (asts ! i)) ord (syms, [])) checkSymbols"

definition compileModules ::
  "fp_format \<Rightarrow> symbols \<Rightarrow> ast list \<Rightarrow> (symbols \<times> (name \<times> loc \<times> string) list) res" where
  "compileModules ld syms asts =
     bindE (findModuleOrder asts []) (\<lambda>ord. compileModules_order ld syms ord asts)"

subsection \<open>The module \<^verbatim>\<open>cmath\<close>\<close>

definition makeUnary_ext :: "BtnTypeEnum \<Rightarrow> name \<Rightarrow> string \<Rightarrow> decl" where
  "makeUnary_ext type n mangled = ExtFunc n None [(val, BtnType no_loc type)] (BtnType no_loc type) mangled 0"

definition makeBinary_ext :: "BtnTypeEnum \<Rightarrow> name \<Rightarrow> string \<Rightarrow> decl" where
  "makeBinary_ext type n mangled =
     ExtFunc n None [(val, BtnType no_loc type), (val, BtnType no_loc type)] (BtnType no_loc type) mangled 0"

definition makeCmath :: ast where
  "makeCmath = \<lparr>
     ast_global =
       [makeUnary_ext Real ''fabs'' ''fabsf'', makeBinary_ext Real ''fmod'' ''fmodf'',
        makeUnary_ext Real ''exp'' ''expf'', makeUnary_ext Real ''exp2'' ''exp2f'',
        makeUnary_ext Real ''expm1'' ''expm1f'', makeUnary_ext Real ''log'' ''logf'',
        makeUnary_ext Real ''log10'' ''log10f'', makeUnary_ext Real ''log2'' ''log2f'',
        makeUnary_ext Real ''log1p'' ''log1pf'',
        makeUnary_ext Real ''pow'' ''powf'', makeUnary_ext Real ''sqrt'' ''sqrtf'',
        makeUnary_ext Real ''cbrt'' ''cbrtf'', makeUnary_ext Real ''hypot'' ''hypotf'',
        makeUnary_ext Real ''sin'' ''sinf'', makeUnary_ext Real ''cos'' ''cosf'',
        makeUnary_ext Real ''tan'' ''tanf'', makeUnary_ext Real ''asin'' ''asinf'',
        makeUnary_ext Real ''acos'' ''acosf'', makeUnary_ext Real ''atan'' ''atanf'',
        makeBinary_ext Real ''atan2'' ''atan2f'',
        makeUnary_ext Real ''ceil'' ''ceilf'', makeUnary_ext Real ''floor'' ''floorf'',
        makeUnary_ext Real ''trunc'' ''truncf'', makeUnary_ext Real ''round'' ''roundf''],
     ast_name = ''cmath'', ast_imports = []\<rparr>"

end
