(* ===== verification/Semantic_Faults.thy ===== *)
theory Semantic_Faults
  imports Semantic
begin

section \<open>Programs on which semantic analysis fails\<close>

text \<open>
  Three small modules that reach an assertion of the semantic phase, and one that it rejects although it
  is correct. The modules are given as syntax trees; the builtin scope is the only scope before them. Then
  the literals in the branches of a conditional expression, which are rejected in every program.
\<close>

definition analyse :: "fp_format \<Rightarrow> decl list \<Rightarrow> (symbols \<times> (name \<times> loc \<times> string) list) res" where
  "analyse ld decls = compileModule ld initModules \<lparr>ast_global = decls, ast_name = ''m'', ast_imports = []\<rparr>"

definition named :: "name \<Rightarrow> ty" where
  "named n = NamedType no_loc n None"

definition ident :: "name \<Rightarrow> expr" where
  "ident n = Identifier no_loc n"

definition function_decl :: "FuncParam option \<Rightarrow> name \<Rightarrow> FuncParam list \<Rightarrow> stat list \<Rightarrow> decl" where
  "function_decl receiver n params body = Func no_loc True receiver n params None no_loc body"

text \<open>
  A method that calls itself before its return type is known reaches the assertion of
  \<^verbatim>\<open>lookupFunc\<close> on the return type of a method: \<^verbatim>\<open>func (self: sint) f() { return self.f(); }\<close>. A function
  in the same place is reported as an error.
\<close>

theorem recursive_method_asserts:
  "analyse ld
     [function_decl (Some (FuncParam no_loc ''self'' val (named ''sint''))) ''f'' []
        [Return no_loc (Some (FuncCall no_loc (MemberIdent no_loc (ident ''self'') ''f'') []))]]
   = Inl (Undefined ''assertion: return type of method'')
   \<and> analyse ld
     [function_decl None ''f'' [] [Return no_loc (Some (FuncCall no_loc (ident ''f'') []))]]
   = Inl (Fatal no_loc (''Return type of function '' @ quoted ''f'' @ '' cannot be deduced''))"
  by code_simp

text \<open>
  A function that stores itself in a variable and calls the variable reaches the assertion on
  the return type of a function object: \<^verbatim>\<open>func f() { let g = f; g(); }\<close>.
\<close>

theorem recursive_object_asserts:
  "analyse ld
     [function_decl None ''f'' []
        [SDecl (Let no_loc False ''g'' None (ident ''f'')), SAsgn (CallAssign no_loc (ident ''g'') [] no_loc)]]
   = Inl (Undefined ''assertion: return type of function object'')"
  by code_simp

text \<open>
  A strong alias declared again in an inner scope is the same type for \<^verbatim>\<open>compareTypes\<close>, so a compound
  assignment between the two reaches the assertion that both operands have the same builtin type:
  \<^verbatim>\<open>type D char; func f(a: D) { type D real; var b = make D true; a += b; }\<close>.
\<close>

theorem strong_alias_asserts:
  "analyse ld
     [TypeAlias no_loc ''D'' (named ''char'') True,
      function_decl None ''f'' [FuncParam no_loc ''a'' val (named ''D'')]
        [SDecl (TypeAlias no_loc ''D'' (named ''real'') True),
         SDecl (Var no_loc False ''b'' None (Some (Make no_loc (named ''D'') (BoolLiteral no_loc True)))),
         SAsgn (CompAssign no_loc (ident ''a'') a_add (ident ''b''))]]
   = Inl (Undefined ''assertion: types of operands'')"
  by code_simp

text \<open>
  A function object cannot be called when its type was written as an alias, since the call looks
  for a function type without looking through aliases:
  \<^verbatim>\<open>type F = func(); func h() {} func f(g: F) { g(); }\<close>. With the type written out the call is accepted.
\<close>

theorem aliased_object_not_callable:
  "analyse ld
     [TypeAlias no_loc ''F'' (FuncType no_loc [] None) False,
      function_decl None ''f'' [FuncParam no_loc ''g'' val (named ''F'')]
        [SAsgn (CallAssign no_loc (ident ''g'') [] no_loc)]]
   = Inl (Fatal no_loc ''Calling an expression but it is not a function object'')
   \<and> (case analyse ld
       [function_decl None ''f'' [FuncParam no_loc ''g'' val (FuncType no_loc [] None)]
          [SAsgn (CallAssign no_loc (ident ''g'') [] no_loc)]] of
         Inl e \<Rightarrow> False
       | Inr r \<Rightarrow> True)"
  by code_simp

subsection \<open>Literals in the branches of a conditional expression\<close>

lemma visit_fails:
  assumes "\<And>s. expected s = t \<Longrightarrow> visit s = Inl e"
  shows "visitExprNoCheck visit t s = Inl e"
  using assms by (simp add: visitExprNoCheck_def bindS_def stackS_def getS_def modS_def retS_def)

lemma untyped_literals:
  assumes "expected s = None"
  shows "infer_expr ld (InitList l es) s = Inl (Fatal l ''Could not infer type of init list'')"
    and "infer_expr ld (ArrayLiteral l []) s = Inl (Fatal l ''Could not infer type of empty array'')"
  using assms by (simp_all add: inferInitList_def inferArray_def arrayExpected_def bindS_def getS_def failS_def liftE_def)

lemma ternary_branch:
  assumes "visitExprCheck (infer_expr ld c) (expr_loc c) btn_bool s = Inr (ct, s1)"
    and "\<And>s. expected s = None \<Longrightarrow> infer_expr ld troo s = Inl e"
  shows "infer_expr ld (Ternary l c troo fols) s = Inl e"
  using assms(1) visit_fails [of None "infer_expr ld troo" e s1, OF assms(2)]
  by (simp add: visitExprCheckMember_def bindS_def)

lemma array_literal_expected: "getExprType (infer_expr ld (ArrayLiteral l [])) l' (Some (RArray t)) s
    = Inr (makeLetVal (Some (RArray (lookupStrongType t))), s)"
proof -
  have "compareTypes (Some (RArray t)) (Some (RArray (lookupStrongType t)))" 
    by (simp add: compareTypes_iff)
  then show ?thesis
  by (simp add: getExprType_def freshVisitor_def visitExprCheck_def visitExprNoCheck_def bindS_def stackS_def getS_def modS_def retS_def setType_def
   stackE_def stackP_def inferArray_def arrayExpected_def liftE_def concrete_array_def makeLetVal_def checkExpected_def stack_push_defs stack_pop_defs)
qed
text \<open>
  C35: a conditional expression drops the type that is expected of it before it visits its branches. Whatever type
  is expected, an initialiser list or an empty array as the first branch is an error, although
  the same array is accepted where the type is expected of it directly: \<^verbatim>\<open>let a: [sint] = []\<close> is accepted and
  \<^verbatim>\<open>let a: [sint] = true ? [] : []\<close> is not.
\<close>

theorem ternary_loses_expected:
  assumes "visitExprCheck (infer_expr ld c) (expr_loc c) btn_bool s = Inr (ct, s1)"
  shows "infer_expr ld (Ternary l c (InitList l' es) fols) s = Inl (Fatal l' ''Could not infer type of init list'')
    \<and> infer_expr ld (Ternary l c (ArrayLiteral l' []) fols) s = Inl (Fatal l' ''Could not infer type of empty array'')
    \<and> getExprType (infer_expr ld (ArrayLiteral l' [])) l' (Some (RArray t)) s
        = Inr (makeLetVal (Some (RArray (lookupStrongType t))), s)"
  by (intro conjI ternary_branch [OF assms] untyped_literals array_literal_expected)

theorem ternary_loses_expected_witness:
  "infer_expr \<lparr>prec = 53, emin = -1022, emax = 1023\<rparr>
     (Ternary no_loc (BoolLiteral no_loc True) (ArrayLiteral no_loc []) (ArrayLiteral no_loc []))
     ((module_context initModules ''m'' [])\<lparr>lkp_stack := pushKind K_subexpr [] empty_stack, expected := Some (RArray (RBtn Sint))\<rparr>)
   = Inl (Fatal no_loc ''Could not infer type of empty array'')"
proof -
  let ?s = "(module_context initModules ''m'' [])\<lparr>lkp_stack := pushKind K_subexpr [] empty_stack, expected := Some (RArray (RBtn Sint))\<rparr>"
  let ?ld = "\<lparr>prec = 53, emin = -1022, emax = 1023\<rparr>"
  have "case visitExprCheck (infer_expr ?ld (BoolLiteral no_loc True)) no_loc btn_bool ?s of Inl _ \<Rightarrow> False | Inr _ \<Rightarrow> True"
    by code_simp
  then obtain ct s1 where
    v: "visitExprCheck (infer_expr ?ld (BoolLiteral no_loc True)) (expr_loc (BoolLiteral no_loc True)) btn_bool ?s = Inr (ct, s1)"
    by (auto split: sum.splits)
  show ?thesis using ternary_loses_expected [OF v] by blast
qed

end
