(* ===== verification/Sem_State.thy ===== *)
theory Sem_State
  imports Semantic
begin

section \<open>The state of the semantic phase stays well formed\<close>

text \<open>
  The invariant of the state that the semantic phase works on: the scopes form a tree with the builtin
  module as its root, the scope of a function or lambda names a symbol that exists and is one, every
  object has a type, and the overloads of a name are all functions. \<open>step\<close> says how an operation may
  change the state, and \<open>sp\<close> is the contract of an operation: a precondition, the names it may add, and
  the errors it may end in. The theories after this one prove a contract for every operation.
\<close>

subsection \<open>Well-formed scopes\<close>

fun kind :: "symbol_data \<Rightarrow> nat" where
  "kind (TypeAliasSym _ _) = 0"
| "kind (ObjectSym _) = 1"
| "kind (FuncSym _ _ _) = 2"
| "kind (LambdaSym _ _ _) = 3"
| "kind (BtnFuncSym _) = 4"

definition typed :: "expr_type \<Rightarrow> bool" where
  "typed t \<longleftrightarrow> et_type t \<noteq> None"

fun data_ok :: "symbol_data \<Rightarrow> bool" where
  "data_ok (ObjectSym t) = typed t"
| "data_ok (FuncSym _ ps nd) = (ps \<noteq> [] \<and> list_all typed (tl ps) \<and> (fn_receiver nd \<longrightarrow> typed (hd ps)))"
| "data_ok (LambdaSym _ ps _) = list_all typed ps"
| "data_ok _ = True"

definition entry_kind :: "name \<times> symbol \<Rightarrow> nat" where
  "entry_kind e = kind (sym_data (snd e))"

definition entry_ok :: "name \<times> symbol \<Rightarrow> bool" where
  "entry_ok e \<longleftrightarrow> data_ok (sym_data (snd e)) \<and> (entry_kind e \<in> {2, 4} \<longrightarrow> fst e \<noteq> ''$lambda'')"

text \<open>The overloads of a name in a table are all functions, and only module scopes have functions.\<close>

definition apart :: "(name \<times> nat) list \<Rightarrow> bool" where
  "apart sg \<longleftrightarrow> (\<forall>n. (n, 2) \<in> set sg \<longrightarrow> (\<forall>k. (n, k) \<in> set sg \<longrightarrow> k = 2))"

definition sig :: "scope list \<Rightarrow> nat \<Rightarrow> (name \<times> nat) list" where
  "sig scs i = map (\<lambda>e. (fst e, entry_kind e)) (table (scs ! i))"

definition table_ok :: "scope list \<Rightarrow> nat \<Rightarrow> bool" where
  "table_ok scs i \<longleftrightarrow> list_all entry_ok (table (scs ! i)) \<and> apart (sig scs i)
     \<and> (stype (scs ! i) \<noteq> ns_scope \<longrightarrow> 2 \<notin> snd ` set (sig scs i))"

definition valid_ref :: "scope list \<Rightarrow> sym_ref \<Rightarrow> bool" where
  "valid_ref scs r \<longleftrightarrow> fst r < length scs \<and> snd r < length (table (scs ! fst r))"

definition kind_at :: "scope list \<Rightarrow> sym_ref \<Rightarrow> nat" where
  "kind_at scs r = kind (sym_data (get_symbol scs r))"

definition scope_ok :: "scope list \<Rightarrow> nat \<Rightarrow> bool" where
  "scope_ok scs i \<longleftrightarrow>
     (case parent (scs ! i) of None \<Rightarrow> i = 0 | Some p \<Rightarrow> p < i)
     \<and> (i = 0 \<longrightarrow> stype (scs ! i) = ns_scope)
     \<and> (stype (scs ! i) = func_scope \<longrightarrow> (\<exists>r. scope_sym (scs ! i) = Some r \<and> valid_ref scs r \<and> kind_at scs r = 2))
     \<and> (stype (scs ! i) = closure_scope \<longrightarrow> (\<exists>r. scope_sym (scs ! i) = Some r \<and> valid_ref scs r \<and> kind_at scs r = 3))
     \<and> table_ok scs i"

definition wf_scopes :: "scope list \<Rightarrow> bool" where
  "wf_scopes scs \<longleftrightarrow> (\<forall>i < length scs. scope_ok scs i)"

definition wf_sem :: "sem \<Rightarrow> bool" where
  "wf_sem s \<longleftrightarrow> wf_scopes (scopes s) \<and> 0 < cur s \<and> cur s < length (scopes s)"

lemma wf_parent: "wf_scopes scs \<Longrightarrow> i < length scs \<Longrightarrow> parent (scs ! i) = Some p \<Longrightarrow> p < i"
  by (fastforce simp: wf_scopes_def scope_ok_def)

lemma wf_parent_None: "wf_scopes scs \<Longrightarrow> i < length scs \<Longrightarrow> parent (scs ! i) = None \<longleftrightarrow> i = 0"
  by (fastforce simp: wf_scopes_def scope_ok_def split: option.splits)

lemma wf_root: "wf_scopes scs \<Longrightarrow> scs \<noteq> [] \<Longrightarrow> stype (scs ! 0) = ns_scope"
  by (fastforce simp: wf_scopes_def scope_ok_def)

text \<open>Going up from a scope.\<close>

lemma climb_Some:
  assumes "climb f scs i = Some x" and "wf_scopes scs" and "i < length scs"
  shows "\<exists>j \<le> i. f j = Some x"
  using assms
proof (induction i rule: less_induct)
  case (less i)
  show ?case
  proof (cases "f i")
    case None
    then obtain p where p: "p < i" "climb f scs p = Some x"
      using less.prems(1) by (subst (asm) climb.simps) (auto split: option.splits if_splits)
    then show ?thesis using less.IH [OF p] less.prems by (meson less_imp_le order.trans less_trans)
  next
    case (Some y)
    then show ?thesis using less.prems(1) by (subst (asm) climb.simps) auto
  qed
qed

lemma climb_None:
  assumes "climb f scs i = None" and "wf_scopes scs" and "i < length scs"
  shows "f 0 = None"
  using assms
proof (induction i rule: less_induct)
  case (less i)
  have fi: "f i = None" using less.prems(1) by (subst (asm) climb.simps) (auto split: option.splits)
  show ?case
  proof (cases "parent (scs ! i)")
    case None
    then show ?thesis using fi wf_parent_None [of scs i] less.prems by auto
  next
    case (Some p)
    then have "p < i" using wf_parent less.prems by blast
    moreover have "climb f scs p = None"
      using less.prems(1) fi Some \<open>p < i\<close> by (subst (asm) climb.simps) auto
    ultimately show ?thesis using less.IH [of p] less.prems by simp
  qed
qed

lemma climb_cong:
  assumes "wf_scopes scs" and "i < length scs" and "length scs \<le> length scs'"
    and "\<And>j. j \<le> i \<Longrightarrow> parent (scs' ! j) = parent (scs ! j) \<and> f' j = f j"
  shows "climb f' scs' i = climb f scs i"
  using assms(2,4)
proof (induction i rule: less_induct)
  case (less i)
  have eq: "parent (scs' ! i) = parent (scs ! i)" "f' i = f i" using less.prems by auto
  have "climb f' scs' p = climb f scs p" if "parent (scs ! i) = Some p" "p < i" for p
    using less.IH [of p] less.prems that by auto
  then show ?case
    by (auto simp: climb.simps [of f' scs' i] climb.simps [of f scs i] eq split: option.splits)
qed

lemma nth_mem_range: "k \<in> set (equal_range n tbl) \<longleftrightarrow> k < length tbl \<and> fst (tbl ! k) = n"
  by (auto simp: equal_range_def)

lemma find_pos_Some: "find_pos n tbl = Some k \<Longrightarrow> k < length tbl \<and> fst (tbl ! k) = n"
  using nth_mem_range [of k n tbl] by (auto simp: find_pos_def split: list.splits)

lemma equal_range_Nil: "equal_range n tbl = [] \<longleftrightarrow> n \<notin> fst ` set tbl"
proof -
  have "equal_range n tbl = [] \<longleftrightarrow> (\<forall>k < length tbl. fst (tbl ! k) \<noteq> n)"
    by (auto simp: equal_range_def filter_empty_conv)
  also have "\<dots> \<longleftrightarrow> (\<forall>x \<in> set tbl. fst x \<noteq> n)" by (simp add: all_set_conv_all_nth)
  also have "\<dots> \<longleftrightarrow> n \<notin> fst ` set tbl" by auto
  finally show ?thesis .
qed

lemma find_pos_None: "find_pos n tbl = None \<longleftrightarrow> n \<notin> fst ` set tbl"
  by (auto simp: find_pos_def equal_range_Nil [symmetric] split: list.splits)

lemma findScope_valid:
  assumes "findScope scs i n = Some r" and "wf_scopes scs" and "i < length scs"
  shows "valid_ref scs r \<and> fst (table (scs ! fst r) ! snd r) = n"
  using climb_Some [OF assms(1) [unfolded findScope_def] assms(2,3)] assms(3)
  by (auto simp: valid_ref_def dest: find_pos_Some)

lemma moduleName_ok: "wf_scopes scs \<Longrightarrow> i < length scs \<Longrightarrow> \<exists>m. moduleName scs i = Inr m"
proof -
  assume wf_sem: "wf_scopes scs" and i: "i < length scs"
  have "findNearest ns_scope scs i \<noteq> None"
    using climb_None [of _ scs i, OF _ wf_sem i] wf_root [OF wf_sem] i
    by (fastforce simp: findNearest_def)
  then show ?thesis by (auto simp: moduleName_def)
qed

lemma moduleName_no_error: "wf_scopes scs \<Longrightarrow> i < length scs \<Longrightarrow> moduleName scs i \<noteq> Inl e"
  using moduleName_ok [of scs i] by auto

subsection \<open>How a step changes the scopes\<close>

text \<open>
  \<open>grows N c scs scs'\<close>: scopes were only added, and of the scopes there were, only the table of the scope
  \<open>c\<close> has new entries, with names in \<open>N\<close>; the kind of a symbol does not change.
\<close>

definition grows :: "name set \<Rightarrow> nat \<Rightarrow> scope list \<Rightarrow> scope list \<Rightarrow> bool" where
  "grows N c scs scs' \<longleftrightarrow> length scs \<le> length scs'
     \<and> (\<forall>i < length scs.
          parent (scs' ! i) = parent (scs ! i) \<and> stype (scs' ! i) = stype (scs ! i)
          \<and> scope_sym (scs' ! i) = scope_sym (scs ! i) \<and> smodule (scs' ! i) = smodule (scs ! i)
          \<and> (\<exists>new. sig scs' i = sig scs i @ new \<and> (i \<noteq> c \<longrightarrow> new = []) \<and> fst ` set new \<subseteq> N))"

definition step :: "name set \<Rightarrow> sem \<Rightarrow> sem \<Rightarrow> bool" where
  "step N s s' \<longleftrightarrow> wf_sem s' \<and> cur s' = cur s \<and> grows N (cur s) (scopes s) (scopes s')"

lemma grows_refl [simp]: "grows N c scs scs"
  by (simp add: grows_def)

lemma grows_trans:
  assumes "grows N c scs scs'" and "grows N c scs' scs''"
  shows "grows N c scs scs''"
  unfolding grows_def
proof (intro conjI allI impI)
  show "length scs \<le> length scs''" using assms by (simp add: grows_def)
  fix i
  assume i: "i < length scs"
  then have i': "i < length scs'" using assms(1) by (simp add: grows_def)
  from assms(1) i obtain new where 1: "sig scs' i = sig scs i @ new" "i \<noteq> c \<longrightarrow> new = []" "fst ` set new \<subseteq> N"
    by (auto simp: grows_def)
  from assms(2) i' obtain new' where 2: "sig scs'' i = sig scs' i @ new'" "i \<noteq> c \<longrightarrow> new' = []" "fst ` set new' \<subseteq> N"
    by (auto simp: grows_def)
  show "\<exists>new. sig scs'' i = sig scs i @ new \<and> (i \<noteq> c \<longrightarrow> new = []) \<and> fst ` set new \<subseteq> N"
    by (rule exI [of _ "new @ new'"]) (use 1 2 in auto)
qed (use assms in \<open>auto simp: grows_def\<close>)

lemma grows_mono: "grows N c scs scs' \<Longrightarrow> N \<subseteq> M \<Longrightarrow> grows M c scs scs'"
  unfolding grows_def by (meson order_trans)

lemma grows_other: "grows N c scs scs' \<Longrightarrow> length scs \<le> c \<Longrightarrow> grows {} d scs scs'"
  unfolding grows_def by fastforce

lemma step_refl [simp]: "wf_sem s \<Longrightarrow> step N s s"
  by (simp add: step_def)

lemma step_trans [trans]: "step N s s' \<Longrightarrow> step N s' s'' \<Longrightarrow> step N s s''"
  unfolding step_def by (metis grows_trans)

lemma step_mono: "step N s s' \<Longrightarrow> N \<subseteq> M \<Longrightarrow> step M s s'"
  unfolding step_def using grows_mono by blast

lemma step_wf: "step N s s' \<Longrightarrow> wf_sem s'" and step_cur: "step N s s' \<Longrightarrow> cur s' = cur s"
  by (simp_all add: step_def)

lemma sig_length [simp]: "length (sig scs i) = length (table (scs ! i))"
  by (simp add: sig_def)

lemma sig_nth: "k < length (table (scs ! i)) \<Longrightarrow> sig scs i ! k = (fst (table (scs ! i) ! k), kind_at scs (i, k))"
  by (simp add: sig_def kind_at_def get_symbol_def entry_kind_def)

lemma grows_ref:
  assumes "grows N c scs scs'" and "valid_ref scs r"
  shows "valid_ref scs' r \<and> kind_at scs' r = kind_at scs r
    \<and> fst (table (scs' ! fst r) ! snd r) = fst (table (scs ! fst r) ! snd r)"
proof -
  obtain i k where r: "r = (i, k)" by (cases r)
  have i: "i < length scs" "k < length (table (scs ! i))" using assms(2) by (auto simp: valid_ref_def r)
  then obtain new where new: "sig scs' i = sig scs i @ new" using assms(1) by (auto simp: grows_def)
  have k': "k < length (table (scs' ! i))" using i new by (metis length_append sig_length trans_less_add1)
  have "sig scs' i ! k = sig scs i ! k" using new i by (simp add: nth_append)
  then show ?thesis
    using i k' assms(1) by (simp add: r sig_nth valid_ref_def grows_def)
qed

lemma wf_same_length:
  assumes "wf_scopes scs" and g: "grows N c scs scs'" and "length scs' = length scs"
    and "\<And>i. i < length scs \<Longrightarrow> table_ok scs' i"
  shows "wf_scopes scs'"
  unfolding wf_scopes_def
proof (intro allI impI)
  fix i
  assume "i < length scs'"
  then have i: "i < length scs" using assms(3) by simp
  then have "scope_ok scs i" using assms(1) by (simp add: wf_scopes_def)
  moreover have "parent (scs' ! i) = parent (scs ! i) \<and> stype (scs' ! i) = stype (scs ! i)
      \<and> scope_sym (scs' ! i) = scope_sym (scs ! i)"
    using g i by (simp add: grows_def)
  ultimately show "scope_ok scs' i"
    using grows_ref [OF g] assms(4) [OF i] unfolding scope_ok_def by auto
qed

lemma step_intro:
  assumes "wf_sem s" and "grows N (cur s) (scopes s) (scopes s')" and "cur s' = cur s"
    and "length (scopes s') = length (scopes s)"
    and "\<And>i. i < length (scopes s) \<Longrightarrow> table_ok (scopes s') i"
  shows "step N s s'"
  using wf_same_length [OF _ assms(2,4,5)] assms unfolding step_def wf_sem_def by simp

lemma wf_entries: "wf_scopes scs \<Longrightarrow> i < length scs \<Longrightarrow> list_all entry_ok (table (scs ! i))"
  by (simp add: wf_scopes_def scope_ok_def table_ok_def)

lemma wf_table: "wf_scopes scs \<Longrightarrow> i < length scs \<Longrightarrow> table_ok scs i"
  by (simp add: wf_scopes_def scope_ok_def)

lemma wf_data: "wf_scopes scs \<Longrightarrow> valid_ref scs r \<Longrightarrow> data_ok (sym_data (get_symbol scs r))"
  using wf_entries [of scs "fst r"] by (auto simp: valid_ref_def get_symbol_def list_all_length entry_ok_def)

text \<open>The three ways the scopes change.\<close>

lemma sig_upd_symbol:
  assumes "valid_ref (scopes s) r" and "kind (sym_data (f (get_symbol (scopes s) r))) = kind_at (scopes s) r"
  shows "sig (scopes (upd_symbol f r s)) j = sig (scopes s) j"
proof (cases r)
  case (Pair i k)
  have "map g (xs[k := y]) = map g xs" if "g y = g (xs ! k)" for g :: "name \<times> symbol \<Rightarrow> name \<times> nat" and xs y
    using that by (simp add: map_update) (metis list_update_beyond list_update_id map_update not_less nth_map length_map)
  then show ?thesis
    using assms by (cases "j = i")
      (auto simp: sig_def upd_symbol_def Pair valid_ref_def kind_at_def entry_kind_def get_symbol_def)
qed

lemma step_upd_symbol:
  assumes "wf_sem s" and "valid_ref (scopes s) r"
    and k: "kind (sym_data (f (get_symbol (scopes s) r))) = kind_at (scopes s) r"
    and d: "data_ok (sym_data (f (get_symbol (scopes s) r)))"
  shows "step {} s (upd_symbol f r s)"
proof (rule step_intro [OF assms(1)])
  obtain i k where r: "r = (i, k)" by (cases r)
  have i: "i < length (scopes s)" "k < length (table (scopes s ! i))" using assms(2) by (auto simp: valid_ref_def r)
  have same: "parent (scopes (upd_symbol f r s) ! j) = parent (scopes s ! j)"
    "stype (scopes (upd_symbol f r s) ! j) = stype (scopes s ! j)"
    "scope_sym (scopes (upd_symbol f r s) ! j) = scope_sym (scopes s ! j)"
    "smodule (scopes (upd_symbol f r s) ! j) = smodule (scopes s ! j)" for j
    using i by (cases "j = i"; simp add: upd_symbol_def r)+
  note sg = sig_upd_symbol [where f = f, OF assms(2,3)]
  show "grows {} (cur s) (scopes s) (scopes (upd_symbol f r s))"
    using same by (simp add: grows_def sg) (simp add: upd_symbol_def)
  fix j
  assume j: "j < length (scopes s)"
  have "entry_ok (fst (table (scopes s ! i) ! k), f (get_symbol (scopes s) r))"
  proof -
    have "entry_ok (table (scopes s ! i) ! k)"
      using wf_entries [of "scopes s" i] assms(1) i by (simp add: wf_sem_def list_all_length)
    then show ?thesis using d assms(3) by (simp add: entry_ok_def entry_kind_def kind_at_def get_symbol_def r)
  qed
  then have "list_all entry_ok (table (scopes (upd_symbol f r s) ! j))"
    using wf_entries [of "scopes s" j] assms(1) j i
    by (auto simp: upd_symbol_def r nth_list_update wf_sem_def list_all_length)
  then show "table_ok (scopes (upd_symbol f r s)) j"
    using wf_table [of "scopes s" j] assms(1) j by (simp add: table_ok_def sg same wf_sem_def)
qed (simp_all add: upd_symbol_def)

text \<open>When a symbol may be added to the current scope.\<close>

definition admits :: "name \<Rightarrow> symbol_data \<Rightarrow> sem \<Rightarrow> bool" where
  "admits n d s \<longleftrightarrow>
     (if kind d = 2 then stype (scopes s ! cur s) = ns_scope \<and> (\<forall>k. (n, k) \<in> set (sig (scopes s) (cur s)) \<longrightarrow> k = 2)
      else (n, 2) \<notin> set (sig (scopes s) (cur s)))"

lemma apart_snoc:
  "apart (sg @ [(n, k)]) \<longleftrightarrow> apart sg
     \<and> (if k = 2 then \<forall>j. (n, j) \<in> set sg \<longrightarrow> j = 2 else (n, 2) \<notin> set sg)"
  by (auto simp: apart_def)

lemma step_addSymbol:
  assumes "wf_sem s" and "addSymbol (cur s) n sy s = Inr (r, s')" and "entry_ok (n, sy)" and "admits n (sym_data sy) s"
  shows "step {n} s s' \<and> valid_ref (scopes s') r \<and> get_symbol (scopes s') r = sy \<and> lkp_stack s' = lkp_stack s"
proof -
  have s': "s' = s\<lparr>scopes := (scopes s)[cur s := (scopes s ! cur s)\<lparr>table := table (scopes s ! cur s) @ [(n, sy)]\<rparr>]\<rparr>"
    and r: "r = (cur s, length (table (scopes s ! cur s)))"
    using assms(2) by (auto simp: addSymbol_def)
  have c: "cur s < length (scopes s)" using assms(1) by (simp add: wf_sem_def)
  have "step {n} s s'"
  proof (rule step_intro [OF assms(1)])
    show "grows {n} (cur s) (scopes s) (scopes s')"
      using c by (auto simp: grows_def s' sig_def nth_list_update)
    fix j
    assume j: "j < length (scopes s)"
    have tj: "table_ok (scopes s) j" using wf_table [of "scopes s" j] assms(1) j by (simp add: wf_sem_def)
    show "table_ok (scopes s') j"
    proof (cases "j = cur s")
      case True
      have sg: "sig (scopes s') j = sig (scopes s) j @ [(n, kind (sym_data sy))]"
        using c True by (simp add: sig_def s' entry_kind_def)
      show ?thesis
        using tj assms(3,4) c True
        unfolding table_ok_def sg apart_snoc by (auto simp: s' admits_def split: if_splits)
    next
      case False
      then show ?thesis using tj by (simp add: table_ok_def s' sig_def)
    qed
  qed (simp_all add: s')
  then show ?thesis using c by (simp add: s' r valid_ref_def get_symbol_def)
qed

subsection \<open>Entering and leaving a scope\<close>

definition pushed :: "sem \<Rightarrow> ScopeType \<Rightarrow> sym_ref option \<Rightarrow> name \<Rightarrow> sem" where
  "pushed s ty sy m =
     s\<lparr>scopes := scopes s @ [make_scope (Some (cur s)) ty sy m], cur := length (scopes s)\<rparr>"

definition sym_for :: "ScopeType \<Rightarrow> scope list \<Rightarrow> sym_ref option \<Rightarrow> bool" where
  "sym_for ty scs sy \<longleftrightarrow>
     (ty = func_scope \<longrightarrow> (\<exists>r. sy = Some r \<and> valid_ref scs r \<and> kind_at scs r = 2))
     \<and> (ty = closure_scope \<longrightarrow> (\<exists>r. sy = Some r \<and> valid_ref scs r \<and> kind_at scs r = 3))"

lemma enter_simps:
  "enterScope ty s = Inr (length (scopes s), pushed s ty None [])"
  "enterScope_sym ty r s = Inr (length (scopes s), pushed s ty (Some r) [])"
  "enterScope_ns m s = Inr (length (scopes s), pushed s ns_scope None m)"
  by (simp_all add: enterScope_def enterScope_sym_def enterScope_ns_def pushScope_def bindS_def getS_def
      pushed_def)

lemma grows_pushed: "grows {} c (scopes s) (scopes (pushed s ty sy m))"
  by (simp add: grows_def pushed_def nth_append sig_def)

lemma wf_pushed:
  assumes "wf_scopes (scopes s)" and "cur s < length (scopes s)" and "sym_for ty (scopes s) sy"
  shows "wf_sem (pushed s ty sy m)"
proof -
  let ?scs = "scopes (pushed s ty sy m)"
  have "scope_ok ?scs i" if i: "i < length ?scs" for i
  proof (cases "i < length (scopes s)")
    case True
    then have "scope_ok (scopes s) i" using assms(1) by (simp add: wf_scopes_def)
    then show ?thesis
      using True grows_ref [OF grows_pushed [of 0 s ty sy m]]
      by (auto simp: scope_ok_def pushed_def nth_append table_ok_def sig_def)
  next
    case False
    then have "i = length (scopes s)" using i by (simp add: pushed_def)
    then show ?thesis
      using assms grows_ref [OF grows_pushed [of 0 s ty sy m]]
      by (auto simp: scope_ok_def pushed_def nth_append make_scope_def sym_for_def table_ok_def sig_def
          apart_def)
  qed
  then show ?thesis using assms by (auto simp: wf_sem_def wf_scopes_def pushed_def)
qed

lemma grows_init:
  assumes "grows N (length scs) (scs @ [x]) scs'"
  shows "grows {} c scs scs'"
  unfolding grows_def
proof (intro conjI allI impI)
  show "length scs \<le> length scs'" using assms by (simp add: grows_def)
  fix i
  assume i: "i < length scs"
  note g = assms [unfolded grows_def, THEN conjunct2, rule_format, of i]
  have eq: "(scs @ [x]) ! i = scs ! i" "sig (scs @ [x]) i = sig scs i"
    using i by (simp_all add: nth_append sig_def)
  show "parent (scs' ! i) = parent (scs ! i)" "stype (scs' ! i) = stype (scs ! i)"
    "scope_sym (scs' ! i) = scope_sym (scs ! i)" "smodule (scs' ! i) = smodule (scs ! i)"
    "\<exists>new. sig scs' i = sig scs i @ new \<and> (i \<noteq> c \<longrightarrow> new = []) \<and> fst ` set new \<subseteq> {}"
    using g i by (auto simp: eq)
qed

lemma leave_pushed:
  assumes "wf_sem s" and st: "step N (pushed s ty sy m) s'"
  shows "leaveScope s' = Inr ((), s'\<lparr>cur := cur s\<rparr>) \<and> step {} s (s'\<lparr>cur := cur s\<rparr>)"
proof -
  let ?n = "length (scopes s)"
  have g: "grows N ?n (scopes (pushed s ty sy m)) (scopes s')" and c: "cur s' = ?n"
    using st by (simp_all add: step_def pushed_def)
  have "parent (scopes s' ! ?n) = Some (cur s)"
    using g by (simp add: grows_def pushed_def nth_append make_scope_def)
  moreover have "grows {} (cur s) (scopes s) (scopes s')"
    using grows_init [OF g [unfolded pushed_def, simplified]] .
  moreover have "wf_sem (s'\<lparr>cur := cur s\<rparr>)"
    using assms g by (auto simp: wf_sem_def step_def grows_def pushed_def)
  ultimately show ?thesis by (simp add: leaveScope_def c step_def)
qed

text \<open>Whether the current scope is inside a function or a lambda.\<close>

definition in_func :: "sem \<Rightarrow> bool" where
  "in_func s \<longleftrightarrow> (\<exists>i. findNearestEither func_scope closure_scope (scopes s) (cur s) = Inr i)
     \<and> stype (scopes s ! cur s) \<noteq> ns_scope"

lemma in_func_climb:
  "in_func s \<longleftrightarrow> climb (\<lambda>i. if stype (scopes s ! i) = func_scope \<or> stype (scopes s ! i) = closure_scope
     then Some i else None) (scopes s) (cur s) \<noteq> None \<and> stype (scopes s ! cur s) \<noteq> ns_scope"
  by (auto simp: in_func_def findNearestEither_def split: option.splits)

lemma in_func_grows:
  assumes "wf_scopes (scopes s)" and "cur s < length (scopes s)" and "grows N c (scopes s) (scopes s')" and "cur s' = cur s"
  shows "in_func s' = in_func s"
proof -
  have "climb (\<lambda>i. if stype (scopes s' ! i) = func_scope \<or> stype (scopes s' ! i) = closure_scope then Some i else None)
      (scopes s') (cur s)
    = climb (\<lambda>i. if stype (scopes s ! i) = func_scope \<or> stype (scopes s ! i) = closure_scope then Some i else None)
      (scopes s) (cur s)"
    by (rule climb_cong [OF assms(1,2)]) (use assms in \<open>auto simp: grows_def\<close>)
  then show ?thesis unfolding in_func_climb assms(4) using assms(2,3) by (simp add: grows_def)
qed

lemma step_in_func: "wf_sem s \<Longrightarrow> step N s s' \<Longrightarrow> in_func s' = in_func s"
  using in_func_grows [of s N "cur s" s'] by (simp add: wf_sem_def step_def)

lemma in_func_pushed:
  assumes "wf_sem s"
    and ty: "ty \<noteq> ns_scope" and s: "ty \<in> {func_scope, closure_scope} \<or> in_func s"
  shows "in_func (pushed s ty sy m)"
proof -
  let ?f = "\<lambda>scs i. if stype (scs ! i) = func_scope \<or> stype (scs ! i) = closure_scope then Some i else None"
  let ?n = "length (scopes s)" and ?scs = "scopes (pushed s ty sy m)"
  have c: "cur s < ?n" using assms by (simp add: wf_sem_def)
  have n: "stype (?scs ! ?n) = ty" "parent (?scs ! ?n) = Some (cur s)"
    by (simp_all add: pushed_def nth_append make_scope_def)
  have "climb (?f ?scs) ?scs (cur s) = climb (?f (scopes s)) (scopes s) (cur s)"
    by (rule climb_cong) (use assms grows_pushed [of 0 s ty sy m] in \<open>auto simp: wf_sem_def grows_def\<close>)
  moreover have "climb (?f ?scs) ?scs ?n = (if ty \<in> {func_scope, closure_scope} then Some ?n else climb (?f ?scs) ?scs (cur s))"
    using n c by (subst climb.simps) auto
  moreover have "cur (pushed s ty sy m) = ?n" by (simp add: pushed_def)
  ultimately show ?thesis using ty s n(1) unfolding in_func_climb by (auto simp del: climb.simps)
qed

subsection \<open>Contracts\<close>

text \<open>
  The errors that a step may end in: an error message, or one of the failures that the source really
  has. The literals have theirs (see \<open>Number_Literal\<close>); the other three are the findings of this theory.
\<close>

definition known_failures :: "string set" where
  "known_failures =
     {''assertion: return type of method'', ''assertion: return type of function object'',
      ''assertion: types of operands''}"

definition literal_failures :: "string set" where
  "literal_failures =
     {''assertion: empty literal'', ''number returned without a value'', ''UNREACHABLE'',
      ''assertion: literal ends in a backslash''}"

fun tolerable :: "error \<Rightarrow> bool" where
  "tolerable (Fatal _ _) = True"
| "tolerable (Undefined m) = (m \<in> known_failures \<union> literal_failures)"
| "tolerable _ = False"

text \<open>
  \<open>sp N P m Q\<close>: from a well-formed state with \<open>P\<close>, the step \<open>m\<close> ends in a tolerable error or in a
  well-formed state with \<open>Q\<close>, in the same scope and with the same expression stack, and has added only
  names of \<open>N\<close>.
\<close>

definition sp :: "name set \<Rightarrow> (sem \<Rightarrow> bool) \<Rightarrow> 'a sem_m \<Rightarrow> ('a \<Rightarrow> sem \<Rightarrow> bool) \<Rightarrow> bool" where
  "sp N P m Q \<longleftrightarrow> (\<forall>s. wf_sem s \<longrightarrow> P s \<longrightarrow>
     (case m s of
        Inl e \<Rightarrow> tolerable e
      | Inr (x, s') \<Rightarrow> step N s s' \<and> lkp_stack s' = lkp_stack s \<and> Q x s'))"

named_theorems sp_rules

lemma spI:
  assumes "\<And>s e. wf_sem s \<Longrightarrow> P s \<Longrightarrow> m s = Inl e \<Longrightarrow> tolerable e"
    and "\<And>s x s'. wf_sem s \<Longrightarrow> P s \<Longrightarrow> m s = Inr (x, s') \<Longrightarrow> step N s s' \<and> lkp_stack s' = lkp_stack s \<and> Q x s'"
  shows "sp N P m Q"
  using assms by (auto simp: sp_def split: sum.splits)

lemma spD:
  assumes "sp N P m Q" and "wf_sem s" and "P s"
  shows "case m s of Inl e \<Rightarrow> tolerable e
    | Inr (x, s') \<Rightarrow> step N s s' \<and> lkp_stack s' = lkp_stack s \<and> Q x s'"
  using assms by (auto simp: sp_def)

lemma sp_bind:
  assumes "sp N P m R" and "\<And>x. sp N (R x) (f x) Q"
  shows "sp N P (bindS m f) Q"
proof (rule spI)
  fix s e
  assume "wf_sem s" "P s" "bindS m f s = Inl e"
  then show "tolerable e"
    using spD [OF assms(1), of s] spD [OF assms(2)] step_wf by (fastforce simp: bindS_Inl split: sum.splits)
next
  fix s y s''
  assume wf_sem: "wf_sem s" and P: "P s" and "bindS m f s = Inr (y, s'')"
  then obtain x s' where m: "m s = Inr (x, s')" and f: "f x s' = Inr (y, s'')" by auto
  have 1: "step N s s' \<and> lkp_stack s' = lkp_stack s \<and> R x s'" using spD [OF assms(1) wf_sem P] m by simp
  then have "step N s' s'' \<and> lkp_stack s'' = lkp_stack s' \<and> Q y s''"
    using spD [OF assms(2), of s' x] f step_wf [of N s s'] by simp
  then show "step N s s'' \<and> lkp_stack s'' = lkp_stack s \<and> Q y s''" using 1 step_trans by auto
qed

lemma sp_conseq:
  "sp N P m Q \<Longrightarrow> (\<And>s. wf_sem s \<Longrightarrow> P' s \<Longrightarrow> P s) \<Longrightarrow> (\<And>x s. wf_sem s \<Longrightarrow> Q x s \<Longrightarrow> Q' x s) \<Longrightarrow> N \<subseteq> N' \<Longrightarrow> sp N' P' m Q'"
proof (rule spI)
  assume sp: "sp N P m Q" and P: "\<And>s. wf_sem s \<Longrightarrow> P' s \<Longrightarrow> P s" and Q: "\<And>x s. wf_sem s \<Longrightarrow> Q x s \<Longrightarrow> Q' x s" and N: "N \<subseteq> N'"
  fix s
  assume wf_sem: "wf_sem s" and P': "P' s"
  note c = spD [OF sp wf_sem P [OF wf_sem P']]
  show "tolerable e" if "m s = Inl e" for e using c that by simp
  show "step N' s s' \<and> lkp_stack s' = lkp_stack s \<and> Q' x s'" if "m s = Inr (x, s')" for x s'
    using c that N Q step_mono step_wf by auto
qed

lemma sp_ret: "(\<And>s. P s \<Longrightarrow> Q x s) \<Longrightarrow> sp N P (retS x) Q"
  by (simp add: sp_def retS_def)

lemma sp_fail: "tolerable e \<Longrightarrow> sp N P (failS e) Q"
  by (simp add: sp_def failS_def)

lemma sp_get: "(\<And>s. P s \<Longrightarrow> Q (f s) s) \<Longrightarrow> sp N P (getS f) Q"
  by (simp add: sp_def getS_def)

lemma sp_lift: "(\<And>e. r = Inl e \<Longrightarrow> tolerable e) \<Longrightarrow> (\<And>x s. r = Inr x \<Longrightarrow> P s \<Longrightarrow> Q x s) \<Longrightarrow> sp N P (liftE r) Q"
  by (cases r) (auto simp: sp_def liftE_def)

lemma sp_warn: "(\<And>s. P s \<Longrightarrow> P (s\<lparr>sem_warns := sem_warns s @ [(log_mod s, l, msg)]\<rparr>)) \<Longrightarrow> sp N P (warnS l msg) (\<lambda>_. P)"
  by (auto simp: sp_def warnS_def modS_def step_def wf_sem_def)

lemma sp_case: "(\<And>s. P s \<Longrightarrow> A) \<Longrightarrow> (A \<Longrightarrow> sp N P m Q) \<Longrightarrow> sp N P m Q"
  unfolding sp_def by blast

lemma sp_mapS:
  assumes "\<And>x. x \<in> set xs \<Longrightarrow> sp N P (f x) (\<lambda>y s. P s \<and> R y)"
  shows "sp N P (mapS f xs) (\<lambda>ys s. P s \<and> list_all R ys)"
  using assms
proof (induction xs)
  case Nil
  then show ?case by (auto intro: sp_ret)
next
  case (Cons x xs)
  have "sp N (\<lambda>s. P s \<and> R y) (mapS f xs) (\<lambda>ys s. P s \<and> list_all R ys \<and> R y)" for y
    using Cons by (cases "R y") (auto simp: sp_def split: sum.splits)
  then show ?case
    using Cons.prems by (auto intro!: sp_bind [where R = "\<lambda>y s. P s \<and> R y"] sp_bind [where R = "\<lambda>ys s. P s \<and> list_all R ys \<and> R _"] sp_ret)
qed

end
