(* ===== verification/Sem_Insert.thy ===== *)
theory Sem_Insert
  imports Sem_State
begin

section \<open>Contracts of the operations on scopes\<close>

text \<open>
  The contracts of type validation, of the insertion of symbols (with the checks for shadowing and
  colliding names that precede it) and of the scopes of functions and blocks.
\<close>

subsection \<open>Types\<close>

abbreviation any :: "'a \<Rightarrow> sem \<Rightarrow> bool" where "any \<equiv> \<lambda>_ _. True"

lemma sp_any: "sp N P m Q \<Longrightarrow> (\<And>s. wf_sem s \<Longrightarrow> P' s \<Longrightarrow> P s) \<Longrightarrow> sp N P' m any"
  by (erule sp_conseq) auto

lemma sp_seq: "sp N P m any \<Longrightarrow> (\<And>x. sp N (\<lambda>_. True) (f x) Q) \<Longrightarrow> sp N P (bindS m f) Q"
  by (rule sp_bind)

lemma sp_lookupTypeImpl: "sp N P (lookupTypeImpl l n) any"
proof (rule spI)
  fix s x s'
  assume wf: "wf_sem s" and ok: "lookupTypeImpl l n s = Inr (x, s')"
  obtain r strong t where r: "findScope (scopes s) (cur s) n = Some r"
    and d: "sym_data (get_symbol (scopes s) r) = TypeAliasSym strong t"
    and s': "s' = upd_symbol set_referenced r s"
    using ok by (auto simp: lookupTypeImpl_def split: option.splits symbol_data.splits)
  have "valid_ref (scopes s) r" using findScope_valid [OF r] wf by (simp add: wf_sem_def)
  then have "step {} s s'"
    unfolding s' by (rule step_upd_symbol [OF wf]) (simp_all add: set_referenced_def d kind_at_def)
  then show "step N s s' \<and> lkp_stack s' = lkp_stack s \<and> True"
    using step_mono by (auto simp: s' upd_symbol_def)
qed (auto simp: lookupTypeImpl_def split: option.splits symbol_data.splits)

lemma sp_lookupTypeName: "sp N P (lookupTypeName l n defn) any"
  by (auto simp: lookupTypeName_def intro: sp_ret sp_lookupTypeImpl split: option.splits)

lemma checkFields_tolerable: "checkFields names = Inl e \<Longrightarrow> tolerable e"
  by (auto simp: checkFields_def split: option.splits)

lemma sp_mapS_any: "(\<And>x. x \<in> set xs \<Longrightarrow> sp N (\<lambda>_. True) (f x) any) \<Longrightarrow> sp N P (mapS f xs) any"
  using sp_mapS [of xs N "\<lambda>_. True" f "\<lambda>_. True"] by (auto intro: sp_conseq)

lemma sp_validateType: "sp N P (validateType t) any"
proof (induction t arbitrary: P)
  case (FuncType l ps r)
  have "sp N P (case r of None \<Rightarrow> retS (RBtn Void) | Some t \<Rightarrow> validateType t) any" for P
    using FuncType.IH(2) by (auto intro: sp_ret split: option.splits)
  moreover have "sp N P (validateType t) any" if "(p, t) \<in> set ps" for p t P
    using FuncType.IH(1) [OF that] by simp
  ultimately show ?case
    by (auto intro!: sp_seq sp_ret sp_mapS_any)
next
  case (StructType l fs)
  have "sp N P (validateType t) any" if "(n, t, l') \<in> set fs" for n t l' P
    using StructType.IH [OF that] by simp
  then show ?case
    by (auto intro!: sp_seq sp_ret sp_mapS_any sp_lift checkFields_tolerable)
qed (auto intro!: sp_seq sp_ret sp_lookupTypeName split: prod.splits)

lemma sp_validateOpt: "sp N P (validateOpt t) any"
  by (auto simp: validateOpt_def intro!: sp_seq sp_ret sp_validateType split: option.splits)

lemma sp_validateParams: "sp N P (validateParams ps) any"
  by (auto simp: validateParams_def intro!: sp_seq sp_ret sp_validateType sp_mapS_any)

subsection \<open>Insertion\<close>

lemma sp_checkIdentShadow: "sp N P (checkIdentShadow n l) any"
proof (rule spI)
  fix s
  assume wf: "wf_sem s"
  have p: "\<exists>p. parent (scopes s ! cur s) = Some p \<and> p < length (scopes s)"
    using wf wf_parent_None [of "scopes s" "cur s"] wf_parent [of "scopes s" "cur s"]
    by (fastforce simp: wf_sem_def)
  have m: "moduleName (scopes s) i \<noteq> Inl e" if "findScope (scopes s) p n = Some (i, k)" "p < length (scopes s)" for p i k e
    using findScope_valid [OF that(1)] moduleName_no_error wf that by (simp add: wf_sem_def valid_ref_def)
  show "tolerable e" if "checkIdentShadow n l s = Inl e" for e
    using that p m by (auto simp: checkIdentShadow_def bindE_Inl_iff warnS_def modS_def split: option.splits)
  show "step N s s' \<and> lkp_stack s' = lkp_stack s \<and> True" if "checkIdentShadow n l s = Inr (x, s')" for x s'
    using that wf by (auto simp: checkIdentShadow_def warnS_def modS_def step_def wf_sem_def split: option.splits)
qed

lemma sp_addSymbol:
  assumes "entry_ok (n, sy)" and "\<And>s. wf_sem s \<Longrightarrow> P s \<Longrightarrow> cur s = c \<and> admits n (sym_data sy) s"
  shows "sp {n} P (addSymbol c n sy) (\<lambda>r s. valid_ref (scopes s) r \<and> get_symbol (scopes s) r = sy)"
proof (rule spI)
  fix s x s'
  assume "wf_sem s" "P s" "addSymbol c n sy s = Inr (x, s')"
  then show "step {n} s s' \<and> lkp_stack s' = lkp_stack s \<and> valid_ref (scopes s') x \<and> get_symbol (scopes s') x = sy"
    using step_addSymbol [of s n sy x s'] assms by auto
qed (simp add: addSymbol_def)

lemma sp_cur: "sp N P m any \<Longrightarrow> sp N (\<lambda>s. cur s = c \<and> P s) m (\<lambda>_ s. cur s = c)"
  unfolding sp_def by (fastforce split: sum.splits dest: step_cur)

lemma checkIdentShadow_scopes:
  "checkIdentShadow n l s = Inr (u, s') \<Longrightarrow> scopes s' = scopes s \<and> cur s' = cur s"
  by (auto simp: checkIdentShadow_def warnS_def modS_def split: option.splits)

lemma sp_shadow_add:
  assumes "entry_ok (n, sy)"
  shows "sp {n} (\<lambda>s. cur s = c \<and> admits n (sym_data sy) s) (bindS (checkIdentShadow n l) (\<lambda>_. addSymbol c n sy))
    (\<lambda>r s. valid_ref (scopes s) r \<and> get_symbol (scopes s) r = sy)"
proof -
  have "sp {n} (\<lambda>s. cur s = c \<and> admits n (sym_data sy) s) (checkIdentShadow n l)
      (\<lambda>_ s. cur s = c \<and> admits n (sym_data sy) s)"
  proof (rule spI)
    fix s
    assume wf: "wf_sem s" and P: "cur s = c \<and> admits n (sym_data sy) s"
    note c = spD [OF sp_checkIdentShadow [where P = "\<lambda>_. True" and n = n and l = l and N = "{n}"] wf TrueI]
    show "tolerable e" if "checkIdentShadow n l s = Inl e" for e using c that by simp
    show "step {n} s s' \<and> lkp_stack s' = lkp_stack s \<and> cur s' = c \<and> admits n (sym_data sy) s'"
      if "checkIdentShadow n l s = Inr (u, s')" for u s'
      using c P that checkIdentShadow_scopes [OF that] by (auto simp: admits_def split: if_splits)
  qed
  then show ?thesis by (rule sp_bind [OF _ sp_addSymbol [OF assms]])
qed

lemma admits_new: "find_pos n (table (scopes s ! cur s)) = None \<Longrightarrow> kind d \<noteq> 2 \<Longrightarrow> admits n d s"
  by (force simp: admits_def find_pos_None sig_def)

lemma sp_insert_symbol:
  assumes "entry_ok (n, sy)" and "kind (sym_data sy) \<noteq> 2"
  shows "sp {n} P (insert_symbol n sy) (\<lambda>r s. valid_ref (scopes s) r \<and> get_symbol (scopes s) r = sy)"
proof (rule spI)
  fix s
  assume wf: "wf_sem s"
  have err: "tolerable e" if "bindE (moduleName (scopes s) (cur s)) (\<lambda>m. Inl (Fatal l (g m))) = Inl e"
    for e l and g :: "string \<Rightarrow> string"
    using that moduleName_ok [of "scopes s" "cur s"] wf by (auto simp: wf_sem_def)
  have i: "find_pos n (table (scopes s ! cur s)) = None \<Longrightarrow>
    (case bindS (checkIdentShadow n (sym_loc sy)) (\<lambda>_. addSymbol (cur s) n sy) s of Inl e \<Rightarrow> tolerable e
     | Inr (x, s') \<Rightarrow> step {n} s s' \<and> lkp_stack s' = lkp_stack s \<and> valid_ref (scopes s') x \<and> get_symbol (scopes s') x = sy)"
    using spD [OF sp_shadow_add [OF assms(1)] wf] admits_new assms(2) by simp
  show "tolerable e" if "insert_symbol n sy s = Inl e" for e
    using that i err by (auto simp: insert_symbol_def split: option.splits)
  show "step {n} s s' \<and> lkp_stack s' = lkp_stack s \<and> valid_ref (scopes s') x \<and> get_symbol (scopes s') x = sy"
    if "insert_symbol n sy s = Inr (x, s')" for x s'
    using that i by (auto simp: insert_symbol_def split: option.splits)
qed

lemma sp_insert_object: "typed t \<Longrightarrow> sp {n} P (insert_object n l ext t) any"
  unfolding insert_object_def
  by (rule sp_seq [OF sp_get]) (auto intro: sp_any [OF sp_insert_symbol] simp: entry_ok_def entry_kind_def)

lemma sp_insert_alias: "sp {n} P (insert_alias n l strong t) any"
  unfolding insert_alias_def
  by (rule sp_seq [OF sp_get]) (auto intro: sp_any [OF sp_insert_symbol] simp: entry_ok_def entry_kind_def)

lemma sp_checkMethodCollide: "sp N P (checkMethodCollide n t l) any"
proof -
  have "sp N P (receiver_fields t) any" for P
    by (cases t) (auto simp: receiver_fields_def intro!: sp_seq sp_ret sp_lookupTypeName split: prod.splits)
  then show ?thesis
    by (auto simp: checkMethodCollide_def intro!: sp_seq sp_ret sp_fail)
qed

lemma foldE_tolerable:
  assumes "\<And>x u e. x \<in> set xs \<Longrightarrow> f x u = Inl e \<Longrightarrow> tolerable e" and "foldE f xs u = Inl e"
  shows "tolerable e"
  using assms by (induction xs arbitrary: u) (auto simp: bindE_Inl_iff)

lemma foldE_Inr_each: "foldE f xs u = Inr v \<Longrightarrow> x \<in> set xs \<Longrightarrow> \<exists>a b. f x a = Inr b"
  by (induction xs arbitrary: u) auto

text \<open>The symbols of a name in the current scope are functions.\<close>

definition only_funcs :: "name \<Rightarrow> sem \<Rightarrow> bool" where
  "only_funcs n s \<longleftrightarrow> (\<forall>k. (n, k) \<in> set (sig (scopes s) (cur s)) \<longrightarrow> k = 2)"

lemma in_sig_range:
  "(n, k) \<in> set (sig scs i) \<longleftrightarrow> (\<exists>p \<in> set (equal_range n (table (scs ! i))). kind_at scs (i, p) = k)"
proof -
  have "(n, k) \<in> set (sig scs i) \<longleftrightarrow> (\<exists>p < length (table (scs ! i)). sig scs i ! p = (n, k))"
    by (simp add: in_set_conv_nth)
  also have "\<dots> \<longleftrightarrow> (\<exists>p < length (table (scs ! i)). fst (table (scs ! i) ! p) = n \<and> kind_at scs (i, p) = k)"
    by (auto simp: sig_nth)
  finally show ?thesis by (auto simp: nth_mem_range Bex_def)
qed

lemma sp_checkFuncCollide: "sp N P (checkFuncCollide n l params) (\<lambda>_. only_funcs n)"
proof (rule spI)
  fix s
  assume wf: "wf_sem s"
  have m: "moduleName (scopes s) (cur s) \<noteq> Inl e" for e using wf moduleName_no_error by (simp add: wf_sem_def)
  show "tolerable e" if "checkFuncCollide n l params s = Inl e" for e
    using that unfolding checkFuncCollide_def bindE_Inl_iff
    by (auto elim!: foldE_tolerable [rotated] simp: Let_def m bindE_Inl_iff split: symbol_data.splits if_splits)
  show "step N s s' \<and> lkp_stack s' = lkp_stack s \<and> only_funcs n s'" if "checkFuncCollide n l params s = Inr (x, s')" for x s'
    using that wf unfolding checkFuncCollide_def
    by (auto simp: only_funcs_def in_sig_range kind_at_def Let_def dest!: foldE_Inr_each split: symbol_data.splits)
qed

lemma typed_convert [simp]: "typed (convert p)"
  by (simp add: typed_def convert_def)

definition func_at :: "sym_ref \<Rightarrow> bool \<Rightarrow> sem \<Rightarrow> bool" where
  "func_at r rec s \<longleftrightarrow> valid_ref (scopes s) r
     \<and> (\<exists>rt ps nd. sym_data (get_symbol (scopes s) r) = FuncSym rt ps nd \<and> fn_receiver nd = rec)"

definition in_module :: "sem \<Rightarrow> bool" where
  "in_module s \<longleftrightarrow> stype (scopes s ! cur s) = ns_scope"

text \<open>Facts that no step destroys.\<close>

definition stable :: "(sem \<Rightarrow> bool) \<Rightarrow> bool" where
  "stable I \<longleftrightarrow> (\<forall>N s s'. wf_sem s \<longrightarrow> I s \<longrightarrow> step N s s' \<longrightarrow> I s')"

definition ref_kind :: "sym_ref \<Rightarrow> nat \<Rightarrow> sem \<Rightarrow> bool" where
  "ref_kind r k s \<longleftrightarrow> valid_ref (scopes s) r \<and> kind_at (scopes s) r = k"

lemma stable_rules:
  "stable in_func" "stable (\<lambda>s. cur s = c)" "stable (ref_kind r k)" "stable (\<lambda>_. A)" "stable in_module"
  unfolding stable_def
proof -
  show "\<forall>N s s'. wf_sem s \<longrightarrow> in_func s \<longrightarrow> step N s s' \<longrightarrow> in_func s'" using step_in_func by blast
  show "\<forall>N s s'. wf_sem s \<longrightarrow> cur s = c \<longrightarrow> step N s s' \<longrightarrow> cur s' = c" using step_cur by blast
  show "\<forall>N s s'. wf_sem s \<longrightarrow> ref_kind r k s \<longrightarrow> step N s s' \<longrightarrow> ref_kind r k s'"
    unfolding ref_kind_def step_def using grows_ref by blast
  show "\<forall>N s s'. wf_sem s \<longrightarrow> in_module s \<longrightarrow> step N s s' \<longrightarrow> in_module s'"
    by (auto simp: in_module_def step_def grows_def wf_sem_def)
qed simp

lemma stable_conj: "stable I \<Longrightarrow> stable J \<Longrightarrow> stable (\<lambda>s. I s \<and> J s)"
  unfolding stable_def by blast

lemma sp_stable:
  assumes "sp N P m Q" and "stable I"
  shows "sp N (\<lambda>s. P s \<and> I s) m (\<lambda>x s. Q x s \<and> I s)"
proof (rule spI)
  fix s
  assume wf: "wf_sem s" and "P s \<and> I s"
  note c = spD [OF assms(1) wf, of] and I = assms(2) [unfolded stable_def, rule_format, OF wf]
  show "tolerable e" if "m s = Inl e" for e using c that \<open>P s \<and> I s\<close> by simp
  show "step N s s' \<and> lkp_stack s' = lkp_stack s \<and> Q x s' \<and> I s'" if "m s = Inr (x, s')" for x s'
    using c that \<open>P s \<and> I s\<close> I by auto
qed

lemma sp_keep: "sp N (\<lambda>_. True) m any \<Longrightarrow> stable I \<Longrightarrow> sp N I m (\<lambda>_. I)"
  using sp_stable [of N "\<lambda>_. True" m any I] by simp

lemma sp_add_func:
  assumes "n \<noteq> ''$lambda''" and "receiver \<noteq> None \<longrightarrow> typed rec"
  shows "sp {n} in_module
     (bindS (checkFuncCollide n l (rec # map convert ps)) (\<lambda>_.
     bindS (checkIdentShadow n l) (\<lambda>_.
     bindS (getS cur) (\<lambda>c.
       addSymbol c n
         \<lparr>sym_scope = None, sym_loc = l, referenced = external,
           sym_data = FuncSym (convertNullable rt) (rec # map convert ps)
             \<lparr>fn_ext = ext, fn_receiver = (receiver \<noteq> None), fn_params = ps, fn_ret = rt\<rparr>\<rparr>))))
     (\<lambda>r. func_at r (receiver \<noteq> None))" (is "sp _ _ (bindS ?collide (\<lambda>_. bindS ?shadow (\<lambda>_. bindS _ (\<lambda>c. addSymbol c n ?sy)))) _")
proof -
  have swap: "bindS ?shadow (\<lambda>_. bindS (getS cur) (\<lambda>c. addSymbol c n ?sy))
      = bindS (getS cur) (\<lambda>c. bindS ?shadow (\<lambda>_. addSymbol c n ?sy))"
  proof
    fix s
    show "bindS ?shadow (\<lambda>_. bindS (getS cur) (\<lambda>c. addSymbol c n ?sy)) s
        = bindS (getS cur) (\<lambda>c. bindS ?shadow (\<lambda>_. addSymbol c n ?sy)) s"
      by (cases "?shadow s") (auto simp: bindS_def getS_def dest: checkIdentShadow_scopes)
  qed
  have ok: "entry_ok (n, ?sy)" using assms by (auto simp: entry_ok_def entry_kind_def list_all_iff)
  have "sp {n} in_module ?collide (\<lambda>_ s. only_funcs n s \<and> in_module s)"
    using sp_stable [OF sp_checkFuncCollide stable_rules(5), of "{n}" "\<lambda>_. True"] by simp
  then show ?thesis
  proof (rule sp_bind, unfold swap)
    show "sp {n} (\<lambda>s. only_funcs n s \<and> in_module s) (bindS (getS cur) (\<lambda>c. bindS ?shadow (\<lambda>_. addSymbol c n ?sy)))
        (\<lambda>r. func_at r (receiver \<noteq> None))"
      by (rule sp_bind [OF sp_get [where Q = "\<lambda>c s. cur s = c \<and> admits n (sym_data ?sy) s"]
            sp_conseq [OF sp_shadow_add [OF ok]]])
        (auto simp: admits_def only_funcs_def in_module_def func_at_def)
  qed
qed

lemma sp_insertFunc:
  assumes "n \<noteq> ''$lambda''"
  shows "sp {n} in_module (insertFunc ext external receiver n params ret l) (\<lambda>r. func_at r (receiver \<noteq> None))"
proof -
  have "sp {n} (\<lambda>_. True) (case receiver of None \<Rightarrow> retS null_type
      | Some (r, t) \<Rightarrow> bindS (validateType t) (\<lambda>t. retS (convert (r, t)))) (\<lambda>rec _. receiver \<noteq> None \<longrightarrow> typed rec)"
    by (auto intro!: sp_seq sp_ret sp_validateType split: option.splits prod.splits)
  from sp_stable [OF this stable_rules(5)]
  have rec: "sp {n} in_module (case receiver of None \<Rightarrow> retS null_type
      | Some (r, t) \<Rightarrow> bindS (validateType t) (\<lambda>t. retS (convert (r, t))))
      (\<lambda>rec s. (receiver \<noteq> None \<longrightarrow> typed rec) \<and> in_module s)" by simp
  show ?thesis
    unfolding insertFunc_def
  proof (rule sp_bind [OF rec], rule sp_case)
    fix rec :: expr_type
    assume t: "receiver \<noteq> None \<longrightarrow> typed rec"
    show "sp {n} (\<lambda>s. (receiver \<noteq> None \<longrightarrow> typed rec) \<and> in_module s)
     (bindS (validateParams params) (\<lambda>ps.
     bindS (validateOpt ret) (\<lambda>rt.
     bindS (checkFuncCollide n l (rec # map convert ps)) (\<lambda>_.
     bindS (checkIdentShadow n l) (\<lambda>_.
     bindS (getS cur) (\<lambda>c.
       addSymbol c n
         \<lparr>sym_scope = None, sym_loc = l, referenced = external,
           sym_data = FuncSym (convertNullable rt) (rec # map convert ps)
             \<lparr>fn_ext = ext, fn_receiver = (receiver \<noteq> None), fn_params = ps, fn_ret = rt\<rparr>\<rparr>))))))
     (\<lambda>r. func_at r (receiver \<noteq> None))"
      by (rule sp_conseq [OF sp_bind [OF sp_keep [OF sp_validateParams stable_rules(5)]
              sp_bind [OF sp_keep [OF sp_validateOpt stable_rules(5)] sp_add_func [OF assms t]]]])
        auto
  qed simp
qed

text \<open>
  A function may only be declared in a module scope; there its name must not be that of the lambdas,
  which no identifier of a source has.
\<close>

definition may_declare :: "name \<Rightarrow> sem \<Rightarrow> bool" where
  "may_declare n s \<longleftrightarrow> n \<noteq> ''$lambda'' \<or> \<not> in_module s"

lemma sp_module_only:
  assumes "n \<noteq> ''$lambda'' \<Longrightarrow> sp N in_module m Q" and "tolerable e"
  shows "sp N (may_declare n) (bindS (getS (\<lambda>s. stype (scopes s ! cur s))) (\<lambda>ty.
    if ty \<noteq> ns_scope then failS e else m)) Q"
proof (rule sp_bind [OF sp_get])
  show "may_declare n s \<Longrightarrow> may_declare n s \<and> (in_module s \<longleftrightarrow> stype (scopes s ! cur s) = ns_scope)" for s
    by (simp add: in_module_def)
  show "sp N (\<lambda>s. may_declare n s \<and> (in_module s \<longleftrightarrow> ty = ns_scope)) (if ty \<noteq> ns_scope then failS e else m) Q" for ty
    using assms unfolding sp_def may_declare_def by (auto simp: failS_def)
qed

lemma sp_insert_func:
  "sp {n} (may_declare n) (insert_func external receiver n params ret l) (\<lambda>r. func_at r (receiver \<noteq> None))"
  unfolding insert_func_def
proof (rule sp_module_only)
  assume n: "n \<noteq> ''$lambda''"
  have 1: "sp {n} in_module (case receiver of None \<Rightarrow> retS () | Some p \<Rightarrow> checkMethodCollide n (param_type p) l) (\<lambda>_. in_module)"
    by (cases receiver) (auto intro: sp_ret sp_keep [OF sp_checkMethodCollide stable_rules(5)])
  have 2: "sp {n} in_module (insertFunc False external (map_option param_pair receiver) n ps ret l)
      (\<lambda>r. func_at r (receiver \<noteq> None))" for ps
    using sp_insertFunc [OF n, of False external "map_option param_pair receiver" ps ret l] by simp
  show "sp {n} in_module (bindS (case receiver of None \<Rightarrow> retS () | Some p \<Rightarrow> checkMethodCollide n (param_type p) l)
     (\<lambda>_. insertFunc False external (map_option param_pair receiver) n (map param_pair params) ret l))
     (\<lambda>r. func_at r (receiver \<noteq> None))"
    by (rule sp_bind [OF 1 2])
qed simp

lemma sp_insert_ext_func: "sp {n} (may_declare n) (insert_ext_func receiver n params ret) any"
  unfolding insert_ext_func_def
proof (rule sp_module_only)
  assume n: "n \<noteq> ''$lambda''"
  have 1: "sp {n} in_module (case receiver of None \<Rightarrow> retS () | Some (_, t) \<Rightarrow> checkMethodCollide n t no_loc) (\<lambda>_. in_module)"
    by (cases receiver) (auto intro: sp_ret sp_keep [OF sp_checkMethodCollide stable_rules(5)])
  show "sp {n} in_module (bindS (case receiver of None \<Rightarrow> retS () | Some (_, t) \<Rightarrow> checkMethodCollide n t no_loc)
     (\<lambda>_. insertFunc True False receiver n params (Some ret) no_loc)) any"
    by (rule sp_bind [OF 1 sp_any [OF sp_insertFunc [OF n]]]) auto
qed simp

subsection \<open>Scopes around a step\<close>

lemma pushed_stack [simp]: "lkp_stack (pushed s ty sy m) = lkp_stack s"
  by (simp add: pushed_def)

lemma bindE_unit: "bindE r (\<lambda>(u, s). Inr ((), s)) = r" for r :: "(unit \<times> 's) res"
  by (cases r) auto

lemma sp_scoped:
  assumes mid: "\<And>i. sp M (\<lambda>s. P' s \<and> cur s = i) (mid i) (\<lambda>x _. R x)"
    and sym: "\<And>s. wf_sem s \<Longrightarrow> P s \<Longrightarrow> sym_for ty (scopes s) sy"
    and P': "\<And>s. wf_sem s \<Longrightarrow> P s \<Longrightarrow> P' (pushed s ty sy [])"
  shows "sp N P (\<lambda>s. bindS (mid (length (scopes s))) (\<lambda>x. bindS leaveScope (\<lambda>_. retS x)) (pushed s ty sy []))
    (\<lambda>x _. R x)"
proof (rule spI)
  fix s
  let ?p = "pushed s ty sy []" and ?m = "mid (length (scopes s))"
  assume wf: "wf_sem s" and P: "P s"
  have "wf_sem ?p" using wf_pushed sym [OF wf P] wf by (simp add: wf_sem_def)
  moreover have "cur ?p = length (scopes s)" by (simp add: pushed_def)
  ultimately have c: "case ?m ?p of Inl e \<Rightarrow> tolerable e
      | Inr (x, s') \<Rightarrow> step M ?p s' \<and> lkp_stack s' = lkp_stack s \<and> R x"
    using spD [OF mid [of "length (scopes s)"], of ?p] P' [OF wf P] by (auto split: sum.splits)
  show "tolerable e" if "bindS ?m (\<lambda>x. bindS leaveScope (\<lambda>_. retS x)) ?p = Inl e" for e
    using that c leave_pushed [OF wf] by (fastforce simp: bindS_Inl)
  show "step N s s' \<and> lkp_stack s' = lkp_stack s \<and> R x"
    if run: "bindS ?m (\<lambda>x. bindS leaveScope (\<lambda>_. retS x)) ?p = Inr (x, s')" for x s'
  proof -
    obtain t where t: "?m ?p = Inr (x, t)" and l: "leaveScope t = Inr ((), s')" using run by auto
    then have st: "step M ?p t" and R: "lkp_stack t = lkp_stack s" "R x" using c by auto
    have "s' = t\<lparr>cur := cur s\<rparr>" "step {} s s'" using leave_pushed [OF wf st] l by auto
    then show ?thesis using R step_mono [of "{}" s s' N] by simp
  qed
qed

lemma sp_inScope:
  assumes "sp M in_func m any" and "ty \<notin> {func_scope, closure_scope, ns_scope}"
  shows "sp N in_func (inScope ty m) any"
proof -
  have "sp N in_func (\<lambda>s. bindS m (\<lambda>x. bindS leaveScope (\<lambda>_. retS x)) (pushed s ty None [])) any"
    by (rule sp_scoped [where R = "\<lambda>_. True" and mid = "\<lambda>_. m" and P' = in_func and M = M])
      (use assms in \<open>auto simp: sym_for_def in_func_pushed intro: sp_any\<close>)
  moreover have "inScope ty m s = bindS m (\<lambda>x. bindS leaveScope (\<lambda>_. retS x)) (pushed s ty None [])" for s
    by (simp add: inScope_def bindS_def enter_simps retS_def bindE_unit)
  ultimately show ?thesis by (simp add: sp_def)
qed

lemma sp_upd_symbol:
  assumes "\<And>s. wf_sem s \<Longrightarrow> P s \<Longrightarrow> valid_ref (scopes s) r
      \<and> kind (sym_data (f (get_symbol (scopes s) r))) = kind_at (scopes s) r
      \<and> data_ok (sym_data (f (get_symbol (scopes s) r)))"
  shows "sp N P (modS (upd_symbol f r)) any"
proof (rule spI)
  fix s x s'
  assume "wf_sem s" "P s" "modS (upd_symbol f r) s = Inr (x, s')"
  then show "step N s s' \<and> lkp_stack s' = lkp_stack s \<and> True"
    using step_upd_symbol [of s r f] assms step_mono [of "{}" s s' N] by (auto simp: upd_symbol_def modS_def)
qed (simp add: modS_def)

lemma get_upd_symbol: "valid_ref (scopes s) r \<Longrightarrow> get_symbol (scopes (upd_symbol f r s)) r = f (get_symbol (scopes s) r)"
  by (simp add: get_symbol_def upd_symbol_def valid_ref_def)

lemma get_pushed: "valid_ref (scopes s) r \<Longrightarrow> get_symbol (scopes (pushed s ty sy m)) r = get_symbol (scopes s) r"
  by (simp add: get_symbol_def pushed_def valid_ref_def nth_append)

lemma func_at_pushed: "func_at r rec s \<Longrightarrow> func_at r rec (pushed s ty sy m)"
  using grows_ref [OF grows_pushed [of 0 s ty sy m], of r] by (auto simp: func_at_def get_pushed)

lemma sp_set_scope:
  "sp N (func_at r rec) (set_scope r i) (\<lambda>_. func_at r rec)"
proof (rule spI)
  fix s x s'
  assume wf: "wf_sem s" and f: "func_at r rec s" and s': "set_scope r i s = Inr (x, s')"
  have v: "valid_ref (scopes s) r" using f by (simp add: func_at_def)
  have "step {} s s'"
    using step_upd_symbol [OF wf v, of "\<lambda>sy. sy\<lparr>sym_scope := Some i\<rparr>"] s' wf_data [OF _ v] wf
    by (auto simp: set_scope_def modS_def kind_at_def wf_sem_def)
  moreover have "func_at r rec s'"
    using s' f v grows_ref [of "{}" "cur s" "scopes s" "scopes s'" r] \<open>step {} s s'\<close>
    by (auto simp: func_at_def set_scope_def modS_def get_upd_symbol step_def)
  ultimately show "step N s s' \<and> lkp_stack s' = lkp_stack s \<and> func_at r rec s'"
    using s' step_mono [of "{}" s s' N] by (auto simp: set_scope_def modS_def upd_symbol_def)
qed (simp add: set_scope_def modS_def)

text \<open>The scope \<open>i\<close> of a function or a lambda is current.\<close>

definition body_scope :: "nat \<Rightarrow> sem \<Rightarrow> bool" where
  "body_scope i s \<longleftrightarrow> cur s = i \<and> \<not> in_module s"

lemma stable_body_scope: "stable (body_scope i)"
  by (auto simp: stable_def body_scope_def in_module_def step_def grows_def wf_sem_def)

lemma in_func_body: "in_func s \<Longrightarrow> cur s = i \<Longrightarrow> body_scope i s"
  by (simp add: in_func_def body_scope_def in_module_def)

lemma body_admits: "wf_sem s \<Longrightarrow> body_scope i s \<Longrightarrow> kind d \<noteq> 2 \<Longrightarrow> admits n d s"
  using wf_table [of "scopes s" "cur s"]
  by (force simp: body_scope_def in_module_def admits_def table_ok_def wf_sem_def)

lemma sp_addParam: "typed (snd p) \<Longrightarrow> sp UNIV (body_scope i) (addParam i p) (\<lambda>_. body_scope i)"
  unfolding addParam_def
  by (rule sp_conseq [OF sp_stable [OF sp_bind [OF sp_addSymbol [where P = "body_scope i"] sp_ret [where Q = any]]
        stable_body_scope [of i]]]) (auto simp: entry_ok_def entry_kind_def body_admits, simp add: body_scope_def)

lemma sp_addParams:
  "list_all typed ts \<Longrightarrow> sp UNIV (body_scope i) (mapS (addParam i) (zip params ts)) (\<lambda>_. body_scope i)"
proof -
  assume ts: "list_all typed ts"
  have "sp UNIV (body_scope i) (addParam i p) (\<lambda>y s. body_scope i s \<and> True)" if "p \<in> set (zip params ts)" for p
    using sp_addParam [of p i] that ts set_zip_rightD [of "fst p" "snd p" params ts] by (simp add: list_all_iff)
  from sp_mapS [where R = "\<lambda>_. True", OF this] show ?thesis by (rule sp_conseq) auto
qed

lemma sp_enterFuncScope:
  "sp UNIV (\<lambda>s. func_at r (receiver \<noteq> None) s \<and> body_scope i s) (enterFuncScope r i receiver params) any"
proof -
  have "sp UNIV (\<lambda>s. func_at r (receiver \<noteq> None) s \<and> body_scope i s)
      (getS (\<lambda>s. func_params (sym_data (get_symbol (scopes s) r))))
      (\<lambda>ps s. body_scope i s \<and> list_all typed (tl ps) \<and> (receiver \<noteq> None \<longrightarrow> typed (hd ps)))"
    by (rule spI) (auto simp: func_at_def func_params_def dest!: wf_data [rotated] simp: wf_sem_def)
  then show ?thesis
    unfolding enterFuncScope_def
  proof (rule sp_bind)
    fix ps
    show "sp UNIV (\<lambda>s. body_scope i s \<and> list_all typed (tl ps) \<and> (receiver \<noteq> None \<longrightarrow> typed (hd ps)))
      (bindS (mapS (addParam i) (zip params (tl ps))) (\<lambda>_.
         case receiver of None \<Rightarrow> retS () | Some p \<Rightarrow> addParam i (p, hd ps))) any"
    proof (rule sp_case)
      assume t: "list_all typed (tl ps) \<and> (receiver \<noteq> None \<longrightarrow> typed (hd ps))"
      have "sp UNIV (body_scope i) (bindS (mapS (addParam i) (zip params (tl ps))) (\<lambda>_.
         case receiver of None \<Rightarrow> retS () | Some p \<Rightarrow> addParam i (p, hd ps))) any"
        by (rule sp_bind [OF sp_addParams]) (use t in \<open>auto intro: sp_ret sp_any [OF sp_addParam] split: option.splits\<close>)
      then show ?thesis by (rule sp_conseq) auto
    qed simp
  qed
qed

lemma set_ret_simps [simp]:
  "kind (set_ret t d) = kind d" "data_ok (set_ret t d) = data_ok d"
  "kind (set_node_ret t d) = kind d" "data_ok (set_node_ret t d) = data_ok d"
  by (cases d; simp)+

lemma sp_upd_data:
  assumes "\<And>d. kind (f d) = kind d" and "\<And>d. data_ok d \<Longrightarrow> data_ok (f d)" and "\<And>s. P s \<Longrightarrow> valid_ref (scopes s) r"
  shows "sp N P (upd_data f r) any"
  unfolding upd_data_def
  by (rule sp_upd_symbol) (use assms wf_data in \<open>auto simp: kind_at_def wf_sem_def\<close>)

lemma sp_leaveFuncScope: "sp N (\<lambda>s. valid_ref (scopes s) r) (leaveFuncScope r) any"
  unfolding leaveFuncScope_def
proof (rule sp_bind [OF sp_get [where Q = "\<lambda>_ s. valid_ref (scopes s) r"]])
  fix rt :: "rty option"
  show "sp N (\<lambda>s. valid_ref (scopes s) r)
    (let t = case rt of None \<Rightarrow> RBtn Void | Some t \<Rightarrow> t
     in bindS (upd_data (\<lambda>d. set_node_ret t (set_ret t d)) r) (\<lambda>_. retS t)) any"
    unfolding Let_def by (rule sp_seq [OF sp_upd_data]) (auto intro: sp_ret)
qed simp

lemma missing_return_tolerable:
  "visit_stat st f = Inl e \<Longrightarrow> tolerable e"
  "visit_nodes nodes ml bt f = Inl e \<Longrightarrow> tolerable e"
  "visit_cases cs k f = Inl e \<Longrightarrow> tolerable e"
  by (induction st f and nodes ml bt f and cs k f rule: visit_stat_visit_nodes_visit_cases.induct)
    (auto simp: bindE_Inl_iff Let_def unreachable_error_def may_continue_error_def split: if_splits)

lemma checkMissingRet_tolerable: "checkMissingRet rv l bl nodes = Inl e \<Longrightarrow> tolerable e"
  by (auto simp: checkMissingRet_def bindE_Inl_iff Let_def dest: missing_return_tolerable split: if_splits)

lemma bindS_assoc: "bindS (bindS m f) g = bindS m (\<lambda>x. bindS (f x) g)"
proof
  fix s
  show "bindS (bindS m f) g s = bindS m (\<lambda>x. bindS (f x) g) s"
    by (cases "m s") (auto simp: bindS_def)
qed

lemma sp_in_symbol_scope:
  assumes mid: "\<And>i. sp M (\<lambda>s. P' s \<and> cur s = i) (mid i) (\<lambda>x _. R x)"
    and sym: "\<And>s. wf_sem s \<Longrightarrow> P s \<Longrightarrow> sym_for ty (scopes s) (Some r)"
    and P': "\<And>s. wf_sem s \<Longrightarrow> P s \<Longrightarrow> P' (pushed s ty (Some r) [])"
    and k: "\<And>x. R x \<Longrightarrow> sp N (\<lambda>_. True) (k x) Q"
  shows "sp N P (bindS (enterScope_sym ty r) (\<lambda>i. bindS (mid i) (\<lambda>x. bindS leaveScope (\<lambda>_. k x)))) Q"
proof -
  let ?m = "\<lambda>s. bindS (mid (length (scopes s))) (\<lambda>x. bindS leaveScope (\<lambda>_. retS x)) (pushed s ty (Some r) [])"
  have "bindS (enterScope_sym ty r) (\<lambda>i. bindS (mid i) (\<lambda>x. bindS leaveScope (\<lambda>_. k x))) s = bindS ?m k s" for s
    by (cases "mid (length (scopes s)) (pushed s ty (Some r) [])")
      (auto simp: bindS_def enter_simps retS_def bindE_assoc case_prod_unfold)
  moreover have "sp N P (bindS ?m k) Q"
  proof (rule sp_bind [OF sp_scoped [OF mid sym P']])
    show "sp N (\<lambda>_. R x) (k x) Q" for x by (rule sp_case [OF _ sp_conseq [OF k]]) auto
  qed
  ultimately show ?thesis by (simp add: sp_def)
qed

lemma valid_ref_func_at: "func_at r rec s \<Longrightarrow> ref_kind r 2 s"
  by (auto simp: func_at_def ref_kind_def kind_at_def)

lemma sp_checkMissingRet: "sp N P (bindS (liftE (checkMissingRet rv l bl body)) (\<lambda>_. retS ())) any"
  by (rule sp_seq [OF sp_lift]) (auto intro: sp_ret checkMissingRet_tolerable)

lemma sp_travFunc:
  assumes "sp UNIV in_func visit any"
  shows "sp {n} (may_declare n) (travFunc l external receiver n params ret bl body visit) any"
proof -
  let ?F = "\<lambda>r. func_at r (receiver \<noteq> None)"
  let ?mid = "\<lambda>r i. bindS (set_scope r i) (\<lambda>_. bindS (enterFuncScope r i receiver params) (\<lambda>_.
    bindS visit (\<lambda>_. leaveFuncScope r)))"
  have mid: "sp UNIV (\<lambda>s. (?F r s \<and> in_func s) \<and> cur s = i) (?mid r i) (\<lambda>_ _. True)" for r i
  proof -
    have 1: "sp UNIV (\<lambda>s. (?F r s \<and> in_func s) \<and> cur s = i) (set_scope r i) (\<lambda>_ s. ?F r s \<and> in_func s \<and> cur s = i)"
      using sp_stable [OF sp_set_scope stable_conj [OF stable_rules(1) stable_rules(2)], of UNIV r "receiver \<noteq> None" i i]
      by (simp add: conj_assoc)
    have 2: "sp UNIV (\<lambda>s. ?F r s \<and> in_func s \<and> cur s = i) (enterFuncScope r i receiver params)
        (\<lambda>_ s. in_func s \<and> ref_kind r 2 s)"
      by (rule sp_conseq [OF sp_stable [OF sp_enterFuncScope stable_conj [OF stable_rules(1) stable_rules(3)]]])
        (auto dest: valid_ref_func_at in_func_body)
    have 3: "sp UNIV (\<lambda>s. in_func s \<and> ref_kind r 2 s) visit (\<lambda>_ s. valid_ref (scopes s) r)"
      by (rule sp_conseq [OF sp_stable [OF assms stable_rules(3)]]) (auto simp: ref_kind_def)
    show ?thesis
      by (rule sp_bind [OF 1], rule sp_bind [OF 2], rule sp_bind [OF 3], rule sp_leaveFuncScope)
  qed
  have "sp {n} (?F r) (bindS (enterScope_sym func_scope r) (\<lambda>i. bindS (?mid r i) (\<lambda>t. bindS leaveScope (\<lambda>_.
      bindS (liftE (checkMissingRet (is_void (Some t)) l bl body)) (\<lambda>_. retS ()))))) any" for r
    by (rule sp_in_symbol_scope [OF mid])
      (use valid_ref_func_at in \<open>auto simp: sym_for_def in_func_pushed func_at_pushed ref_kind_def intro: sp_checkMissingRet\<close>)
  then have "sp {n} (may_declare n) (bindS (insert_func external receiver n params ret l) (\<lambda>r.
      bindS (enterScope_sym func_scope r) (\<lambda>i. bindS (?mid r i) (\<lambda>t. bindS leaveScope (\<lambda>_.
      bindS (liftE (checkMissingRet (is_void (Some t)) l bl body)) (\<lambda>_. retS ())))))) any"
    by (rule sp_bind [OF sp_insert_func])
  then show ?thesis by (simp add: travFunc_def bindS_assoc)
qed

end
