(* ===== verification/Sem_Visit.thy ===== *)
theory Sem_Visit
  imports Sem_Insert
begin

section \<open>Visiting expressions\<close>

text \<open>
  The contracts of the steps that work on the expression stack, up to \<^verbatim>\<open>lookupFunc\<close>, \<^verbatim>\<open>lookupMember\<close> and
  \<^verbatim>\<open>lookupIdent\<close>: none of their assertions fails, given what a visit leaves on the stack.
\<close>

subsection \<open>Contracts with a changing stack\<close>

text \<open>Like \<^const>\<open>sp\<close>, but the expression stack may change.\<close>

definition ce :: "name set \<Rightarrow> (sem \<Rightarrow> bool) \<Rightarrow> 'a sem_m \<Rightarrow> ('a \<Rightarrow> sem \<Rightarrow> bool) \<Rightarrow> bool" where
  "ce N P m Q \<longleftrightarrow> (\<forall>s. wf_sem s \<longrightarrow> P s \<longrightarrow>
     (case m s of Inl e \<Rightarrow> tolerable e | Inr (x, s') \<Rightarrow> step N s s' \<and> Q x s'))"

lemma ceI:
  assumes "\<And>s e. wf_sem s \<Longrightarrow> P s \<Longrightarrow> m s = Inl e \<Longrightarrow> tolerable e"
    and "\<And>s x s'. wf_sem s \<Longrightarrow> P s \<Longrightarrow> m s = Inr (x, s') \<Longrightarrow> step N s s' \<and> Q x s'"
  shows "ce N P m Q"
  using assms by (auto simp: ce_def split: sum.splits)

lemma ceD:
  assumes "ce N P m Q" and "wf_sem s" and "P s"
  shows "case m s of Inl e \<Rightarrow> tolerable e | Inr (x, s') \<Rightarrow> step N s s' \<and> Q x s'"
  using assms by (auto simp: ce_def)

lemma ce_bind:
  assumes "ce N P m R" and "\<And>x. ce N (R x) (f x) Q"
  shows "ce N P (bindS m f) Q"
proof (rule ceI)
  fix s e
  assume "wf_sem s" "P s" "bindS m f s = Inl e"
  then show "tolerable e"
    using ceD [OF assms(1), of s] ceD [OF assms(2)] step_wf by (fastforce simp: bindS_Inl split: sum.splits)
next
  fix s y s''
  assume wf: "wf_sem s" and P: "P s" and "bindS m f s = Inr (y, s'')"
  then obtain x s' where m: "m s = Inr (x, s')" and f: "f x s' = Inr (y, s'')" by auto
  have 1: "step N s s' \<and> R x s'" using ceD [OF assms(1) wf P] m by simp
  then have "step N s' s'' \<and> Q y s''" using ceD [OF assms(2), of s' x] f step_wf [of N s s'] by simp
  then show "step N s s'' \<and> Q y s''" using 1 step_trans by blast
qed

lemma ce_conseq:
  assumes "ce N P m Q" and "\<And>s. wf_sem s \<Longrightarrow> P' s \<Longrightarrow> P s" and "\<And>x s. wf_sem s \<Longrightarrow> Q x s \<Longrightarrow> Q' x s"
    and "N \<subseteq> N'"
  shows "ce N' P' m Q'"
proof (rule ceI)
  fix s
  assume wf: "wf_sem s" and P': "P' s"
  note c = ceD [OF assms(1) wf assms(2) [OF wf P']]
  show "tolerable e" if "m s = Inl e" for e using c that by simp
  show "step N' s s' \<and> Q' x s'" if "m s = Inr (x, s')" for x s'
    using c that assms(3,4) step_mono step_wf by auto
qed

lemma ce_ret: "(\<And>s. P s \<Longrightarrow> Q x s) \<Longrightarrow> ce N P (retS x) Q"
  by (simp add: ce_def retS_def)

lemma ce_fail: "tolerable e \<Longrightarrow> ce N P (failS e) Q"
  by (simp add: ce_def failS_def)

lemma ce_get: "(\<And>s. wf_sem s \<Longrightarrow> P s \<Longrightarrow> Q (f s) s) \<Longrightarrow> ce N P (getS f) Q"
  by (simp add: ce_def getS_def)

lemma ce_lift:
  "(\<And>e. r = Inl e \<Longrightarrow> tolerable e) \<Longrightarrow> (\<And>x s. r = Inr x \<Longrightarrow> P s \<Longrightarrow> Q x s) \<Longrightarrow> ce N P (liftE r) Q"
  by (cases r) (auto simp: ce_def liftE_def)

lemma ce_case: "(\<And>s. P s \<Longrightarrow> A) \<Longrightarrow> (A \<Longrightarrow> ce N P m Q) \<Longrightarrow> ce N P m Q"
  unfolding ce_def by blast

lemma ce_if: "(b \<Longrightarrow> ce N P m Q) \<Longrightarrow> (\<not> b \<Longrightarrow> ce N P m' Q) \<Longrightarrow> ce N P (if b then m else m') Q"
  by simp

lemma sp_ce:
  assumes "sp N P m Q"
  shows "ce N (\<lambda>s. P s \<and> R (lkp_stack s)) m (\<lambda>x s. Q x s \<and> R (lkp_stack s))"
proof (rule ceI)
  fix s
  assume "wf_sem s" "P s \<and> R (lkp_stack s)"
  then show "m s = Inl e \<Longrightarrow> tolerable e" "m s = Inr (x, s') \<Longrightarrow> step N s s' \<and> Q x s' \<and> R (lkp_stack s')" for e x s'
    using spD [OF assms, of s] by auto
qed

lemma ce_stable:
  assumes "ce N P m Q" and "stable I"
  shows "ce N (\<lambda>s. P s \<and> I s) m (\<lambda>x s. Q x s \<and> I s)"
proof (rule ceI)
  fix s
  assume wf: "wf_sem s" and P: "P s \<and> I s"
  then show "m s = Inl e \<Longrightarrow> tolerable e" for e using ceD [OF assms(1), of s] by auto
  show "m s = Inr (x, s') \<Longrightarrow> step N s s' \<and> Q x s' \<and> I s'" for x s'
    using ceD [OF assms(1) wf] P assms(2) [unfolded stable_def, rule_format, OF wf] by auto
qed

text \<open>A step that leaves the scopes alone.\<close>

lemma step_same: "wf_sem s \<Longrightarrow> scopes s' = scopes s \<Longrightarrow> cur s' = cur s \<Longrightarrow> step N s s'" for s s' :: sem
  by (simp add: step_def wf_sem_def)

lemma ce_mod:
  assumes "\<And>s. P s \<Longrightarrow> scopes (f s) = scopes s \<and> cur (f s) = cur s \<and> Q () (f s)"
  shows "ce N P (modS f) Q"
  using assms by (auto simp: ce_def modS_def intro: step_same)

lemma ce_stackS: "(\<And>s. P s \<Longrightarrow> Q () (s\<lparr>lkp_stack := f (lkp_stack s)\<rparr>)) \<Longrightarrow> ce N P (stackS f) Q"
  unfolding stackS_def by (rule ce_mod) auto

lemma step_stack [simp]: "wf_sem s \<Longrightarrow> step N s (s\<lparr>lkp_stack := st\<rparr>)"
  by (rule step_same) auto

lemma ce_stackE:
  assumes "\<And>s. P s \<Longrightarrow> \<exists>st. f (lkp_stack s) = Inr st \<and> Q () (s\<lparr>lkp_stack := st\<rparr>)"
  shows "ce N P (stackE f) Q"
  unfolding ce_def
proof (intro allI impI)
  fix s
  assume "wf_sem s" "P s"
  then show "case stackE f s of Inl e \<Rightarrow> tolerable e | Inr (x, s') \<Rightarrow> step N s s' \<and> Q x s'"
    using assms [of s] by (auto simp: stackE_def)
qed

lemma ce_stackP:
  assumes "\<And>s. P s \<Longrightarrow> \<exists>x st. f (lkp_stack s) = Inr (x, st) \<and> Q x (s\<lparr>lkp_stack := st\<rparr>)"
  shows "ce N P (stackP f) Q"
  unfolding ce_def
proof (intro allI impI)
  fix s
  assume "wf_sem s" "P s"
  then show "case stackP f s of Inl e \<Rightarrow> tolerable e | Inr (x, s') \<Rightarrow> step N s s' \<and> Q x s'"
    using assms [of s] by (auto simp: stackP_def)
qed

lemma ce_stackR:
  assumes "\<And>s. P s \<Longrightarrow> \<exists>x. f (lkp_stack s) = Inr x \<and> Q x s"
  shows "ce N P (stackR f) Q"
  unfolding ce_def
proof (intro allI impI)
  fix s
  assume "wf_sem s" "P s"
  then show "case stackR f s of Inl e \<Rightarrow> tolerable e | Inr (x, s') \<Rightarrow> step N s s' \<and> Q x s'"
    using assms [of s] by (auto simp: stackR_def)
qed

subsection \<open>What a visit leaves on the stack\<close>

definition on :: "(ExprKind \<times> name) list \<Rightarrow> sem \<Rightarrow> bool" where
  "on es s \<longleftrightarrow> exprs (lkp_stack s) = es"

definition top_typed :: "(ExprKind \<times> name) list \<Rightarrow> sem \<Rightarrow> bool" where
  "top_typed es s \<longleftrightarrow> exprs (lkp_stack s) = (K_expr, []) # es \<and> typed (exprType (lkp_stack s))"

definition finds_btn :: "name \<Rightarrow> sem \<Rightarrow> bool" where
  "finds_btn n s \<longleftrightarrow> (\<exists>r. findScope (scopes s) (cur s) n = Some r \<and> kind_at (scopes s) r = 4)"

text \<open>
  A visit pushes an expression of a known type; under a call it may instead push the name of a function,
  the name of a builtin function, or leave the receiver of a method with the name of the method.
\<close>

definition visited :: "ExprKind \<Rightarrow> (ExprKind \<times> name) list \<Rightarrow> sem \<Rightarrow> bool" where
  "visited k es s \<longleftrightarrow> top_typed es s
     \<or> (k = K_call \<and> (\<exists>n. on ((K_func, n) # es) s \<or> (on ((K_btn_func, n) # es) s \<and> finds_btn n s)
          \<or> top_typed ((K_member, n) # es) s))"

text \<open>Names of the scope stay bound to the same kind of symbol while lambdas are added.\<close>

abbreviation lambdas :: "name set" where "lambdas \<equiv> {''$lambda''}"

lemma find_pos_append:
  assumes "map fst tbl' = map fst tbl @ new" and "n \<notin> set new"
  shows "find_pos n tbl' = find_pos n tbl"
proof -
  have len: "length tbl' = length tbl + length new" using assms(1) by (metis length_append length_map)
  have nth: "fst (tbl' ! k) = (map fst tbl @ new) ! k" if "k < length tbl'" for k
    using assms(1) that by (metis nth_map)
  have split: "[0..<length tbl'] = [0..<length tbl] @ [length tbl..<length tbl']"
    unfolding len by (rule upt_add_eq_append) simp
  have "equal_range n tbl' = filter (\<lambda>k. (map fst tbl @ new) ! k = n) [0..<length tbl']"
    unfolding equal_range_def by (rule filter_cong) (auto simp: nth)
  also have "\<dots> = filter (\<lambda>k. (map fst tbl @ new) ! k = n) [0..<length tbl]
      @ filter (\<lambda>k. (map fst tbl @ new) ! k = n) [length tbl..<length tbl']"
    by (simp only: split filter_append)
  also have "filter (\<lambda>k. (map fst tbl @ new) ! k = n) [length tbl..<length tbl'] = []"
    using assms(2) by (auto simp: filter_empty_conv nth_append len)
  also have "filter (\<lambda>k. (map fst tbl @ new) ! k = n) [0..<length tbl] = equal_range n tbl"
    unfolding equal_range_def by (rule filter_cong) (auto simp: nth_append)
  finally show ?thesis by (simp add: find_pos_def)
qed

lemma step_findScope:
  assumes "wf_sem s" and "step N s s'" and "n \<notin> N"
  shows "findScope (scopes s') (cur s') n = findScope (scopes s) (cur s) n"
  unfolding findScope_def step_cur [OF assms(2)]
proof (rule climb_cong)
  fix j
  assume "j \<le> cur s"
  then have j: "j < length (scopes s)" using assms(1) by (simp add: wf_sem_def)
  then obtain new where new: "sig (scopes s') j = sig (scopes s) j @ new" "fst ` set new \<subseteq> N"
    using assms(2) by (auto simp: step_def grows_def)
  have "map fst (sig scs j) = map fst (table (scs ! j))" for scs by (simp add: sig_def)
  then have "map fst (table (scopes s' ! j)) = map fst (table (scopes s ! j)) @ map fst new"
    using new(1) by (metis map_append)
  then have "find_pos n (table (scopes s' ! j)) = find_pos n (table (scopes s ! j))"
    by (rule find_pos_append) (use new(2) assms(3) in auto)
  then show "parent (scopes s' ! j) = parent (scopes s ! j)
      \<and> map_option (Pair j) (find_pos n (table (scopes s' ! j))) = map_option (Pair j) (find_pos n (table (scopes s ! j)))"
    using assms(2) j by (simp add: step_def grows_def)
qed (use assms(1,2) in \<open>simp_all add: wf_sem_def step_def grows_def\<close>)

lemma finds_btn_name:
  assumes "wf_sem s" and "finds_btn n s"
  shows "n \<noteq> ''$lambda''"
proof -
  obtain r where r: "findScope (scopes s) (cur s) n = Some r" "kind_at (scopes s) r = 4"
    using assms(2) by (auto simp: finds_btn_def)
  have v: "valid_ref (scopes s) r" "fst (table (scopes s ! fst r) ! snd r) = n"
    using findScope_valid [OF r(1)] assms(1) by (auto simp: wf_sem_def)
  have "entry_ok (table (scopes s ! fst r) ! snd r)"
    using wf_entries [of "scopes s" "fst r"] assms(1) v(1) by (simp add: wf_sem_def valid_ref_def list_all_length)
  then show ?thesis using v(2) r(2) by (auto simp: entry_ok_def entry_kind_def kind_at_def get_symbol_def)
qed

lemma finds_btn_step:
  assumes "wf_sem s" and "step lambdas s s'" and "finds_btn n s"
  shows "finds_btn n s'"
proof -
  obtain r where r: "findScope (scopes s) (cur s) n = Some r" "kind_at (scopes s) r = 4"
    using assms(3) by (auto simp: finds_btn_def)
  have "valid_ref (scopes s) r" using findScope_valid [OF r(1)] assms(1) by (auto simp: wf_sem_def)
  then have "kind_at (scopes s') r = 4" using grows_ref [of lambdas "cur s" "scopes s" "scopes s'" r] assms(2) r(2) by (simp add: step_def)
  then show ?thesis
    using step_findScope [OF assms(1,2)] finds_btn_name [OF assms(1,3)] r(1) by (simp add: finds_btn_def)
qed

lemma visited_step:
  "wf_sem s \<Longrightarrow> step lambdas s s' \<Longrightarrow> lkp_stack s' = lkp_stack s \<Longrightarrow> visited k es s \<Longrightarrow> visited k es s'"
  using finds_btn_step by (auto simp: visited_def top_typed_def on_def)

lemma sp_visited:
  assumes "sp lambdas (\<lambda>_. True) m Q"
  shows "ce lambdas (visited k es) m (\<lambda>x s. Q x s \<and> visited k es s)"
proof (rule ceI)
  fix s
  assume wf: "wf_sem s" and v: "visited k es s"
  show "m s = Inl e \<Longrightarrow> tolerable e" "m s = Inr (x, s') \<Longrightarrow> step lambdas s s' \<and> Q x s' \<and> visited k es s'" for e x s'
    using spD [OF assms wf] visited_step [OF wf _ _ v] by auto
qed

subsection \<open>The interface of a visit\<close>

text \<open>
  What the methods that visit a subexpression rely on. The top of the stack before a visit is never an
  expression.
\<close>

locale expr_visit =
  fixes visit :: "unit sem_m"
  assumes visit_ok: "k \<noteq> K_expr \<Longrightarrow> ce lambdas (on ((k, n) # es)) visit (\<lambda>_. visited k ((k, n) # es))"
begin

lemma visit_value:
  assumes "k \<noteq> K_expr" and "k \<noteq> K_call"
  shows "ce lambdas (on ((k, n) # es)) visit (\<lambda>_. top_typed ((k, n) # es))"
  by (rule ce_conseq [OF visit_ok]) (use assms in \<open>auto simp: visited_def\<close>)

lemma noCheck: "ce lambdas (on es) (visitExprNoCheck visit t) (\<lambda>et s. on es s \<and> typed et)"
  unfolding visitExprNoCheck_def
  by (rule ce_bind [OF ce_stackS [where Q = "\<lambda>_. on ((K_subexpr, []) # es)"]],
      simp add: on_def stack_push_defs,
      rule ce_bind [OF ce_get [where Q = "\<lambda>_. on ((K_subexpr, []) # es)"]], assumption,
      rule ce_bind [OF ce_mod [where Q = "\<lambda>_. on ((K_subexpr, []) # es)"]], simp add: on_def,
      rule ce_bind [OF visit_value], simp, simp,
      rule ce_bind [OF ce_mod [where Q = "\<lambda>_. top_typed ((K_subexpr, []) # es)"]], simp add: top_typed_def,
      rule ce_stackP)
    (simp add: top_typed_def on_def stack_pop_defs)

lemma checkExpected: "ce lambdas (\<lambda>s. on es s \<and> typed et) (checkExpected l t et) (\<lambda>et s. on es s \<and> typed et)"
proof (rule ce_case)
  assume "typed et"
  then show "ce lambdas (\<lambda>s. on es s \<and> typed et) (checkExpected l t et) (\<lambda>et s. on es s \<and> typed et)"
    unfolding checkExpected_def
    by (intro ce_if ce_ret ce_lift)
      (auto simp: typed_def makeLetVal_def btn_bool_def failExpected_def split: option.splits)
qed simp

lemma check: "ce lambdas (on es) (visitExprCheck visit l t) (\<lambda>et s. on es s \<and> typed et)"
  unfolding visitExprCheck_def by (rule ce_bind [OF noCheck checkExpected])

lemma checkMember: "ce lambdas (on es) (visitExprCheckMember visit l) (\<lambda>et s. on es s \<and> typed et)"
  unfolding visitExprCheckMember_def
proof (rule ce_bind [OF noCheck])
  fix et :: expr_type
  show "ce lambdas (\<lambda>s. on es s \<and> typed et) (bindS (getS expected) (\<lambda>type. checkExpected l type et))
    (\<lambda>et s. on es s \<and> typed et)"
    by (rule ce_bind [OF ce_get [where Q = "\<lambda>_ s. on es s \<and> typed et"] checkExpected])
qed

lemma noCheckBool: "ce lambdas (on es) (visitExprNoCheckBool visit t) (\<lambda>et s. on es s \<and> typed et)"
  unfolding visitExprNoCheckBool_def
  by (rule ce_bind [OF noCheck], intro ce_if ce_ret) (auto simp: typed_def makeLetVal_def btn_bool_def on_def)

lemma exprType_sp: "sp lambdas P (getExprType visit l t) (\<lambda>et _. typed et)"
proof (rule spI)
  fix s :: sem
  let ?s = "s\<lparr>lkp_stack := empty_stack, expType := None, expected := None\<rparr>"
  assume wf: "wf_sem s"
  have wf': "wf_sem ?s" using wf by (simp add: wf_sem_def)
  have "on [] ?s" by (simp add: on_def empty_stack_def)
  note c = ceD [OF check wf' this, of l t]
  show "tolerable e" if "getExprType visit l t s = Inl e" for e
    using that c by (auto simp: getExprType_def freshVisitor_def bindE_Inl_iff)
  show "step lambdas s s' \<and> lkp_stack s' = lkp_stack s \<and> typed x" if "getExprType visit l t s = Inr (x, s')" for x s'
    using that c by (auto simp: getExprType_def freshVisitor_def step_def wf_sem_def)
qed

end

subsection \<open>Functions\<close>

lemma memFunExpr_Cons [simp]:
  "memFunExpr kd ((k, n) # (k', n') # es) \<longleftrightarrow> k = kd \<and> k' = K_member \<and> (\<exists>m fs. es = (K_call, m) # fs)"
  by (cases es) auto

lemma memVarExpr_Cons [simp]:
  "memVarExpr kd ((k, n) # (k', n') # (k'', n'') # es) \<longleftrightarrow> k = kd \<and> k' = K_member \<and> k'' \<noteq> K_call"
  by simp

lemma pickOverload_ok:
  assumes "pickOverload scs c i n args l ks = Inr k"
  shows "k \<in> set ks \<and> kind_at scs (i, k) = 2"
  using assms by (induction ks) (auto simp: Let_def kind_at_def split: symbol_data.splits if_splits)

lemma pickOverload_tolerable:
  assumes "wf_scopes scs" and "c < length scs" and "pickOverload scs c i n args l ks = Inl e"
  shows "tolerable e"
  using assms(3) moduleName_no_error [OF assms(1,2)]
  by (induction ks) (auto simp: Let_def bindE_Inl_iff split: symbol_data.splits if_splits)

lemma sp_lookupFun: "sp N P (lookupFun n args l) (\<lambda>r. ref_kind r 2)"
proof (rule spI)
  fix s
  assume wf: "wf_sem s"
  then have wfs: "wf_scopes (scopes s)" "cur s < length (scopes s)" by (simp_all add: wf_sem_def)
  show "tolerable e" if "lookupFun n args l s = Inl e" for e
    using that pickOverload_tolerable [OF wfs] by (auto simp: lookupFun_def bindE_Inl_iff split: option.splits)
  show "step N s s' \<and> lkp_stack s' = lkp_stack s \<and> ref_kind r 2 s'" if run: "lookupFun n args l s = Inr (r, s')" for r s'
  proof -
    obtain i k where c: "climb (\<lambda>i. if equal_range n (table (scopes s ! i)) = [] then None else Some i) (scopes s) (cur s) = Some i"
      and k: "pickOverload (scopes s) (cur s) i n args l (equal_range n (table (scopes s ! i))) = Inr k"
      and r: "r = (i, k)" and s': "s' = upd_symbol set_referenced r s"
      using run by (auto simp: lookupFun_def split: option.splits)
    have "i \<le> cur s" using climb_Some [OF c wfs] by (auto split: if_splits)
    then have v: "valid_ref (scopes s) r" "kind_at (scopes s) r = 2"
      using pickOverload_ok [OF k] wfs(2) by (auto simp: r valid_ref_def nth_mem_range)
    have st: "step {} s s'"
      unfolding s' by (rule step_upd_symbol [OF wf v(1)])
        (use wf_data [OF wfs(1) v(1)] v(2) in \<open>simp_all add: set_referenced_def kind_at_def\<close>)
    then have "ref_kind r 2 s'"
      using v stable_rules(3) [of r 2] wf unfolding stable_def ref_kind_def by blast
    then show ?thesis using st step_mono [of "{}" s s' N] by (simp add: s' upd_symbol_def)
  qed
qed

definition ret_typed :: "sym_ref \<Rightarrow> sem \<Rightarrow> bool" where
  "ret_typed r s \<longleftrightarrow> typed (func_ret (sym_data (get_symbol (scopes s) r)))"

lemma ce_popCallPushRet:
  "ce N (\<lambda>s. on ((K_call, []) # es) s \<and> ret_typed r s) (popCallPushRet r) (\<lambda>_. top_typed es)"
  unfolding popCallPushRet_def
  by (rule ce_bind [OF ce_stackE [where Q = "\<lambda>_ s. on es s \<and> ret_typed r s"]],
      simp add: on_def ret_typed_def stack_pop_defs,
      rule ce_bind [OF ce_get [where Q = "\<lambda>rt s. on es s \<and> typed rt"]], simp add: ret_typed_def,
      rule ce_bind [OF ce_stackS [where Q = "\<lambda>_. top_typed es"]],
      simp add: on_def top_typed_def stack_push_defs, rule ce_ret)

lemma ce_checked_ret:
  assumes "tolerable e"
  shows "ce N (on ((K_call, []) # es)) (bindS (ret_known r) (\<lambda>known. if known then popCallPushRet r else failS e))
    (\<lambda>_. top_typed es)"
  unfolding ret_known_def
proof (rule ce_bind [OF ce_get])
  show "on ((K_call, []) # es) s \<Longrightarrow> on ((K_call, []) # es) s
      \<and> (et_type (func_ret (sym_data (get_symbol (scopes s) r))) \<noteq> None \<longleftrightarrow> ret_typed r s)" for s
    by (simp add: ret_typed_def typed_def)
  show "ce N (\<lambda>s. on ((K_call, []) # es) s \<and> (known \<longleftrightarrow> ret_typed r s))
      (if known then popCallPushRet r else failS e) (\<lambda>_. top_typed es)" for known
    using ce_popCallPushRet [where N = N and es = es and r = r] ce_fail [OF assms] by (cases known) (auto intro: ce_conseq)
qed

lemma ce_sp_on: "sp N (\<lambda>_. True) m Q \<Longrightarrow> ce N (on es) m (\<lambda>_. on es)"
  by (rule ce_conseq [OF sp_ce [where R = "\<lambda>st. exprs st = es"]]) (auto simp: on_def)

lemma known_tolerable:
  "tolerable (Undefined ''assertion: return type of method'')"
  "tolerable (Undefined ''assertion: return type of function object'')"
  "tolerable (Undefined ''assertion: types of operands'')"
  by (simp_all add: known_failures_def)

lemma ce_callMethod: "ce N (top_typed ((K_member, n) # (K_call, []) # es)) (callMethod args l) (\<lambda>_. top_typed es)"
  unfolding callMethod_def
  by (rule ce_bind [OF ce_stackP [where Q = "\<lambda>_. on ((K_member, n) # (K_call, []) # es)"]],
      simp add: on_def top_typed_def stack_pop_defs,
      rule ce_bind [OF ce_stackP [where Q = "\<lambda>_. on ((K_call, []) # es)"]],
      simp add: on_def stack_pop_defs,
      rule ce_bind [OF ce_sp_on [OF sp_lookupFun]], rule ce_checked_ret, rule known_tolerable)

lemma ce_callFree: "ce N (on ((K_func, n) # (K_call, []) # es)) (callFree args l) (\<lambda>_. top_typed es)"
  unfolding callFree_def
  by (rule ce_bind [OF ce_stackP [where Q = "\<lambda>_. on ((K_call, []) # es)"]],
      simp add: on_def stack_pop_defs,
      rule ce_bind [OF ce_sp_on [OF sp_lookupFun]], rule ce_checked_ret, simp)

text \<open>Builtin functions print the types of their arguments, which are known.\<close>

lemma failType_tolerable: "failType l msg (et_type t) m = Inl e \<Longrightarrow> typed t \<Longrightarrow> tolerable e"
  by (auto simp: failType_def typed_def)

lemma check_tolerable:
  "checkArgs n l b = Inl e \<Longrightarrow> tolerable e"
  "checkMutRef n l a = Inl e \<Longrightarrow> tolerable e"
  "checkArray n l (et_type a) = Inl e \<Longrightarrow> typed a \<Longrightarrow> tolerable e"
  "checkUint n l (et_type a) = Inl e \<Longrightarrow> typed a \<Longrightarrow> tolerable e"
  by (auto simp: checkArgs_def checkMutRef_def checkArray_def checkUint_def
      dest: failType_tolerable split: if_splits option.splits)

lemma callBtnFunc_tolerable:
  assumes "list_all typed args" and "callBtnFunc fn args l = Inl e"
  shows "tolerable e"
  using assms
  by (cases "(fn, args)" rule: btn_func_sig.cases; cases fn)
    (auto simp: capacityFn_def sizeFn_def dataFn_def pushBackFn_def appendFn_def popBackFn_def resizeFn_def
      reserveFn_def bindE_Inl_iff checkArgs_def dest: check_tolerable failType_tolerable split: if_splits)

lemma callBuiltin_eq:
  assumes "finds_btn n s" and "exprs (lkp_stack s) = (K_btn_func, n) # (K_call, []) # es"
  shows "\<exists>fn r. callBuiltin args l s =
    bindE (callBtnFunc fn args l) (\<lambda>t. Inr (Some r, s\<lparr>lkp_stack := pushExpr (makeLetVal (Some t))
      ((lkp_stack s)\<lparr>exprs := es\<rparr>)\<rparr>))"
proof -
  obtain r where r: "findScope (scopes s) (cur s) n = Some r" "kind_at (scopes s) r = 4"
    using assms(1) by (auto simp: finds_btn_def)
  then obtain fn where "sym_data (get_symbol (scopes s) r) = BtnFuncSym fn"
    by (cases "sym_data (get_symbol (scopes s) r)") (auto simp: kind_at_def)
  then show ?thesis
    using r(1) assms(2)
    by (intro exI [of _ fn] exI [of _ r])
      (simp add: callBuiltin_def bindS_def stackP_def stackE_def stackS_def stack_pop_defs getS_def liftE_def
        bindE_assoc modS_def retS_def)
qed

lemma ce_callBuiltin:
  assumes "list_all typed args"
  shows "ce N (\<lambda>s. on ((K_btn_func, n) # (K_call, []) # es) s \<and> finds_btn n s) (callBuiltin args l) (\<lambda>_. top_typed es)"
  unfolding ce_def
proof (intro allI impI, elim conjE)
  fix s
  assume wf: "wf_sem s" and on: "on ((K_btn_func, n) # (K_call, []) # es) s" and f: "finds_btn n s"
  from callBuiltin_eq [OF f, of es args l] on obtain fn r where
    eq: "callBuiltin args l s = bindE (callBtnFunc fn args l) (\<lambda>t. Inr (Some r,
      s\<lparr>lkp_stack := pushExpr (makeLetVal (Some t)) ((lkp_stack s)\<lparr>exprs := es\<rparr>)\<rparr>))"
    by (auto simp: on_def)
  show "case callBuiltin args l s of Inl e \<Rightarrow> tolerable e | Inr (x, s') \<Rightarrow> step N s s' \<and> top_typed es s'"
    unfolding eq using wf callBtnFunc_tolerable [OF assms, of fn l]
    by (cases "callBtnFunc fn args l") (auto simp: top_typed_def stack_push_defs makeLetVal_def typed_def)
qed

lemma ce_callObject: "ce N (top_typed ((K_call, []) # es)) (callObject args l) (\<lambda>_. top_typed es)"
  unfolding callObject_def
proof (rule ce_bind [OF ce_stackP [where Q = "\<lambda>_. on ((K_call, []) # es)"]])
  fix e :: expr_type
  show "ce N (on ((K_call, []) # es)) (bindS (stackE popCall) (\<lambda>_.
       case Option.bind (et_type e) as_func of
         None \<Rightarrow> failS (Fatal l ''Calling an expression but it is not a function object'')
       | Some (params, ret) \<Rightarrow>
           if \<not> compatParams (map convert params) args
           then failS (Fatal l ''No matching call to function object'')
           else if ret = None then failS (Undefined ''assertion: return type of function object'')
           else bindS (stackS (pushExpr (convertNullable ret))) (\<lambda>_. retS None))) (\<lambda>_. top_typed es)"
  proof (rule ce_bind [OF ce_stackE [where Q = "\<lambda>_. on es"]])
    have push: "ce N (on es) (bindS (stackS (pushExpr (convertNullable (Some t)))) (\<lambda>_. retS None)) (\<lambda>_. top_typed es)" for t
      by (rule ce_bind [OF ce_stackS [where Q = "\<lambda>_. top_typed es"] ce_ret])
        (auto simp: on_def top_typed_def stack_push_defs convertNullable_def typed_def)
    show "ce N (on es) (case Option.bind (et_type e) as_func of
         None \<Rightarrow> failS (Fatal l ''Calling an expression but it is not a function object'')
       | Some (params, ret) \<Rightarrow>
           if \<not> compatParams (map convert params) args
           then failS (Fatal l ''No matching call to function object'')
           else if ret = None then failS (Undefined ''assertion: return type of function object'')
           else bindS (stackS (pushExpr (convertNullable ret))) (\<lambda>_. retS None)) (\<lambda>_. top_typed es)"
      using push by (auto split: option.splits intro!: ce_fail known_tolerable simp del: tolerable.simps(2))
  qed (simp add: on_def stack_pop_defs)
qed (simp add: on_def top_typed_def stack_pop_defs)

text \<open>\<^verbatim>\<open>lookupFunc\<close> on what a visit leaves under a call.\<close>

lemma ce_lookupFunc:
  assumes "list_all typed args"
  shows "ce N (visited K_call ((K_call, []) # es)) (lookupFunc args l) (\<lambda>_. top_typed es)"
  unfolding ce_def
proof (intro allI impI)
  fix s
  assume wf: "wf_sem s" and v: "visited K_call ((K_call, []) # es) s"
  let ?ok = "\<lambda>r. case r of Inl e \<Rightarrow> tolerable e | Inr (x, s') \<Rightarrow> step N s s' \<and> top_typed es s'"
  consider (object) "top_typed ((K_call, []) # es) s"
    | (free) n where "on ((K_func, n) # (K_call, []) # es) s"
    | (builtin) n where "on ((K_btn_func, n) # (K_call, []) # es) s" "finds_btn n s"
    | (is_method) n where "top_typed ((K_member, n) # (K_call, []) # es) s"
    using v by (auto simp: visited_def)
  then show "?ok (lookupFunc args l s)"
  proof cases
    case object
    then have "lookupFunc args l s = callObject args l s"
      by (simp add: lookupFunc_def bindS_def getS_def top_typed_def)
    then show ?thesis using ceD [OF ce_callObject wf object] by simp
  next
    case free
    then have "lookupFunc args l s = callFree args l s"
      by (simp add: lookupFunc_def bindS_def getS_def on_def)
    then show ?thesis using ceD [OF ce_callFree wf free] by simp
  next
    case builtin
    then have "lookupFunc args l s = callBuiltin args l s"
      by (simp add: lookupFunc_def bindS_def getS_def on_def)
    then show ?thesis using ceD [OF ce_callBuiltin [OF assms] wf conjI [OF builtin]] by simp
  next
    case is_method
    then have "lookupFunc args l s = callMethod args l s"
      by (simp add: lookupFunc_def bindS_def getS_def top_typed_def)
    then show ?thesis using ceD [OF ce_callMethod wf is_method] by simp
  qed
qed

end
