(* ===== verification/Sem_Lookup.thy ===== *)
theory Sem_Lookup
  imports Sem_Visit
begin

section \<open>Members, captures and identifiers\<close>

text \<open>
  The contracts of the name lookups in expressions: \<^verbatim>\<open>lookupMember\<close>, the capture of variables by lambdas
  and \<^verbatim>\<open>lookupIdent\<close>.
\<close>

subsection \<open>Members\<close>

lemma failType_Some: "failType l msg (Some t) m = Inl e \<Longrightarrow> tolerable e"
  by (auto simp: failType_def)

lemma ce_lookupField: "ce N (on es) (lookupField fs (Some u) n l) (\<lambda>_. top_typed es)"
proof (cases "find_field n fs 0")
  case None
  then show ?thesis
    unfolding lookupField_def by (auto intro!: ce_lift dest: failType_Some)
next
  case (Some p)
  then show ?thesis
    unfolding lookupField_def
    by (auto split: prod.splits intro!: ce_bind [OF ce_stackS [where Q = "\<lambda>_. top_typed es"] ce_ret]
        simp: on_def top_typed_def stack_push_defs fieldType_def typed_def)
qed

lemma ce_lookupMember:
  assumes "k \<noteq> K_call"
  shows "ce N (top_typed ((K_member, m) # (k, n) # es)) (lookupMember l) (\<lambda>_. top_typed ((k, n) # es))"
  unfolding lookupMember_def
proof (rule ce_bind [OF ce_get [where Q = "\<lambda>xs s. top_typed ((K_member, m) # (k, n) # es) s
    \<and> xs = (K_expr, []) # (K_member, m) # (k, n) # es"]], simp add: top_typed_def, rule ce_case)
  fix xs
  let ?es = "(k, n) # es"
  assume xs: "xs = (K_expr, []) # (K_member, m) # ?es"
  have tail: "ce N (\<lambda>s. on ?es s \<and> typed e)
     (let conc = map_option lookupConcreteType (et_type e) in
       if compareTypes conc (Some (RBtn Void)) then
         failS (Fatal l (''Cannot access field '' @ quoted n' @ '' of void expression''))
       else
         case conc of
           Some (RStruct fs) \<Rightarrow> lookupField fs (et_type e) n' l
         | Some (RUser fs _ _ _) \<Rightarrow> lookupField (map (\<lambda>(m, t, _). (m, t)) fs) (et_type e) n' l
         | _ \<Rightarrow> liftE (failType l (''Cannot access field '' @ quoted n' @ '' of '') (et_type e) []))
     (\<lambda>_. top_typed ?es)" for e n'
  proof (rule ce_case)
    assume "typed e"
    then obtain t where t: "et_type e = Some t" by (auto simp: typed_def)
    show ?thesis
      unfolding Let_def t
      by (auto intro!: ce_fail ce_lift ce_conseq [OF ce_lookupField] dest: failType_Some split: rty.splits)
  qed simp
  show "ce N (\<lambda>s. top_typed ((K_member, m) # ?es) s \<and> xs = (K_expr, []) # (K_member, m) # ?es)
     (if \<not> memVarExpr K_expr xs then retS None
      else
       bindS (stackP popExpr) (\<lambda>e.
       bindS (stackP popMember) (\<lambda>n.
       let conc = map_option lookupConcreteType (et_type e) in
       if compareTypes conc (Some (RBtn Void)) then
         failS (Fatal l (''Cannot access field '' @ quoted n @ '' of void expression''))
       else
         case conc of
           Some (RStruct fs) \<Rightarrow> lookupField fs (et_type e) n l
         | Some (RUser fs _ _ _) \<Rightarrow> lookupField (map (\<lambda>(m, t, _). (m, t)) fs) (et_type e) n l
         | _ \<Rightarrow> liftE (failType l (''Cannot access field '' @ quoted n @ '' of '') (et_type e) []))))
     (\<lambda>_. top_typed ?es)"
    by (rule ce_if, simp add: xs assms,
        rule ce_bind [OF ce_stackP [where Q = "\<lambda>e s. on ((K_member, m) # ?es) s \<and> typed e"]],
        simp add: on_def top_typed_def stack_pop_defs,
        rule ce_bind [OF ce_stackP [where Q = "\<lambda>_ s. on ?es s \<and> typed _"] tail])
      (simp add: on_def stack_pop_defs)
qed simp

lemma ce_lookupMember_call:
  "ce N (top_typed ((K_member, m) # (K_call, n) # es)) (lookupMember l)
     (\<lambda>_. top_typed ((K_member, m) # (K_call, n) # es))"
proof (rule ceI)
  fix s x s'
  assume s: "top_typed ((K_member, m) # (K_call, n) # es) s"
  then have eq: "lookupMember l s = Inr (None, s)"
    by (simp add: lookupMember_def bindS_def getS_def top_typed_def retS_def)
  show "tolerable e" if "lookupMember l s = Inl e" for e using that eq by simp
  show "step N s s' \<and> top_typed ((K_member, m) # (K_call, n) # es) s'"
    if "wf_sem s" "lookupMember l s = Inr (x, s')" using that eq s by simp
qed

subsection \<open>Captures\<close>

lemma findNearest_Some:
  assumes "findNearest ty scs i = Some j" and "wf_scopes scs" and "i < length scs"
  shows "j \<le> i \<and> stype (scs ! j) = ty"
  using climb_Some [OF assms(1) [unfolded findNearest_def] assms(2,3)] by (auto split: if_splits)

lemma step_findNearest:
  assumes "wf_sem s" and "step N s s'" and "i < length (scopes s)"
  shows "findNearest ty (scopes s') i = findNearest ty (scopes s) i"
  unfolding findNearest_def
  by (rule climb_cong) (use assms in \<open>auto simp: wf_sem_def step_def grows_def\<close>)

lemma closure_captures_ok:
  assumes "wf_scopes scs" and "cl < length scs" and "stype (scs ! cl) = closure_scope"
  shows "\<exists>r rt ps caps. closure_captures scs cl = Inr (r, caps) \<and> scope_sym (scs ! cl) = Some r \<and> valid_ref scs r
    \<and> sym_data (get_symbol scs r) = LambdaSym rt ps caps"
proof -
  obtain r where r: "scope_sym (scs ! cl) = Some r" "valid_ref scs r" "kind_at scs r = 3"
    using assms by (auto simp: wf_scopes_def scope_ok_def)
  then obtain rt ps caps where "sym_data (get_symbol scs r) = LambdaSym rt ps caps"
    by (cases "sym_data (get_symbol scs r)") (auto simp: kind_at_def)
  then show ?thesis using r by (simp add: closure_captures_def)
qed

definition captured_in :: "sym_ref \<Rightarrow> nat \<Rightarrow> sem \<Rightarrow> bool" where
  "captured_in obj i s \<longleftrightarrow> (\<exists>cl r caps. findNearest closure_scope (scopes s) i = Some cl
     \<and> closure_captures (scopes s) cl = Inr (r, caps) \<and> find_capture obj caps 0 \<noteq> None)"

lemma find_capture_iff: "find_capture obj caps c = None \<longleftrightarrow> (\<forall>cap \<in> set caps. cap_object cap \<noteq> obj)"
  by (induction caps arbitrary: c) auto

lemma pushCapture_ok:
  assumes wf: "wf_sem s" and near: "findNearest closure_scope (scopes s) i = Some cl" and i: "i < length (scopes s)"
    and caps: "closure_captures (scopes s) cl = Inr (r, caps)" and obj: "cap_object cap = obj"
  shows "\<exists>s'. pushCapture r cap len s = Inr (Some (of_nat len), s') \<and> step {} s s' \<and> lkp_stack s' = lkp_stack s
    \<and> captured_in obj i s'"
proof -
  have wfs: "wf_scopes (scopes s)" using wf by (simp add: wf_sem_def)
  have cl: "cl < length (scopes s)" "stype (scopes s ! cl) = closure_scope"
    using findNearest_Some [OF near wfs i] i by auto
  obtain rt ps where r: "scope_sym (scopes s ! cl) = Some r" "valid_ref (scopes s) r"
    "sym_data (get_symbol (scopes s) r) = LambdaSym rt ps caps"
    using closure_captures_ok [OF wfs cl] caps by auto
  let ?s = "upd_symbol (\<lambda>sy. sy\<lparr>sym_data := add_capture cap (sym_data sy)\<rparr>) r s"
  have st: "step {} s ?s"
    by (rule step_upd_symbol [OF wf r(2)]) (use r(3) wf_data [OF wfs r(2)] in \<open>simp_all add: kind_at_def\<close>)
  have "findNearest closure_scope (scopes ?s) i = Some cl" using step_findNearest [OF wf st i] near by simp
  moreover have "scope_sym (scopes ?s ! cl) = Some r" using st cl r(1) by (simp add: step_def grows_def)
  then have "closure_captures (scopes ?s) cl = Inr (r, caps @ [cap])"
    by (simp add: closure_captures_def get_upd_symbol [OF r(2)] r(3))
  ultimately have "captured_in obj i ?s" using obj by (auto simp: captured_in_def find_capture_iff)
  then show ?thesis
    using st by (simp add: pushCapture_def upd_data_def bindS_def modS_def retS_def) (simp add: upd_symbol_def)
qed

lemma lambdaCapture_ok:
  assumes "wf_sem s" and "i < length (scopes s)"
  shows "\<exists>c s'. lambdaCapture obj t sc i s = Inr (c, s') \<and> step {} s s' \<and> lkp_stack s' = lkp_stack s
    \<and> (c \<noteq> None \<longrightarrow> captured_in obj i s')"
  using assms
proof (induction i arbitrary: s rule: less_induct)
  case (less i)
  note wf = less.prems(1) and i = less.prems(2)
  have wfs: "wf_scopes (scopes s)" using wf by (simp add: wf_sem_def)
  have same: "\<exists>c s'. (Inr (None, s) :: (u32 option \<times> sem) res) = Inr (c, s') \<and> step {} s s' \<and> lkp_stack s' = lkp_stack s
    \<and> (c \<noteq> None \<longrightarrow> captured_in obj i s')" using wf by simp
  show ?case
  proof (cases "stype (scopes s ! sc) = ns_scope \<or> findNearest closure_scope (scopes s) i = None
      \<or> findNearest closure_scope (scopes s) sc = findNearest closure_scope (scopes s) i")
    case True
    then show ?thesis using same by (subst lambdaCapture.simps) (auto split: option.splits)
  next
    case False
    then obtain cl where near: "findNearest closure_scope (scopes s) i = Some cl" by auto
    have cl: "cl \<le> i" "stype (scopes s ! cl) = closure_scope" using findNearest_Some [OF near wfs i] by auto
    obtain r caps where caps: "closure_captures (scopes s) cl = Inr (r, caps)"
      using closure_captures_ok [OF wfs _ cl(2)] cl(1) i by auto
    note push = pushCapture_ok [OF _ _ _ _ refl]
    let ?cap = "\<lambda>j. \<lparr>cap_type = t, cap_object = obj, cap_index = j\<rparr>"
    show ?thesis
    proof (cases "find_capture obj caps 0")
      case (Some c)
      then have "captured_in obj i s" using near caps by (auto simp: captured_in_def)
      then show ?thesis
        using False near caps Some wf by (subst lambdaCapture.simps) auto
    next
      case None
      have direct: "\<exists>s'. pushCapture r (?cap (- 1)) (length caps) s = Inr (Some (of_nat (length caps)), s') \<and> step {} s s'
          \<and> lkp_stack s' = lkp_stack s \<and> captured_in obj i s'"
        using pushCapture_ok [OF wf near i caps, of "?cap (- 1)"] by simp
      show ?thesis
      proof (cases "\<exists>p pc. parent (scopes s ! cl) = Some p \<and> findNearest closure_scope (scopes s) p = Some pc")
        case no: False
        then show ?thesis
          using False near caps None direct by (subst lambdaCapture.simps) (auto simp: Let_def split: option.splits)
      next
        case True
        then obtain p pc where p: "parent (scopes s ! cl) = Some p" and pc: "findNearest closure_scope (scopes s) p = Some pc"
          by blast
        have "p < cl" using wf_parent [OF wfs _ p] cl(1) i by simp
        then have pi: "p < i" "p < length (scopes s)" using cl(1) i by auto
        obtain c s1 where rec: "lambdaCapture obj t sc p s = Inr (c, s1)" and st: "step {} s s1"
          and lk: "lkp_stack s1 = lkp_stack s" and cap: "c \<noteq> None \<longrightarrow> captured_in obj p s1"
          using less.IH [OF pi(1) wf pi(2)] by blast
        have wf1: "wf_sem s1" and i1: "i < length (scopes s1)"
          using st i by (auto simp: step_def grows_def)
        have near1: "findNearest closure_scope (scopes s1) i = Some cl"
          "findNearest closure_scope (scopes s1) p = Some pc"
          using step_findNearest [OF wf st] near pc i pi(2) by auto
        have unf: "lambdaCapture obj t sc i s =
          bindE (lambdaCapture obj t sc p s) (\<lambda>(captured, s).
            if captured = None then pushCapture r (?cap (- 1)) (length caps) s
            else bindE (closure_captures (scopes s) pc) (\<lambda>(_, pcaps).
              case find_capture obj pcaps 0 of None \<Rightarrow> Inl (Undefined ''unreachable'')
              | Some c \<Rightarrow> pushCapture r (?cap (of_nat c)) (length caps) s))"
          using False near caps None p pc pi(1) by (subst lambdaCapture.simps) (simp add: Let_def)
        have r1: "\<exists>caps1. closure_captures (scopes s1) cl = Inr (r, caps1)"
        proof -
          have "cl < length (scopes s)" using cl(1) i by simp
          then have "stype (scopes s1 ! cl) = closure_scope" "scope_sym (scopes s1 ! cl) = scope_sym (scopes s ! cl)"
            using st cl(2) by (simp_all add: step_def grows_def)
          moreover have "scope_sym (scopes s ! cl) = Some r"
            using closure_captures_ok [OF wfs \<open>cl < length (scopes s)\<close> cl(2)] caps by auto
          ultimately show ?thesis
            using closure_captures_ok [of "scopes s1" cl] wf1 cl(1) i1 by (auto simp: wf_sem_def)
        qed
        then obtain caps1 where caps1: "closure_captures (scopes s1) cl = Inr (r, caps1)" ..
        have after: "\<exists>s'. pushCapture r (?cap j) (length caps) s1 = Inr (Some (of_nat (length caps)), s') \<and> step {} s s'
            \<and> lkp_stack s' = lkp_stack s \<and> captured_in obj i s'" for j
          using pushCapture_ok [OF wf1 near1(1) i1 caps1, of "?cap j" obj "length caps"] st lk step_trans by auto
        show ?thesis
        proof (cases c)
          case None
          then show ?thesis using unf rec after [of "- 1"] by auto
        next
          case (Some c')
          then obtain r' pcaps c'' where "closure_captures (scopes s1) pc = Inr (r', pcaps)" "find_capture obj pcaps 0 = Some c''"
            using cap near1(2) by (auto simp: captured_in_def)
          then show ?thesis using unf rec Some after [of "of_nat c''"] by auto
        qed
      qed
    qed
  qed
qed

subsection \<open>Identifiers\<close>

lemma ce_lookupObject:
  assumes "typed et"
  shows "ce N (\<lambda>s. on es s \<and> ref_kind r 1 s) (lookupObject r et) (\<lambda>_. top_typed es)"
proof -
  have 1: "ce N (\<lambda>s. on es s \<and> ref_kind r 1 s) (modS (upd_symbol set_referenced r)) (\<lambda>_. on es)"
    by (rule ce_conseq [OF sp_ce [OF sp_upd_symbol [where P = "ref_kind r 1"], where R = "\<lambda>st. exprs st = es"]])
      (auto simp: ref_kind_def set_referenced_def kind_at_def on_def wf_sem_def intro: wf_data)
  have 2: "ce N (\<lambda>s. on es s \<and> c < length (scopes s)) (lambdaCapture r (et_type et) sc c) (\<lambda>_. on es)" for sc c
    unfolding ce_def
  proof (intro allI impI, elim conjE)
    fix s
    assume "wf_sem s" "on es s" "c < length (scopes s)"
    then show "case lambdaCapture r (et_type et) sc c s of Inl e \<Rightarrow> tolerable e | Inr (x, s') \<Rightarrow> step N s s' \<and> on es s'"
      using lambdaCapture_ok [of s c r "et_type et" sc] step_mono [of "{}" s _ N] by (auto simp: on_def)
  qed
  show ?thesis
    unfolding lookupObject_def
    by (rule ce_bind [OF 1], rule ce_bind [OF ce_get [where Q = "\<lambda>c s. on es s \<and> c < length (scopes s)"]],
        simp add: wf_sem_def, rule ce_bind [OF 2],
        rule ce_bind [OF ce_stackS [where Q = "\<lambda>_. top_typed es"] ce_ret])
      (use assms in \<open>auto simp: on_def top_typed_def stack_push_defs makeVarVal_def typed_def\<close>)
qed

lemma addressOfFunc_tolerable: "kind d = 2 \<Longrightarrow> addressOfFunc d l = Inl e \<Longrightarrow> tolerable e"
  by (cases d) (auto simp: addressOfFunc_def split: if_splits)

lemma getFuncType_tolerable: "getFuncType nd l = Inl e \<Longrightarrow> tolerable e"
  by (auto simp: getFuncType_def split: if_splits)

lemma pickFunPtr_ok:
  assumes "\<And>k. k \<in> set ks \<Longrightarrow> kind_at scs (i, k) = 2"
  shows "pickFunPtr scs i n ex l ks = Inl e \<Longrightarrow> tolerable e"
    and "pickFunPtr scs i n ex l ks = Inr (k, t) \<Longrightarrow> k \<in> set ks"
  using assms
  by (induction ks)
    (auto simp: bindE_Inl_iff kind_at_def dest: addressOfFunc_tolerable [rotated] getFuncType_tolerable split: if_splits)

lemma chooseFunPtr_ok:
  assumes ks: "equal_range n (table (scs ! i)) = ks" "ks \<noteq> []" and k2: "\<And>k. k \<in> set ks \<Longrightarrow> kind_at scs (i, k) = 2"
  shows "chooseFunPtr scs i n ex l = Inl e \<Longrightarrow> tolerable e"
    and "chooseFunPtr scs i n ex l = Inr (k, t) \<Longrightarrow> k \<in> set ks"
proof -
  obtain k0 ks' where c: "ks = k0 # ks'" using ks(2) by (cases ks) auto
  have k0: "kind (sym_data (get_symbol scs (i, k0))) = 2" using k2 [of k0] by (simp add: c kind_at_def)
  note p = pickFunPtr_ok [where ks = ks, OF k2]
  show "chooseFunPtr scs i n ex l = Inl e \<Longrightarrow> tolerable e"
    using addressOfFunc_tolerable [OF k0] getFuncType_tolerable p(1)
    by (cases ks') (auto simp: chooseFunPtr_def ks(1) c bindE_Inl_iff simp del: pickFunPtr.simps split: if_splits)
  show "chooseFunPtr scs i n ex l = Inr (k, t) \<Longrightarrow> k \<in> set ks"
    using p(2) by (cases ks') (auto simp: chooseFunPtr_def ks(1) c simp del: pickFunPtr.simps split: if_splits)
qed

lemma overloads_are_functions:
  assumes "wf_sem s" and "valid_ref (scopes s) (i, k)" and "kind_at (scopes s) (i, k) = 2"
    and "fst (table (scopes s ! i) ! k) = n" and "p \<in> set (equal_range n (table (scopes s ! i)))"
  shows "kind_at (scopes s) (i, p) = 2"
proof -
  have "apart (sig (scopes s) i)"
    using wf_table [of "scopes s" i] assms(1,2) by (simp add: wf_sem_def valid_ref_def table_ok_def)
  moreover have "(n, 2) \<in> set (sig (scopes s) i)"
    using assms(2-4) by (auto simp: in_sig_range nth_mem_range valid_ref_def)
  moreover have "(n, kind_at (scopes s) (i, p)) \<in> set (sig (scopes s) i)"
    using assms(5) by (auto simp: in_sig_range)
  ultimately show ?thesis by (auto simp: apart_def)
qed

lemma ce_pushFunPtr:
  "ce N (\<lambda>s. on es s \<and> valid_ref (scopes s) (i, k) \<and> kind_at (scopes s) (i, k) = 2
      \<and> fst (table (scopes s ! i) ! k) = n) (pushFunPtr i n l) (\<lambda>_. top_typed es)"
  unfolding ce_def
proof (intro allI impI, elim conjE)
  fix s
  assume wf: "wf_sem s" and on: "on es s" and v: "valid_ref (scopes s) (i, k)"
    and k: "kind_at (scopes s) (i, k) = 2" and n: "fst (table (scopes s ! i) ! k) = n"
  note all2 = overloads_are_functions [OF wf v k n]
  have "k \<in> set (equal_range n (table (scopes s ! i)))" using v n by (simp add: valid_ref_def nth_mem_range)
  then have ne: "equal_range n (table (scopes s ! i)) \<noteq> []" by auto
  note ch = chooseFunPtr_ok [OF refl ne all2]
  show "case pushFunPtr i n l s of Inl e \<Rightarrow> tolerable e | Inr (x, s') \<Rightarrow> step N s s' \<and> top_typed es s'"
  proof (cases "chooseFunPtr (scopes s) i n (expType s) l")
    case (Inl e)
    then show ?thesis using ch(1) by (simp add: pushFunPtr_def bindS_def getS_def liftE_def)
  next
    case (Inr p)
    obtain k' t where p: "p = (k', t)" by (cases p)
    have v': "valid_ref (scopes s) (i, k')"
      using ch(2) Inr v by (auto simp: p valid_ref_def nth_mem_range)
    have "step {} s (upd_symbol set_referenced (i, k') s)"
      by (rule step_upd_symbol [OF wf v']) (use wf_data [OF _ v'] wf in \<open>simp_all add: set_referenced_def kind_at_def wf_sem_def\<close>)
    then have "step N s (upd_symbol set_referenced (i, k') s)" by (rule step_mono) simp
    then have "step N s ((upd_symbol set_referenced (i, k') s)\<lparr>lkp_stack := st\<rparr>)" for st
      using step_stack step_trans step_wf by blast
    then show ?thesis
      using Inr on by (simp add: p pushFunPtr_def bindS_def getS_def liftE_def modS_def stackS_def retS_def top_typed_def
          stack_push_defs on_def makeLetVal_def typed_def) (simp add: upd_symbol_def)
  qed
qed

lemma ce_lookupIdent:
  assumes "k \<noteq> K_expr"
  shows "ce N (on ((k, m) # es)) (lookupIdent l n) (\<lambda>_. visited k ((k, m) # es))"
  unfolding ce_def
proof (intro allI impI)
  fix s
  let ?es = "(k, m) # es"
  assume wf: "wf_sem s" and on: "on ?es s"
  let ?ok = "\<lambda>r. case r of Inl e \<Rightarrow> tolerable e | Inr (x :: sym_ref option, s') \<Rightarrow> step N s s' \<and> visited k ?es s'"
  have pushes: "ce N P f (\<lambda>_. top_typed ?es) \<Longrightarrow> P s \<Longrightarrow> ?ok (f s)" for P f
    using ceD [of N P f "\<lambda>_. top_typed ?es" s] wf by (auto simp: visited_def split: sum.splits)
  show "?ok (lookupIdent l n s)"
  proof (cases "findScope (scopes s) (cur s) n")
    case None
    then show ?thesis by (simp add: lookupIdent_def bindS_def getS_def failS_def)
  next
    case (Some r)
    have v: "valid_ref (scopes s) r" "fst (table (scopes s ! fst r) ! snd r) = n"
      using findScope_valid [OF Some] wf by (auto simp: wf_sem_def)
    have d: "data_ok (sym_data (get_symbol (scopes s) r))" using wf_data [OF _ v(1)] wf by (simp add: wf_sem_def)
    have top: "top_kind (lkp_stack s) = Inr k" using on by (simp add: on_def top_kind_def)
    show ?thesis
    proof (cases "sym_data (get_symbol (scopes s) r)")
      case (ObjectSym et)
      then have "lookupIdent l n s = lookupObject r et s"
        using Some by (simp add: lookupIdent_def bindS_def getS_def)
      then show ?thesis
        using pushes [OF ce_lookupObject [where et = et and es = ?es and r = r]] ObjectSym d on v(1) by (simp add: ref_kind_def kind_at_def)
    next
      case (FuncSym rt ps nd)
      show ?thesis
      proof (cases "k = K_call")
        case True
        then have "lookupIdent l n s = Inr (None, s\<lparr>lkp_stack := pushFunc n (lkp_stack s)\<rparr>)"
          using Some FuncSym top by (simp add: lookupIdent_def bindS_def getS_def stackR_def stackS_def modS_def retS_def)
        then show ?thesis using True on wf by (auto simp: visited_def on_def stack_push_defs)
      next
        case False
        then have "lookupIdent l n s = bindS (pushFunPtr (fst r) n l) (\<lambda>f. retS (Some f)) s"
          using Some FuncSym top by (simp add: lookupIdent_def bindS_def getS_def stackR_def)
        then show ?thesis
          using pushes [OF ce_bind [OF ce_pushFunPtr [where es = ?es and i = "fst r" and k = "snd r" and n = n and l = l] ce_ret [where Q = "\<lambda>_. top_typed ?es"]]]
            FuncSym on v by (simp add: kind_at_def)
      qed
    next
      case (BtnFuncSym fn)
      show ?thesis
      proof (cases "k = K_call")
        case True
        then have "lookupIdent l n s = Inr (None, s\<lparr>lkp_stack := pushBtnFunc n (lkp_stack s)\<rparr>)"
          using Some BtnFuncSym top by (simp add: lookupIdent_def bindS_def getS_def stackR_def stackS_def modS_def retS_def)
        moreover have "finds_btn n s" using Some BtnFuncSym by (simp add: finds_btn_def kind_at_def)
        ultimately show ?thesis using True on wf by (auto simp: visited_def on_def stack_push_defs finds_btn_def)
      next
        case False
        then show ?thesis
          using Some BtnFuncSym top by (simp add: lookupIdent_def bindS_def getS_def stackR_def failS_def)
      qed
    qed (simp_all add: Some lookupIdent_def bindS_def getS_def failS_def)
  qed
qed

end
