(* ===== verification/Sem_Safety.thy ===== *)
theory Sem_Safety
  imports Sem_Lookup
begin

section \<open>Contracts of the rules for expressions and statements\<close>

text \<open>
  Each rule of \<^verbatim>\<open>infer type.cpp\<close> and \<^verbatim>\<open>traverse.cpp\<close> keeps the contract when the visits of its
  subexpressions and statements do.
\<close>

subsection \<open>The rules for expressions give a type\<close>

lemma validComp_tolerable: "validComp opr t l = Inl e \<Longrightarrow> tolerable e"
proof (induction t arbitrary: e)
  case (RStruct fs)
  show ?case
    by (rule foldE_tolerable [OF _ RStruct.prems [unfolded validComp.simps]]) (auto dest: RStruct.IH)
qed (auto split: if_splits)

lemma validOp_bin_total: "\<not> compOp opr \<Longrightarrow> validOp_bin opr a b \<noteq> Inl e"
  by (cases opr) (simp_all add: validOp_bin_def compOp_def isEqualOp_def isOrderOp_def isBoolOp_def isBitwiseOp_def
      isArithOp_def enum_order)

lemma validOp_assign_total: "validOp_assign opr a \<noteq> Inl e"
  by (cases opr) (simp_all add: validOp_assign_def isArithAssign_def isBitwiseAssign_def enum_order)

text \<open>A rule ends in a tolerable error or gives a type.\<close>

definition gives :: "expr_type res \<Rightarrow> bool" where
  "gives r \<longleftrightarrow> (case r of Inl e \<Rightarrow> tolerable e | Inr t \<Rightarrow> typed t)"

lemma gives_binary: "typed a \<Longrightarrow> gives (binaryType l opr a b)"
  using validOp_bin_total [of opr]
  by (auto simp: gives_def binaryType_def typed_def makeLetVal_def btn_bool_def dest: validComp_tolerable
      split: sum.splits option.splits)
    (auto simp: bindE_Inl_iff dest: validComp_tolerable split: option.splits if_splits)

lemma gives_unary: "typed a \<Longrightarrow> gives (unaryType l opr a)"
  by (auto simp: gives_def unaryType_def typed_def makeLetVal_def split: option.splits)

lemma gives_subscript: "gives (subscriptType l l' a b)"
  by (auto simp: gives_def subscriptType_def typed_def fieldType_def split: option.splits)

lemma gives_ternary: "typed a \<Longrightarrow> gives (ternaryType l a b)"
  by (auto simp: gives_def ternaryType_def typed_def)

lemma gives_make: "typed a \<Longrightarrow> gives (makeType l t a)"
  by (auto simp: gives_def makeType_def makeSame_def typed_def makeLetVal_def split: option.splits)

lemma parseDigitsChar_tolerable: "parseDigitsChar isDig b msg l s = Inl e \<Longrightarrow> tolerable e"
  by (auto simp: parseDigitsChar_def Let_def split: option.splits if_splits)

lemma parseStringLiteral_tolerable: "parseStringLiteral str l = Inl e \<Longrightarrow> tolerable e"
proof -
  have "parseStringLiteral_loop l acc bs cs = Inl e \<Longrightarrow> tolerable e" for acc bs cs
    by (induction l acc bs cs rule: parseStringLiteral_loop.induct)
      (auto simp: parseStringLiteral_loop.simps bindE_Inl_iff literal_failures_def parseOctChar_def parseHexChar_def
        dest: parseDigitsChar_tolerable split: if_splits option.splits)
  then show "parseStringLiteral str l = Inl e \<Longrightarrow> tolerable e" by (simp add: parseStringLiteral_def)
qed

lemma gives_char: "gives (charType l litr)"
  by (auto simp: gives_def charType_def typed_def makeLetVal_def dest: parseStringLiteral_tolerable split: sum.splits)
    (auto simp: bindE_Inl_iff dest: parseStringLiteral_tolerable split: if_splits)

lemma gives_string: "gives (stringType l litr)"
  by (auto simp: gives_def stringType_def bindE_Inl_iff typed_def makeLetVal_def
      dest: parseStringLiteral_tolerable split: sum.splits if_splits)

lemma assigned_cases: "assigned r mk = Inl e \<Longrightarrow> tolerable e" "assigned r mk = Inr v \<Longrightarrow> \<exists>x. v = mk x"
  by (auto simp: assigned_def literal_failures_def split: option.splits)

lemma gives_number: "gives (numberType ld litr)"
proof -
  have "parseNumberLiteral ld litr = Inl e \<Longrightarrow> tolerable e" for e
    by (auto simp: parseNumberLiteral_def literal_failures_def dest: assigned_cases split: if_splits)
  moreover have "parseNumberLiteral ld litr = Inr v \<Longrightarrow> variant_type v \<noteq> None" for v
    by (auto simp: parseNumberLiteral_def dest!: assigned_cases(2) split: if_splits)
  ultimately show ?thesis
    by (auto simp: gives_def numberType_def typed_def makeLetVal_def bindE_Inl_iff split: sum.splits)
qed

lemma ce_setType: "typed t \<Longrightarrow> k \<noteq> K_expr \<Longrightarrow> ce N (on ((k, n) # es)) (setType t) (\<lambda>_. top_typed ((k, n) # es))"
  unfolding setType_def
  by (rule ce_stackE) (simp add: on_def top_typed_def stack_pop_defs stack_push_defs)

lemma ce_gives:
  assumes "gives r" and "k \<noteq> K_expr"
  shows "ce N (on ((k, n) # es)) (bindS (liftE r) setType) (\<lambda>_. top_typed ((k, n) # es))"
proof (rule ce_bind [OF ce_lift [where Q = "\<lambda>t s. on ((k, n) # es) s \<and> typed t"]])
  show "ce N (\<lambda>s. on ((k, n) # es) s \<and> typed t) (setType t) (\<lambda>_. top_typed ((k, n) # es))" for t
    by (rule ce_case [where A = "typed t"], simp, rule ce_conseq [OF ce_setType [OF _ assms(2)]]) auto
qed (use assms(1) in \<open>auto simp: gives_def\<close>)

subsection \<open>Expressions\<close>

lemma expr_visitI:
  assumes "\<And>k n es. k \<noteq> K_expr \<Longrightarrow> ce lambdas (on ((k, n) # es)) m (\<lambda>_. top_typed ((k, n) # es))"
  shows "expr_visit m"
  by (unfold_locales, rule ce_conseq [OF assms]) (auto simp: visited_def)

text \<open>A step behind a typed subexpression.\<close>

lemma ce_typed:
  assumes "ce N P m (\<lambda>t s. P s \<and> typed t)" and "\<And>t. typed t \<Longrightarrow> ce N P (f t) Q"
  shows "ce N P (bindS m f) Q"
proof (rule ce_bind [OF assms(1)])
  show "ce N (\<lambda>s. P s \<and> typed t) (f t) Q" for t
    by (rule ce_case [where A = "typed t"], simp, rule ce_conseq [OF assms(2)]) auto
qed

lemma ce_keep_sp: "sp N (\<lambda>_. True) m any \<Longrightarrow> ce N (on es) m (\<lambda>_. on es)"
  by (rule ce_sp_on)

lemma ce_mapS:
  assumes "\<And>x. x \<in> set xs \<Longrightarrow> ce N P (f x) (\<lambda>_. P)"
  shows "ce N P (mapS f xs) (\<lambda>_. P)"
  using assms by (induction xs) (auto intro!: ce_ret ce_bind [where R = "\<lambda>_. P"])

lemma visit_binary:
  assumes "expr_visit v" and "expr_visit w"
  shows "expr_visit (bindS (visitExprCheck v l t) (\<lambda>lt. bindS (visitExprCheck w l' t) (\<lambda>rt.
    bindS (liftE (binaryType l'' opr lt rt)) setType)))"
  by (intro expr_visitI ce_typed [OF expr_visit.check [OF assms(1)]] ce_typed [OF expr_visit.check [OF assms(2)]]
      ce_gives gives_binary)

lemma visit_unary:
  assumes "expr_visit v"
  shows "expr_visit (bindS (visitExprCheck v l t) (\<lambda>et. bindS (liftE (unaryType l' opr et)) setType))"
  by (intro expr_visitI ce_typed [OF expr_visit.check [OF assms]] ce_gives gives_unary)

lemma visit_subscript:
  assumes "expr_visit v" and "expr_visit w"
  shows "expr_visit (bindS (visitExprCheck v l None) (\<lambda>obj. bindS (visitExprCheck w l' None) (\<lambda>idx.
    bindS (liftE (subscriptType l l' obj idx)) setType)))"
  by (intro expr_visitI ce_typed [OF expr_visit.check [OF assms(1)]] ce_typed [OF expr_visit.check [OF assms(2)]]
      ce_gives gives_subscript)

lemma visit_ternary:
  assumes "expr_visit c" and "expr_visit v" and "expr_visit w"
  shows "expr_visit (bindS (visitExprCheck c l t) (\<lambda>_.
    bindS (visitExprCheckMember v l') (\<lambda>tt. bindS (visitExprCheckMember w l'') (\<lambda>ft.
    bindS (liftE (ternaryType l''' tt ft)) setType))))"
  by (intro expr_visitI ce_typed [OF expr_visit.check [OF assms(1)]] ce_typed [OF expr_visit.checkMember [OF assms(2)]]
      ce_typed [OF expr_visit.checkMember [OF assms(3)]] ce_gives gives_ternary)

lemma visit_make:
  assumes "expr_visit v"
  shows "expr_visit (bindS (validateType type) (\<lambda>t. bindS (visitExprNoCheckBool v (Some t)) (\<lambda>et.
    bindS (liftE (makeType l t et)) setType)))"
  by (rule expr_visitI, rule ce_bind [OF ce_sp_on [OF sp_validateType]],
      intro ce_typed [OF expr_visit.noCheckBool [OF assms]] ce_gives gives_make)

lemma visit_literals:
  "expr_visit (bindS (liftE (stringType l litr)) setType)"
  "expr_visit (bindS (liftE (charType l litr)) setType)"
  "expr_visit (bindS (liftE (numberType ld litr)) setType)"
  "expr_visit (setType (makeLetVal btn_bool))"
  by (intro expr_visitI ce_gives gives_string gives_char gives_number, assumption)+
    (intro expr_visitI ce_setType, auto simp: typed_def makeLetVal_def btn_bool_def)

lemma visit_member:
  assumes "expr_visit v"
  shows "expr_visit (bindS (stackS (pushMember m)) (\<lambda>_. bindS v (\<lambda>_. bindS (lookupMember l) (\<lambda>_. retS ()))))"
proof
  fix k :: ExprKind and n :: name and es
  assume k: "k \<noteq> K_expr"
  show "ce lambdas (on ((k, n) # es)) (bindS (stackS (pushMember m)) (\<lambda>_. bindS v (\<lambda>_. bindS (lookupMember l) (\<lambda>_. retS ()))))
     (\<lambda>_. visited k ((k, n) # es))"
  proof (rule ce_bind [OF ce_stackS [where Q = "\<lambda>_. on ((K_member, m) # (k, n) # es)"]],
      simp add: on_def stack_push_defs, rule ce_bind [OF expr_visit.visit_value [OF assms]], simp, simp)
    show "ce lambdas (top_typed ((K_member, m) # (k, n) # es)) (bindS (lookupMember l) (\<lambda>_. retS ()))
        (\<lambda>_. visited k ((k, n) # es))"
    proof (cases "k = K_call")
      case True
      show ?thesis
        unfolding True by (rule ce_bind [OF ce_lookupMember_call ce_ret]) (auto simp: visited_def)
    next
      case False
      show ?thesis by (rule ce_bind [OF ce_lookupMember [OF False] ce_ret]) (auto simp: visited_def)
    qed
  qed
qed

lemma visit_ident: "expr_visit (inferIdent l n)"
proof
  fix k :: ExprKind and m :: name and es
  assume k: "k \<noteq> K_expr"
  show "ce lambdas (on ((k, m) # es)) (inferIdent l n) (\<lambda>_. visited k ((k, m) # es))"
    unfolding inferIdent_def
    by (rule ce_bind [OF ce_mod [where Q = "\<lambda>_. on ((k, m) # es)"]], simp add: on_def,
        rule ce_bind [OF ce_lookupIdent [OF k] ce_ret])
qed

text \<open>The subexpressions of a call or a literal.\<close>

definition visits_ok :: "visits \<Rightarrow> bool" where
  "visits_ok vs \<longleftrightarrow> (\<forall>(v, l) \<in> set vs. expr_visit v)"

lemma visits_ok_simps [simp]: "visits_ok []" "visits_ok ((v, l) # vs) \<longleftrightarrow> expr_visit v \<and> visits_ok vs"
  by (auto simp: visits_ok_def)

lemma sp_argTypes: "visits_ok vs \<Longrightarrow> sp lambdas (\<lambda>_. True) (argTypes vs) (\<lambda>ts _. list_all typed ts)"
  unfolding argTypes_def
  by (rule sp_conseq [OF sp_mapS [where P = "\<lambda>_. True" and R = typed]])
    (auto simp: visits_ok_def intro: expr_visit.exprType_sp)

lemma visit_call:
  assumes "expr_visit v" and "visits_ok args"
  shows "expr_visit (inferCall l v args)"
proof (rule expr_visitI)
  fix k :: ExprKind and n :: name and es
  let ?es = "(k, n) # es"
  show "ce lambdas (on ?es) (inferCall l v args) (\<lambda>_. top_typed ?es)"
    unfolding inferCall_def
  proof (rule ce_bind [OF ce_stackS [where Q = "\<lambda>_. on ((K_call, []) # ?es)"]], simp add: on_def stack_push_defs,
      rule ce_bind [OF expr_visit.visit_ok [OF assms(1)]], simp,
      rule ce_bind [OF sp_visited [OF sp_argTypes [OF assms(2)]]], rule ce_case)
    fix ts
    assume "list_all typed ts"
    then show "ce lambdas (\<lambda>s. list_all typed ts \<and> visited K_call ((K_call, []) # ?es) s)
       (bindS (lookupFunc ts l) (\<lambda>_. bindS (stackR topType) (\<lambda>_. retS ()))) (\<lambda>_. top_typed ?es)"
      by (rule_tac ce_conseq [OF ce_bind [OF ce_lookupFunc
            ce_bind [OF ce_stackR [where Q = "\<lambda>_. top_typed ?es"] ce_ret [where Q = "\<lambda>_. top_typed ?es"]]]])
        (auto simp: top_typed_def stack_pop_defs)
  qed simp
qed

lemma visit_array:
  assumes "visits_ok vs"
  shows "expr_visit (inferArray l vs)"
proof (rule expr_visitI)
  fix k :: ExprKind and n :: name and es
  assume k: "k \<noteq> K_expr"
  let ?on = "on ((k, n) # es)"
  have elem: "ce lambdas ?on
       (case vs of
          [] \<Rightarrow> (case elem of None \<Rightarrow> failS (Fatal l ''Could not infer type of empty array'') | Some t \<Rightarrow> retS t)
        | (v, vl) # vs \<Rightarrow>
            bindS (visitExprCheck v vl elem) (\<lambda>first.
            bindS (mapS (\<lambda>(w, wl). bindS (visitExprNoCheck w elem) (\<lambda>currExpr.
                if compareTypes (et_type first) (et_type currExpr) then retS ()
                else failS (Fatal wl ''Unmatching types in array literal''))) vs) (\<lambda>_.
              liftE (arrayElem l (et_type first))))) (\<lambda>_. ?on)" for elem
  proof (cases vs)
    case Nil
    then show ?thesis by (auto intro: ce_fail ce_ret split: option.splits)
  next
    case (Cons p us)
    obtain v vl where p: "p = (v, vl)" by (cases p)
    have v: "expr_visit v" and us: "visits_ok us" using assms by (simp_all add: Cons p)
    have rest: "ce lambdas ?on (mapS (\<lambda>(w, wl). bindS (visitExprNoCheck w elem) (\<lambda>currExpr.
                if compareTypes (et_type first) (et_type currExpr) then retS ()
                else failS (Fatal wl ''Unmatching types in array literal''))) us) (\<lambda>_. ?on)" for first
      by (rule ce_mapS)
        (use us in \<open>auto simp: visits_ok_def intro!: ce_typed [OF expr_visit.noCheck] ce_if ce_ret ce_fail\<close>)
    have el: "ce lambdas ?on (liftE (arrayElem l (et_type first))) (\<lambda>_. ?on)" if "typed first" for first
      by (rule ce_lift) (use that in \<open>auto simp: arrayElem_def typed_def split: option.splits if_splits\<close>)
    show ?thesis
      by (simp add: Cons p) (rule ce_typed [OF expr_visit.check [OF v] ce_bind [OF rest el]])
  qed
  have set: "ce lambdas ?on (setType (makeLetVal (Some (RArray t)))) (\<lambda>_. top_typed ((k, n) # es))" for t
    by (rule ce_setType [OF _ k]) (simp add: typed_def makeLetVal_def)
  show "ce lambdas ?on (inferArray l vs) (\<lambda>_. top_typed ((k, n) # es))"
    unfolding inferArray_def
    by (rule ce_bind [OF ce_get [where Q = "\<lambda>_. ?on"]], assumption, rule ce_bind [OF ce_lift [where Q = "\<lambda>_. ?on"] ce_bind [OF elem set]])
      (auto simp: arrayExpected_def dest: failType_Some split: option.splits)
qed

lemma visit_init:
  assumes "visits_ok vs"
  shows "expr_visit (inferInitList l vs)"
proof (rule expr_visitI)
  fix k :: ExprKind and n :: name and es
  assume k: "k \<noteq> K_expr"
  let ?on = "on ((k, n) # es)"
  have fs: "ce lambdas ?on (initFields l vs ex) (\<lambda>_. ?on)" for ex
  proof -
    have "ce lambdas ?on (visitExprCheck v vl t) (\<lambda>_. ?on)" if "(v, vl) \<in> set vs" for v vl t
      using that assms by (intro ce_conseq [OF expr_visit.check]) (auto simp: visits_ok_def)
    then have "ce lambdas ?on (mapS (\<lambda>((v, vl), (_, t)). visitExprCheck v vl (Some t)) (zip vs fs)) (\<lambda>_. ?on)" for fs :: "(name \<times> rty) list"
      by (intro ce_mapS) (auto dest: set_zip_leftD)
    then show ?thesis
      unfolding initFields_def
      by (auto split: option.splits intro!: ce_fail ce_bind [where R = "\<lambda>_. ?on"] ce_ret)
  qed
  show "ce lambdas ?on (inferInitList l vs) (\<lambda>_. top_typed ((k, n) # es))"
    unfolding inferInitList_def
  proof (rule ce_bind [OF ce_get [where Q = "\<lambda>_. ?on"]], assumption, rule ce_if, simp add: ce_fail)
    fix ex :: "rty option"
    assume ex: "ex \<noteq> None"
    have 1: "ce lambdas ?on (if vs = [] then retS () else initFields l vs ex) (\<lambda>_. ?on)"
      by (auto intro: fs ce_ret)
    show "ce lambdas ?on (bindS (if vs = [] then retS () else initFields l vs ex) (\<lambda>_.
         bindS (modS (\<lambda>s. s\<lparr>expected := None\<rparr>)) (\<lambda>_. setType (makeLetVal ex)))) (\<lambda>_. top_typed ((k, n) # es))"
      by (rule ce_bind [OF 1 ce_bind [OF ce_mod [where Q = "\<lambda>_. ?on"] ce_setType [OF _ k]]])
        (use ex in \<open>auto simp: on_def typed_def makeLetVal_def\<close>)
  qed
qed

subsection \<open>Lambdas\<close>

lemma sp_insert_lambda: "sp lambdas P (insert_lambda ps rt l) (\<lambda>r. ref_kind r 3)"
  unfolding insert_lambda_def
proof (rule sp_bind [OF sp_get [where Q = "\<lambda>c s. cur s = c"]])
  fix c
  let ?sy = "\<lparr>sym_scope = None, sym_loc = l, referenced = True,
    sym_data = LambdaSym (convertNullable rt) (map convert ps) []\<rparr>"
  have ok: "entry_ok (''$lambda'', ?sy)" by (simp add: entry_ok_def entry_kind_def list_all_iff)
  have "admits ''$lambda'' (sym_data ?sy) s" if "wf_sem s" for s
    using wf_entries [of "scopes s" "cur s"] that
    by (auto simp: admits_def sig_def wf_sem_def entry_ok_def list_all_iff)
  then show "sp lambdas (\<lambda>s. cur s = c) (addSymbol c ''$lambda'' ?sy) (\<lambda>r. ref_kind r 3)"
    by (intro sp_conseq [OF sp_addSymbol [OF ok, where P = "\<lambda>s. cur s = c" and c = c]]) (auto simp: ref_kind_def kind_at_def)
qed simp

lemma sp_set_scope_kind: "sp N (ref_kind r k) (set_scope r i) (\<lambda>_. ref_kind r k)"
  unfolding set_scope_def
  by (rule sp_conseq [OF sp_stable [OF sp_upd_symbol [where P = "ref_kind r k"] stable_rules(3) [of r k]]])
    (auto simp: ref_kind_def kind_at_def wf_sem_def intro: wf_data)

lemma sp_enterLambdaScope:
  "sp UNIV (\<lambda>s. ref_kind r 3 s \<and> body_scope i s) (enterLambdaScope r i params) any"
  unfolding enterLambdaScope_def
proof (rule sp_bind)
  show "sp UNIV (\<lambda>s. ref_kind r 3 s \<and> body_scope i s)
      (getS (\<lambda>s. func_params (sym_data (get_symbol (scopes s) r)))) (\<lambda>ps s. body_scope i s \<and> list_all typed ps)"
  proof (rule spI)
    fix s ps s'
    assume wf: "wf_sem s" and P: "ref_kind r 3 s \<and> body_scope i s"
      and g: "getS (\<lambda>s. func_params (sym_data (get_symbol (scopes s) r))) s = Inr (ps, s')"
    have "data_ok (sym_data (get_symbol (scopes s) r))" using wf_data wf P by (simp add: wf_sem_def ref_kind_def)
    then show "step UNIV s s' \<and> lkp_stack s' = lkp_stack s \<and> body_scope i s' \<and> list_all typed ps"
      using P g wf by (cases "sym_data (get_symbol (scopes s) r)") (auto simp: ref_kind_def kind_at_def func_params_def)
  qed simp
  show "sp UNIV (\<lambda>s. body_scope i s \<and> list_all typed ps) (bindS (mapS (addParam i) (zip params ps)) (\<lambda>_. retS ())) any" for ps
  proof (rule sp_case)
    assume "list_all typed ps"
    then show "sp UNIV (\<lambda>s. body_scope i s \<and> list_all typed ps)
        (bindS (mapS (addParam i) (zip params ps)) (\<lambda>_. retS ())) any"
      by (intro sp_conseq [OF sp_bind [OF sp_addParams sp_ret [where Q = any]]]) auto
  qed simp
qed

lemma sp_lambda_body:
  assumes "sp UNIV in_func visit any"
  shows "sp lambdas P (bindS (insert_lambda ps rt l) (\<lambda>r. bindS (enterScope_sym closure_scope r) (\<lambda>i.
     bindS (bindS (set_scope r i) (\<lambda>_. bindS (enterLambdaScope r i params) (\<lambda>_.
       bindS visit (\<lambda>_. leaveFuncScope r)))) (\<lambda>t. bindS leaveScope (\<lambda>_. retS t))))) any"
proof (rule sp_bind [OF sp_insert_lambda])
  fix r
  have mid: "sp UNIV (\<lambda>s. (ref_kind r 3 s \<and> in_func s) \<and> cur s = i)
      (bindS (set_scope r i) (\<lambda>_. bindS (enterLambdaScope r i params) (\<lambda>_. bindS visit (\<lambda>_. leaveFuncScope r)))) any" for i
  proof -
    have 1: "sp UNIV (\<lambda>s. (ref_kind r 3 s \<and> in_func s) \<and> cur s = i) (set_scope r i)
        (\<lambda>_ s. ref_kind r 3 s \<and> in_func s \<and> cur s = i)"
      using sp_stable [OF sp_set_scope_kind stable_conj [OF stable_rules(1) stable_rules(2)], of UNIV r 3 i i]
      by (simp add: conj_assoc)
    have 2: "sp UNIV (\<lambda>s. ref_kind r 3 s \<and> in_func s \<and> cur s = i) (enterLambdaScope r i params)
        (\<lambda>_ s. in_func s \<and> ref_kind r 3 s)"
      by (rule sp_conseq [OF sp_stable [OF sp_enterLambdaScope stable_conj [OF stable_rules(1) stable_rules(3)]]])
        (auto dest: in_func_body)
    have 3: "sp UNIV (\<lambda>s. in_func s \<and> ref_kind r 3 s) visit (\<lambda>_ s. valid_ref (scopes s) r)"
      by (rule sp_conseq [OF sp_stable [OF assms stable_rules(3)]]) (auto simp: ref_kind_def)
    show ?thesis
      by (rule sp_bind [OF 1], rule sp_bind [OF 2], rule sp_bind [OF 3], rule sp_leaveFuncScope)
  qed
  have "ref_kind r 3 (pushed s ty sy m)" if "ref_kind r 3 s" for s ty sy m
    using grows_ref [OF grows_pushed [of 0 s ty sy m], of r] that by (simp add: ref_kind_def)
  then show "sp lambdas (ref_kind r 3) (bindS (enterScope_sym closure_scope r) (\<lambda>i.
     bindS (bindS (set_scope r i) (\<lambda>_. bindS (enterLambdaScope r i params) (\<lambda>_.
       bindS visit (\<lambda>_. leaveFuncScope r)))) (\<lambda>t. bindS leaveScope (\<lambda>_. retS t)))) any"
    by (intro sp_in_symbol_scope [OF mid])
      (auto simp: sym_for_def in_func_pushed ref_kind_def intro: sp_ret)
qed

lemma bindS_retS: "bindS (retS x) f = f x"
  by (rule ext) (simp add: bindS_def retS_def)

lemma visit_lambda:
  assumes "sp UNIV in_func visit any"
  shows "expr_visit (inferLambda l params ret bl body visit)"
proof (rule expr_visitI)
  fix k :: ExprKind and n :: name and es
  assume k: "k \<noteq> K_expr"
  let ?on = "on ((k, n) # es)" and ?top = "top_typed ((k, n) # es)"
  have last: "ce lambdas ?on (bindS (setType (makeLetVal (Some (getLambdaType ps (Some t))))) (\<lambda>_.
      bindS (liftE (checkMissingRet (is_void (Some t)) l bl body)) (\<lambda>_. retS ()))) (\<lambda>_. ?top)" for ps t
    by (rule ce_bind [OF ce_setType [OF _ k]], simp add: typed_def makeLetVal_def,
        rule ce_bind [OF ce_lift [where Q = "\<lambda>_. ?top"] ce_ret])
      (auto dest: checkMissingRet_tolerable)
  have "ce lambdas ?on (bindS (validateOpt ret) (\<lambda>rt. bindS (validateParams (map param_pair params)) (\<lambda>ps.
      bindS (bindS (insert_lambda ps rt l) (\<lambda>r. bindS (enterScope_sym closure_scope r) (\<lambda>i.
       bindS (bindS (set_scope r i) (\<lambda>_. bindS (enterLambdaScope r i params) (\<lambda>_.
         bindS visit (\<lambda>_. leaveFuncScope r)))) (\<lambda>t. bindS leaveScope (\<lambda>_. retS t)))))
      (\<lambda>t. bindS (setType (makeLetVal (Some (getLambdaType ps (Some t))))) (\<lambda>_.
        bindS (liftE (checkMissingRet (is_void (Some t)) l bl body)) (\<lambda>_. retS ())))))) (\<lambda>_. ?top)"
    by (rule ce_bind [OF ce_sp_on [OF sp_validateOpt]], rule ce_bind [OF ce_sp_on [OF sp_validateParams]],
        rule ce_bind [OF ce_sp_on [OF sp_lambda_body [OF assms]] last])
  then show "ce lambdas ?on (inferLambda l params ret bl body visit) (\<lambda>_. ?top)"
    by (simp add: inferLambda_def bindS_assoc bindS_retS)
qed

subsection \<open>Statements\<close>

lemma sp_getExprType: "expr_visit v \<Longrightarrow> sp UNIV P (getExprType v l t) (\<lambda>et _. typed et)"
  by (rule sp_conseq [OF expr_visit.exprType_sp]) auto

lemma sp_visitCond: "expr_visit v \<Longrightarrow> sp UNIV P (visitCond v l) any"
  unfolding visitCond_def by (rule sp_seq [OF sp_any [OF sp_getExprType] sp_ret]) auto

lemma sp_checkFlowKeyword: "sp N P (checkFlowKeyword kw l) any"
proof (rule spI)
  fix s
  assume wf: "wf_sem s"
  then have "findNearestNot block_scope (scopes s) (cur s) \<noteq> Inl e" for e
    using climb_None [of _ "scopes s" "cur s"] wf_root [of "scopes s"]
    by (fastforce simp: findNearestNot_def wf_sem_def split: option.splits)
  then show "tolerable e" if "checkFlowKeyword kw l s = Inl e" for e
    using that by (auto simp: checkFlowKeyword_def bindE_Inl_iff split: if_splits)
  show "step N s s' \<and> lkp_stack s' = lkp_stack s \<and> True" if "checkFlowKeyword kw l s = Inr (x, s')" for x s'
    using that wf by (auto simp: checkFlowKeyword_def split: if_splits)
qed

lemma return_symbol_ok:
  assumes "wf_sem s" and "in_func s"
  shows "\<exists>r. return_symbol s = Inr r \<and> valid_ref (scopes s) r"
proof -
  have wfs: "wf_scopes (scopes s)" "cur s < length (scopes s)" using assms(1) by (simp_all add: wf_sem_def)
  obtain i where i: "climb (\<lambda>i. if stype (scopes s ! i) = func_scope \<or> stype (scopes s ! i) = closure_scope
      then Some i else None) (scopes s) (cur s) = Some i"
    using assms(2) by (auto simp: in_func_climb)
  have "i \<le> cur s" "stype (scopes s ! i) = func_scope \<or> stype (scopes s ! i) = closure_scope"
    using climb_Some [OF i wfs] by (auto split: if_splits)
  moreover from this(1) have "scope_ok (scopes s) i" using wfs by (simp add: wf_scopes_def)
  ultimately obtain r where r: "scope_sym (scopes s ! i) = Some r" "valid_ref (scopes s) r" "kind_at (scopes s) r \<in> {2, 3}"
    by (auto simp: scope_ok_def)
  then have "\<exists>r'. (case sym_data (get_symbol (scopes s) r) of FuncSym _ _ _ \<Rightarrow> Inr r | LambdaSym _ _ _ \<Rightarrow> Inr r
      | _ \<Rightarrow> Inl (Undefined ''unreachable'')) = (Inr r' :: sym_ref res) \<and> r' = r"
    by (cases "sym_data (get_symbol (scopes s) r)") (auto simp: kind_at_def)
  then show ?thesis using i r by (auto simp: return_symbol_def findNearestEither_def)
qed

lemma sp_set_symbol_ret: "sp N (\<lambda>s. valid_ref (scopes s) r) (set_symbol_ret r t) any"
  unfolding set_symbol_ret_def by (auto split: option.splits intro: sp_ret sp_upd_data)

lemma valid_ref_stable: "stable (\<lambda>s. valid_ref (scopes s) r)"
  unfolding stable_def step_def using grows_ref by blast

lemma sp_travReturn:
  assumes "\<And>v el. e = Some (v, el) \<Longrightarrow> expr_visit v"
  shows "sp UNIV in_func (travReturn l e) any"
proof -
  let ?v = "\<lambda>r s. valid_ref (scopes s) r"
  have by_expr: "sp UNIV (?v r) (bindS (getExprType v el ret) (\<lambda>t. if ret \<noteq> None then retS () else set_symbol_ret r (et_type t))) any"
    if "expr_visit v" for r v el and ret :: "rty option"
    by (rule sp_bind [OF sp_keep [OF sp_any [OF sp_getExprType [OF that]] valid_ref_stable]])
      (auto intro: sp_ret sp_set_symbol_ret)
  have branch: "sp UNIV (?v r) (case e of
      Some (visit, el) \<Rightarrow> bindS (getExprType visit el ret) (\<lambda>t. if ret \<noteq> None then retS () else set_symbol_ret r (et_type t))
    | None \<Rightarrow> (case ret of
        Some t \<Rightarrow> if compareTypes ret (Some (RBtn Void)) then retS () else failS (Fatal l (''Expected '' @ typeDesc t @ '' but got void''))
      | None \<Rightarrow> set_symbol_ret r (Some (RBtn Void)))) any" for r and ret :: "rty option"
    using by_expr assms by (auto split: option.splits intro: sp_ret sp_fail sp_set_symbol_ret)
  have get: "sp UNIV in_func (bindS (getS return_symbol) (\<lambda>rr. liftE rr)) ?v"
  proof (rule spI)
    fix s
    assume "wf_sem s" "in_func s"
    then show "bindS (getS return_symbol) (\<lambda>rr. liftE rr) s = Inl e' \<Longrightarrow> tolerable e'"
      "bindS (getS return_symbol) (\<lambda>rr. liftE rr) s = Inr (x, s') \<Longrightarrow> step UNIV s s' \<and> lkp_stack s' = lkp_stack s \<and> ?v x s'"
      for e' x s' using return_symbol_ok [of s] by (auto simp: bindS_Inl)
  qed
  show ?thesis
    unfolding travReturn_def bindS_assoc [symmetric, where m = "getS return_symbol" and f = liftE]
    by (rule sp_bind [OF get], rule sp_bind [OF sp_get [where Q = "\<lambda>_ s. valid_ref (scopes s) _"] branch])
qed

lemma sp_objectType:
  assumes "\<And>v el. e = Some (v, el) \<Longrightarrow> expr_visit v"
  shows "sp UNIV P (objectType type e l) (\<lambda>t _. t \<noteq> None)"
proof -
  have val: "sp UNIV (\<lambda>_. True) (case e of None \<Rightarrow> retS null_type | Some (visit, el) \<Rightarrow> getExprType visit el t)
      (\<lambda>et _. e \<noteq> None \<longrightarrow> typed et)" for t
    using assms by (auto split: option.splits intro: sp_ret sp_conseq [OF sp_getExprType])
  show ?thesis
    unfolding objectType_def
    by (rule sp_seq [OF sp_validateOpt], rule sp_bind [OF val])
      (auto intro!: sp_fail sp_ret simp: typed_def)
qed

lemma sp_travObject:
  assumes "\<And>v el. e = Some (v, el) \<Longrightarrow> expr_visit v" and "\<And>t. t \<noteq> None \<Longrightarrow> typed (mk t)"
  shows "sp UNIV P (travObject n l external type e mk) any"
proof -
  have ins: "sp UNIV (\<lambda>_. t \<noteq> None) (bindS (insert_object n l external (mk t)) (\<lambda>_. retS ())) any" for t
    by (rule sp_case [where A = "t \<noteq> None"], simp,
        rule sp_conseq [OF sp_seq [OF sp_insert_object [OF assms(2)] sp_ret]]) auto
  show ?thesis unfolding travObject_def by (rule sp_bind [OF sp_objectType [OF assms(1)] ins])
qed

lemma makeVal_typed: "t \<noteq> None \<Longrightarrow> typed (makeVarVal t)" "t \<noteq> None \<Longrightarrow> typed (makeLetVal t)"
  by (simp_all add: typed_def makeVarVal_def makeLetVal_def)

lemma trav_tolerable:
  "travCompAssign l opr a b = Inl e \<Longrightarrow> tolerable e"
  "travIncrDecr l incr a = Inl e \<Longrightarrow> tolerable e"
  by (auto simp: travCompAssign_def travIncrDecr_def bindE_Inl_iff validOp_assign_total known_failures_def
      split: option.splits if_splits)

subsection \<open>The visitors\<close>

fun decl_pre :: "decl \<Rightarrow> sem \<Rightarrow> bool" where
  "decl_pre (Func _ _ _ n _ _ _ _) s = may_declare n s"
| "decl_pre (ExtFunc n _ _ _ _ _) s = may_declare n s"
| "decl_pre _ s = True"

lemma in_func_decl_pre: "in_func s \<Longrightarrow> decl_pre d s"
  by (cases d) (auto simp: may_declare_def in_func_def in_module_def)

lemma visits_ok_map: "(\<And>e. e \<in> set es \<Longrightarrow> expr_visit (f e)) \<Longrightarrow> visits_ok (map (\<lambda>e. (f e, expr_loc e)) es)"
  by (auto simp: visits_ok_def)

lemma sp_nodes:
  assumes "\<And>st. st \<in> set nodes \<Longrightarrow> sp UNIV in_func (f st) any"
  shows "sp UNIV in_func (bindS (mapS f nodes) (\<lambda>_. retS ())) any"
proof -
  have "sp UNIV in_func (f st) (\<lambda>_ s. in_func s \<and> True)" if "st \<in> set nodes" for st
    using sp_stable [OF assms [OF that] stable_rules(1)] by (rule sp_conseq) auto
  from sp_mapS [where R = "\<lambda>_. True" and f = f and xs = nodes, OF this] show ?thesis
    by (rule sp_seq [OF sp_any sp_ret]) auto
qed

end
