(* ===== verification/Semantic_Safety.thy ===== *)
theory Semantic_Safety
  imports Sem_Safety
begin

section \<open>Contracts of the visitors\<close>

text \<open>
  The visitors call each other; that all of them keep their contracts is one induction over their
  recursion, with a case per kind of expression, statement, declaration and assignment.
\<close>

lemma sp_wider: "sp {n} P m any \<Longrightarrow> sp UNIV P m any"
  by (erule sp_conseq) auto

lemma sp_true: "sp N (\<lambda>_. True) m Q \<Longrightarrow> sp N P m Q"
  by (erule sp_conseq) auto

lemma sp_then:
  assumes "sp UNIV in_func m any" and "\<And>x. sp UNIV in_func (f x) any"
  shows "sp UNIV in_func (bindS m f) any"
  by (rule sp_bind [OF sp_conseq [OF sp_stable [OF assms(1) stable_rules(1)]] assms(2)]) auto

lemma sp_expr: "expr_visit v \<Longrightarrow> sp UNIV P (getExprType v l t) any"
  by (rule sp_any [OF sp_getExprType]) auto

lemma sp_block_scopes:
  assumes "sp UNIV in_func m any"
  shows "sp UNIV in_func (inScope block_scope m) any" "sp UNIV in_func (inScope flow_scope m) any"
  by (rule sp_inScope [OF assms], simp)+

lemma visitors_safe:
  "expr_visit (infer_expr ld e)"
  "sp UNIV in_func (trav_stat ld st) any"
  "sp UNIV in_func (trav_cases ld' t fd cs) any"
  "sp UNIV (decl_pre d) (trav_decl ld'' d) any"
  "sp UNIV (\<lambda>_. True) (trav_asgn ld''' a) any"
proof (induction ld e and ld st and ld' t fd cs and ld'' d and ld''' a
    rule: infer_expr_trav_stat_trav_cases_trav_decl_trav_asgn.induct)
  case (1 ld l lhs opr rhs)
  then show ?case by (simp add: visit_binary)
next
  case (2 ld l opr e)
  then show ?case by (simp add: visit_unary)
next
  case (3 ld l func args)
  then show ?case by (simp add: visit_call visits_ok_map)
next
  case (4 ld l object member)
  then show ?case by (simp add: visit_member)
next
  case (5 ld l object index)
  then show ?case by (simp add: visit_subscript)
next
  case (6 ld l n)
  then show ?case by (simp add: visit_ident)
next
  case (7 ld l cond troo fols)
  then show ?case by (simp add: visit_ternary)
next
  case (8 ld l type e)
  then show ?case by (simp add: visit_make)
next
  case (9 ld l litr)
  then show ?case by (simp add: visit_literals)
next
  case (10 ld l litr)
  then show ?case by (simp add: visit_literals)
next
  case (11 ld l litr)
  then show ?case by (simp add: visit_literals)
next
  case (12 ld l b)
  then show ?case by (simp add: visit_literals)
next
  case (13 ld l es)
  then show ?case by (simp add: visit_array visits_ok_map)
next
  case (14 ld l es)
  then show ?case by (simp add: visit_init visits_ok_map)
next
  case (15 ld l params ret bl body)
  then show ?case by (simp add: visit_lambda sp_nodes)
next
  case (16 ld l nodes)
  then show ?case by (simp add: sp_block_scopes sp_nodes)
next
  case (17 ld l cond body elseBody)
  then show ?case
    by (auto intro!: sp_block_scopes sp_then sp_visitCond sp_ret split: option.splits)
next
  case (18 ld l e cases alw)
  then show ?case by (auto intro!: sp_then sp_expr)
next
  case (19 ld)
  then show ?case by (auto intro: sp_ret)
next
  case (20 ld l)
  then show ?case by (simp add: sp_checkFlowKeyword)
next
  case (21 ld l)
  then show ?case by (simp add: sp_checkFlowKeyword)
next
  case (22 ld l e)
  then show ?case by (auto intro!: sp_travReturn split: option.splits)
next
  case (23 ld l cond body)
  then show ?case by (auto intro!: sp_block_scopes sp_then sp_visitCond)
next
  case (24 ld l init cond incr body)
  then show ?case
    by (auto intro!: sp_block_scopes sp_then sp_visitCond sp_ret intro: sp_true split: option.splits)
next
  case (25 ld d)
  then show ?case by (auto intro: sp_any dest: in_func_decl_pre)
next
  case (26 ld a)
  then show ?case by (auto intro: sp_true)
next
  case (27 ld t fd)
  then show ?case by (auto intro: sp_ret)
next
  case (28 ld t fd cl ce body cases)
  then show ?case
    by (auto intro!: sp_then sp_block_scopes sp_expr sp_ret sp_fail split: option.splits)
next
  case (29 ld l external receiver n params ret bl body)
  then show ?case by (auto intro!: sp_wider [OF sp_conseq [OF sp_travFunc]] sp_nodes)
next
  case (30 ld n receiver params ret m a)
  then show ?case
    by (auto intro!: sp_wider [OF sp_conseq [OF sp_seq [OF sp_insert_ext_func sp_ret]]])
next
  case (31 ld b)
  then show ?case by (auto intro: sp_ret)
next
  case (32 ld l external n type e)
  then show ?case by (auto intro!: sp_travObject makeVal_typed split: option.splits)
next
  case (33 ld l external n type e)
  then show ?case by (auto intro!: sp_travObject makeVal_typed split: option.splits)
next
  case (34 ld l n type strong)
  then show ?case by (auto intro!: sp_seq [OF sp_validateType] sp_seq [OF sp_wider [OF sp_insert_alias]] sp_ret)
next
  case (35 ld l dst opr src)
  then show ?case by (auto intro!: sp_seq [OF sp_expr] sp_lift dest: trav_tolerable)
next
  case (36 ld l e incr)
  then show ?case by (auto intro!: sp_seq [OF sp_expr] sp_lift dest: trav_tolerable)
next
  case (37 ld l dst src)
  then show ?case by (auto intro!: sp_seq [OF sp_expr] sp_fail sp_ret)
next
  case (38 ld l n e)
  then show ?case by (auto intro!: sp_travObject makeVal_typed)
next
  case (39 ld l func args cl)
  then show ?case by (auto intro!: sp_seq [OF sp_expr] visit_call visits_ok_map sp_fail sp_ret)
qed

interpretation infer: expr_visit "infer_expr ld e" for ld e
  by (rule visitors_safe(1))

end
