(* ===== verification/Module_Safety.thy ===== *)
theory Module_Safety
  imports Semantic_Safety
begin

section \<open>Safety of the semantic phase\<close>

text \<open>
  The contracts of the visitors, carried to the modules: a module is compiled in a scope of its own, a
  list of modules in the order that \<^verbatim>\<open>findModuleOrder\<close> returns, and the symbols of one call are those the
  next begins with. \<open>wf_symbols\<close> is the invariant of the symbols between two calls.
\<close>

subsection \<open>The declarations of a module\<close>

text \<open>
  A function of a source cannot have the name under which lambdas are entered in the tables: it is not
  an identifier.
\<close>

fun func_name :: "decl \<Rightarrow> name option" where
  "func_name (Func _ _ _ n _ _ _ _) = Some n"
| "func_name (ExtFunc n _ _ _ _ _) = Some n"
| "func_name _ = None"

definition source_names :: "ast \<Rightarrow> bool" where
  "source_names a \<longleftrightarrow> list_all (\<lambda>d. func_name d \<noteq> Some ''$lambda'') (ast_global a)"

lemma source_decl_pre: "func_name d \<noteq> Some ''$lambda'' \<Longrightarrow> decl_pre d s"
  by (cases d) (auto simp: may_declare_def)

lemma sp_traverse:
  assumes "source_names a"
  shows "sp UNIV P (traverse ld (ast_global a)) any"
proof -
  have "sp UNIV (\<lambda>_. True) (trav_decl ld d) any" if "d \<in> set (ast_global a)" for d
    using assms that
    by (auto simp: source_names_def list_all_iff intro!: sp_any [OF visitors_safe(4)] source_decl_pre)
  then show ?thesis
    unfolding traverse_def by (intro sp_seq [OF sp_mapS_any] sp_ret) auto
qed

subsection \<open>Modules\<close>

definition wf_symbols :: "symbols \<Rightarrow> bool" where
  "wf_symbols syms \<longleftrightarrow> wf_scopes (syms_scopes syms) \<and> syms_global syms < length (syms_scopes syms)
     \<and> stype (syms_scopes syms ! syms_global syms) = ns_scope"

text \<open>Steps that cannot fail and leave the scopes as they are.\<close>

definition quiet :: "'a sem_m \<Rightarrow> bool" where
  "quiet m \<longleftrightarrow> (\<forall>s. \<exists>x s'. m s = Inr (x, s') \<and> scopes s' = scopes s)"

lemma quiet_rules:
  "quiet (retS x)"
  "quiet m \<Longrightarrow> (\<And>x. quiet (f x)) \<Longrightarrow> quiet (bindS m f)"
  "(\<And>s. scopes (g s) = scopes s) \<Longrightarrow> quiet (modS g)"
  "quiet (warnS l msg)"
proof -
  show "quiet (bindS m f)" if m: "quiet m" and f: "\<And>x. quiet (f x)"
    unfolding quiet_def
  proof
    fix s
    obtain x s' where 1: "m s = Inr (x, s')" "scopes s' = scopes s" using m unfolding quiet_def by blast
    obtain y s'' where "f x s' = Inr (y, s'')" "scopes s'' = scopes s'" using f [of x] unfolding quiet_def by blast
    then show "\<exists>y s''. bindS m f s = Inr (y, s'') \<and> scopes s'' = scopes s" using 1 by (simp add: bindS_def)
  qed
qed (auto simp: quiet_def retS_def modS_def warnS_def)

lemma quiet_mapS: "(\<And>x. quiet (f x)) \<Longrightarrow> quiet (mapS f xs)"
  by (induction xs) (auto intro!: quiet_rules)

lemma quiet_unusedScope: "quiet (unusedScope sc)"
  unfolding unusedScope_def warnUnused_def by (auto intro!: quiet_rules quiet_mapS)

lemma checkScopes_ok:
  assumes "1 < length (scopes s)"
  shows "\<exists>s'. checkScopes s = Inr ((), s') \<and> scopes s' = scopes s"
proof -
  have "quiet (bindS (mapS unusedScope (tl (scopes s))) (\<lambda>_. retS ()))"
    by (intro quiet_rules quiet_mapS quiet_unusedScope)
  then show ?thesis using assms by (fastforce simp: quiet_def checkScopes_def)
qed

lemma builtin_scope:
  "stype makeBuiltinModule = ns_scope" "parent makeBuiltinModule = None"
  "list_all entry_ok (table makeBuiltinModule)"
  "list_all (\<lambda>e. entry_kind e \<noteq> 2) (table makeBuiltinModule)"
  by code_simp+

lemma wf_init: "wf_symbols initModules"
proof -
  have "apart (sig [makeBuiltinModule] 0)"
    using builtin_scope(4) by (auto simp: apart_def sig_def list_all_iff)
  then show ?thesis
    using builtin_scope
    by (simp add: wf_symbols_def initModules_def wf_scopes_def scope_ok_def table_ok_def)
qed

subsection \<open>A module\<close>

text \<open>
  What compiling a module does to the symbols: the scopes there were keep their parents, kinds and
  names, the scope of the module is new and a child of the scope of the module before it, and the
  declarations are appended.
\<close>

definition module_added :: "ast \<Rightarrow> symbols \<Rightarrow> symbols \<Rightarrow> bool" where
  "module_added a syms syms' \<longleftrightarrow>
     grows {} 0 (syms_scopes syms) (syms_scopes syms')
     \<and> syms_global syms' = length (syms_scopes syms)
     \<and> syms_global syms' < length (syms_scopes syms')
     \<and> parent (syms_scopes syms' ! syms_global syms') = Some (syms_global syms)
     \<and> smodule (syms_scopes syms' ! syms_global syms') = ast_name a
     \<and> syms_decls syms' = syms_decls syms @ ast_global a"

lemma compileModuleImpl_cases:
  assumes wf: "wf_symbols syms" and a: "source_names a"
  shows "case compileModuleImpl ld a (syms, w) of
      Inl e \<Rightarrow> tolerable e
    | Inr (syms', w') \<Rightarrow> wf_symbols syms' \<and> module_added a syms syms'"
proof -
  let ?s = "module_context syms (ast_name a) w"
  let ?p = "pushed ?s ns_scope None (ast_name a)"
  have p: "wf_sem ?p"
    by (rule wf_pushed) (use wf in \<open>auto simp: wf_symbols_def module_context_def sym_for_def\<close>)
  have ns: "in_module ?p" by (simp add: in_module_def pushed_def make_scope_def)
  note c = spD [OF sp_stable [OF sp_traverse [OF a] stable_rules(5)] p, of "\<lambda>_. True" ld]
  show ?thesis
  proof (cases "traverse ld (ast_global a) ?p")
    case (Inl e)
    then show ?thesis using c ns by (simp add: compileModuleImpl_def bindS_def enter_simps)
  next
    case (Inr r)
    then obtain s' where r: "traverse ld (ast_global a) ?p = Inr ((), s')" by (cases r) auto
    have eq: "compileModuleImpl ld a (syms, w)
        = Inr (\<lparr>syms_scopes = scopes s', syms_global = cur ?p, syms_decls = syms_decls syms @ ast_global a\<rparr>,
           sem_warns s')"
      using r by (simp add: compileModuleImpl_def bindS_def enter_simps retS_def pushed_def module_context_def)
    have st: "step UNIV ?p s'" "in_module s'" using c ns r by auto
    then have g: "grows UNIV (cur ?p) (scopes ?p) (scopes s')" and c: "cur s' = cur ?p"
      by (simp_all add: step_def)
    have "grows {} 0 (scopes ?s) (scopes s')"
      using g by (auto simp: pushed_def intro: grows_init)
    then show ?thesis
      using step_wf [OF st(1)] st(2) c g
      by (auto simp: eq wf_symbols_def wf_sem_def in_module_def module_added_def pushed_def module_context_def
          grows_def make_scope_def)
  qed
qed

lemma checkSymbols_ok:
  assumes "1 < length (syms_scopes syms)"
  shows "\<exists>w'. checkSymbols (syms, w) = Inr (syms, w')"
  using checkScopes_ok [of "module_context syms [] w"] assms by (auto simp: checkSymbols_def module_context_def)

lemma wf_symbols_nonempty: "wf_symbols syms \<Longrightarrow> 0 < length (syms_scopes syms)"
  by (auto simp: wf_symbols_def)

text \<open>Modules compiled one after the other.\<close>

fun modules_added :: "ast list \<Rightarrow> symbols \<Rightarrow> symbols \<Rightarrow> bool" where
  "modules_added [] syms syms' = (syms' = syms)"
| "modules_added (a # as) syms syms' = (\<exists>syms1. module_added a syms syms1 \<and> modules_added as syms1 syms')"

lemma modules_added_snoc:
  "modules_added as syms syms1 \<Longrightarrow> module_added a syms1 syms' \<Longrightarrow> modules_added (as @ [a]) syms syms'"
  by (induction as arbitrary: syms) auto

lemma modules_added_decls:
  "modules_added as syms syms' \<Longrightarrow> syms_decls syms' = syms_decls syms @ concat (map ast_global as)"
  by (induction as arbitrary: syms) (auto simp: module_added_def)

lemma modules_added_grows:
  "modules_added as syms syms' \<Longrightarrow>
     grows {} 0 (syms_scopes syms) (syms_scopes syms')
     \<and> length (syms_scopes syms) + length as \<le> length (syms_scopes syms')"
proof (induction as arbitrary: syms)
  case (Cons a as)
  then obtain syms1 where 1: "module_added a syms syms1" and 2: "modules_added as syms1 syms'" by auto
  show ?case using Cons.IH [OF 2] 1 by (auto simp: module_added_def intro: grows_trans)
qed simp

lemma findModuleOrder_all: "findModuleOrder asts c = Inr ord \<Longrightarrow> set ord = {..<length asts}"
  using visit_all_result [of asts c] by (auto simp: findModuleOrder_def)

lemma refused_fatal: "refused asts c e \<Longrightarrow> tolerable e"
  by (auto simp: refused_def cyclic_error_def missing_error_def)

lemma findModuleOrder_fatal:
  assumes "findModuleOrder asts c = Inl e"
  shows "tolerable e"
proof (cases "checkDuplicateModules asts c")
  case (Inl e')
  then show ?thesis
    using assms checkDuplicateModules_error [OF Inl] by (auto simp: findModuleOrder_def duplicate_error_def)
next
  case (Inr u)
  then have "visit_all asts c (Visitor asts) = Inl e" using assms by (simp add: findModuleOrder_def bindE_Inl_iff)
  then show ?thesis using visit_all_result [of asts c] refused_fatal by simp
qed

lemma foldE_modules:
  assumes wf: "wf_symbols syms" and a: "\<forall>i \<in> set ord. source_names (asts ! i)"
  shows "case foldE (\<lambda>i. compileModuleImpl ld (asts ! i)) ord (syms, w) of
      Inl e \<Rightarrow> tolerable e
    | Inr (syms', w') \<Rightarrow> wf_symbols syms' \<and> modules_added (map ((!) asts) ord) syms syms'"
proof -
  let ?P = "\<lambda>is (syms', w' :: (name \<times> loc \<times> string) list). wf_symbols syms' \<and> modules_added (map ((!) asts) is) syms syms'"
  have "case foldE (\<lambda>i. compileModuleImpl ld (asts ! i)) ord (syms, w) of Inl e \<Rightarrow> tolerable e | Inr r \<Rightarrow> ?P ord r"
  proof (rule foldE_rule [where P = ?P])
    show "?P [] (syms, w)" using wf by simp
    fix ys i zs r
    assume i: "ord = ys @ i # zs" and P: "?P ys r"
    obtain syms1 w1 where r: "r = (syms1, w1)" by (cases r)
    have "case compileModuleImpl ld (asts ! i) (syms1, w1) of
        Inl e \<Rightarrow> tolerable e | Inr (syms', w') \<Rightarrow> wf_symbols syms' \<and> module_added (asts ! i) syms1 syms'"
      by (rule compileModuleImpl_cases) (use P r i a in auto)
    then show "case compileModuleImpl ld (asts ! i) r of Inl e \<Rightarrow> tolerable e | Inr r' \<Rightarrow> ?P (ys @ [i]) r'"
      using P r by (auto split: sum.splits intro: modules_added_snoc)
  qed
  then show ?thesis by (auto split: sum.splits)
qed

lemma compileModules_order_cases:
  assumes wf: "wf_symbols syms" and a: "\<forall>i \<in> set ord. source_names (asts ! i)"
    and ne: "ord \<noteq> [] \<or> 1 < length (syms_scopes syms)"
  shows "case compileModules_order ld syms ord asts of
      Inl e \<Rightarrow> tolerable e
    | Inr (syms', w) \<Rightarrow> wf_symbols syms' \<and> modules_added (map ((!) asts) ord) syms syms'"
proof (cases "foldE (\<lambda>i. compileModuleImpl ld (asts ! i)) ord (syms, [])")
  case (Inl e)
  then show ?thesis using foldE_modules [OF wf a, where ld = ld and w = "[]"] by (simp add: compileModules_order_def)
next
  case (Inr r)
  obtain syms' w where r: "r = (syms', w)" by (cases r)
  have 1: "wf_symbols syms'" "modules_added (map ((!) asts) ord) syms syms'"
    using foldE_modules [OF wf a, where ld = ld and w = "[]"] Inr r by auto
  have "1 < length (syms_scopes syms')"
    using modules_added_grows [OF 1(2)] wf_symbols_nonempty [OF wf] ne by (cases ord) (auto simp del: length_greater_0_conv)
  then obtain w' where "checkSymbols (syms', w) = Inr (syms', w')" using checkSymbols_ok by blast
  then show ?thesis using Inr r 1 by (simp add: compileModules_order_def)
qed

lemma compileModules_cases:
  assumes wf: "wf_symbols syms" and a: "list_all source_names asts"
    and ne: "asts \<noteq> [] \<or> 1 < length (syms_scopes syms)"
  shows "case compileModules ld syms asts of
      Inl e \<Rightarrow> tolerable e
    | Inr (syms', w) \<Rightarrow> wf_symbols syms'
        \<and> (\<exists>ord. findModuleOrder asts [] = Inr ord \<and> modules_added (map ((!) asts) ord) syms syms')"
proof (cases "findModuleOrder asts []")
  case (Inl e)
  then show ?thesis using findModuleOrder_fatal [OF Inl] by (simp add: compileModules_def)
next
  case (Inr ord)
  then have ord: "set ord = {..<length asts}" by (rule findModuleOrder_all)
  then have s: "\<forall>i \<in> set ord. source_names (asts ! i)" using a by (simp add: list_all_length)
  have "0 \<in> set ord" if "asts \<noteq> []" using that ord by simp
  then have "ord \<noteq> [] \<or> 1 < length (syms_scopes syms)" using ne by (metis empty_iff empty_set)
  from compileModules_order_cases [OF wf s this, of ld] show ?thesis
    by (cases "compileModules_order ld syms ord asts") (auto simp: compileModules_def Inr)
qed

subsection \<open>What the semantic phase promises\<close>

text \<open>
  C2: the semantic phase is safe. When compiling modules from well-formed symbols fails, it ends in an error message
  or in one of the failures that \<open>known_failures\<close> and \<open>literal_failures\<close> list: no null pointer is
  followed, no index leaves a table, no stack is popped when empty, no other assertion and no
  unreachable point is reached. This needs a module to compile, and no function of a module named
  \<^verbatim>\<open>$lambda\<close>, which is no identifier of a source.
\<close>

theorem compileModules_safe:
  assumes "wf_symbols syms" and "list_all source_names asts"
    and "asts \<noteq> [] \<or> 1 < length (syms_scopes syms)" and "compileModules ld syms asts = Inl e"
  shows "(\<exists>l msg. e = Fatal l msg) \<or> (\<exists>msg \<in> known_failures \<union> literal_failures. e = Undefined msg)"
  using compileModules_cases [OF assms(1-3), of ld] assms(4) by (cases e) auto

theorem compileModules_safe_witness:
  "\<exists>e. compileModules \<lparr>prec = 53, emin = -1022, emax = 1023\<rparr> initModules
       [\<lparr>ast_global = [Var no_loc False ''v'' (Some (NamedType no_loc ''t'' None)) None], ast_name = ''m'', ast_imports = []\<rparr>]
     = Inl e
   \<and> ((\<exists>l msg. e = Fatal l msg) \<or> (\<exists>msg \<in> known_failures \<union> literal_failures. e = Undefined msg))"
proof -
  let ?asts = "[\<lparr>ast_global = [Var no_loc False ''v'' (Some (NamedType no_loc ''t'' None)) None], ast_name = ''m'', ast_imports = []\<rparr>]"
  let ?ld = "\<lparr>prec = 53, emin = -1022, emax = 1023\<rparr>"
  have "\<exists>e. compileModules ?ld initModules ?asts = Inl e"
  proof -
    have "case compileModules ?ld initModules ?asts of Inl _ \<Rightarrow> True | Inr _ \<Rightarrow> False" by code_simp
    then show ?thesis by (auto split: sum.splits)
  qed
  then obtain e where e: "compileModules ?ld initModules ?asts = Inl e" by blast
  have "list_all source_names ?asts" by (simp add: source_names_def)
  then show ?thesis using compileModules_safe [OF wf_init _ _ e] e by blast
qed

text \<open>
  C4: the symbols stay well formed, so that modules can be compiled one after another. The scopes of
  the modules compiled before keep their parents, kinds and names; the scope of each module is new and
  a child of the scope of the module before it; the declarations are collected in the order in which
  the modules are compiled.
\<close>

theorem compileModules_wf:
  assumes "wf_symbols syms" and "list_all source_names asts"
    and "asts \<noteq> [] \<or> 1 < length (syms_scopes syms)" and "compileModules ld syms asts = Inr (syms', w)"
  shows "wf_symbols syms' \<and> grows {} 0 (syms_scopes syms) (syms_scopes syms')
    \<and> (\<exists>ord. findModuleOrder asts [] = Inr ord \<and> modules_added (map ((!) asts) ord) syms syms'
         \<and> syms_decls syms' = syms_decls syms @ concat (map (\<lambda>i. ast_global (asts ! i)) ord))"
proof -
  obtain ord where 1: "findModuleOrder asts [] = Inr ord" "modules_added (map ((!) asts) ord) syms syms'"
      "wf_symbols syms'"
    using compileModules_cases [OF assms(1-3), of ld] assms(4) by auto
  then show ?thesis using modules_added_decls [OF 1(2)] modules_added_grows [OF 1(2)] by (auto simp: comp_def)
qed

theorem compileModules_wf_witness:
  "\<exists>syms w. compileModules \<lparr>prec = 53, emin = -1022, emax = 1023\<rparr> initModules [makeCmath] = Inr (syms, w)
     \<and> wf_symbols syms"
proof -
  let ?ld = "\<lparr>prec = 53, emin = -1022, emax = 1023\<rparr>"
  have "case compileModules ?ld initModules [makeCmath] of Inl _ \<Rightarrow> False | Inr _ \<Rightarrow> True" by code_simp
  then obtain syms w where r: "compileModules ?ld initModules [makeCmath] = Inr (syms, w)"
    by (auto split: sum.splits)
  have "list_all source_names [makeCmath]" by code_simp
  then show ?thesis using compileModules_wf [OF wf_init _ _ r] r by auto
qed

text \<open>
  C5: the type of an expression is known when its inference succeeds, and inference leaves the state as
  the code expects it: well formed, in the same scope, with the expression stack it began with; the
  only symbols it adds to a scope there was are lambdas.
\<close>

theorem infer_expr_type:
  assumes "wf_sem s" and "getExprType (infer_expr ld e) l t s = Inr (et, s')"
  shows "et_type et \<noteq> None \<and> wf_sem s' \<and> cur s' = cur s \<and> lkp_stack s' = lkp_stack s
    \<and> grows {''$lambda''} (cur s) (scopes s) (scopes s')"
  using spD [OF infer.exprType_sp assms(1), of "\<lambda>_. True" ld e l t] assms(2)
  by (auto simp: step_def typed_def)

theorem infer_expr_type_witness:
  "\<exists>et s'. getExprType (infer_expr \<lparr>prec = 53, emin = -1022, emax = 1023\<rparr> (BoolLiteral no_loc True)) no_loc None
       (pushed (module_context initModules ''m'' []) ns_scope None ''m'') = Inr (et, s')
     \<and> et_type et \<noteq> None \<and> wf_sem s'"
proof -
  let ?ld = "\<lparr>prec = 53, emin = -1022, emax = 1023\<rparr>" and ?s = "pushed (module_context initModules ''m'' []) ns_scope None ''m''"
  let ?r = "getExprType (infer_expr ?ld (BoolLiteral no_loc True)) no_loc None ?s"
  have wf: "wf_sem ?s"
    by (rule wf_pushed) (use wf_init in \<open>auto simp: wf_symbols_def module_context_def sym_for_def\<close>)
  have "case ?r of Inl _ \<Rightarrow> False | Inr _ \<Rightarrow> True" by code_simp
  then obtain et s' where r: "?r = Inr (et, s')" by (auto split: sum.splits)
  show ?thesis using infer_expr_type [OF wf r] r by blast
qed

text \<open>
  Without a module, \<^verbatim>\<open>compileModules\<close> on the symbols that \<^verbatim>\<open>initModules\<close> returns reaches the assertion of
  \<^verbatim>\<open>unusedSymbols\<close> that there is a scope besides the builtin one.
\<close>

lemma compileModules_none: "compileModules ld initModules [] = Inl (Undefined ''assertion: scopes'')"
  by code_simp

end
