(* ===== verification/Retain_Ptr.thy ===== *)
theory Retain_Ptr
  imports Prelude "HOL-Library.Multiset" "HOL-Library.Word"
begin

unbundle bit_operations_syntax

section \<open>Reference counting\<close>

text \<open>
  \<^verbatim>\<open>include/STELA/retain ptr.hpp\<close>. The heap is a list of cells; a freed cell is \<open>None\<close>. An object has its
  reference count, 64 bits wide, the \<open>retain_ptr\<close> members that its destructor destroys, and its class.
  A \<open>retain_ptr\<close> is a local variable or a member of an object. Following a pointer to a freed cell is
  the error \<open>Undefined\<close>, as is a failed assertion.
\<close>

type_synonym addr = nat

record robject =
  cnt :: "64 word"
  members :: "addr option list"
  class_of :: nat

record rstate =
  locals :: "addr option list"
  cells :: "robject option list"

datatype rptr = Local nat | Member addr nat

definition cell :: "robject option list \<Rightarrow> addr \<Rightarrow> robject option" where
  "cell h a = (if a < length h then h ! a else None)"

definition use_after_free :: error where
  "use_after_free = Undefined ''use after free''"

subsection \<open>The pointer member\<close>

definition get_ptr :: "rptr \<Rightarrow> rstate \<Rightarrow> addr option res" where
  "get_ptr l s =
     (case l of
        Local i \<Rightarrow> if i < length (locals s) then Inr (locals s ! i) else Inl use_after_free
      | Member a i \<Rightarrow>
          (case cell (cells s) a of
             Some ob \<Rightarrow> if i < length (members ob) then Inr (members ob ! i) else Inl use_after_free
           | None \<Rightarrow> Inl use_after_free))"

definition set_member :: "nat \<Rightarrow> addr option \<Rightarrow> robject \<Rightarrow> robject" where
  "set_member i p ob = ob\<lparr>members := (members ob)[i := p]\<rparr>"

definition upd_ptr :: "rptr \<Rightarrow> addr option \<Rightarrow> rstate \<Rightarrow> rstate" where
  "upd_ptr l p s =
     (case l of
        Local i \<Rightarrow> s\<lparr>locals := (locals s)[i := p]\<rparr>
      | Member a i \<Rightarrow> s\<lparr>cells := (cells s)[a := map_option (set_member i p) (cell (cells s) a)]\<rparr>)"

definition set_ptr :: "rptr \<Rightarrow> addr option \<Rightarrow> rstate \<Rightarrow> rstate res" where
  "set_ptr l p s = bindE (get_ptr l s) (\<lambda>_. Inr (upd_ptr l p s))"

subsection \<open>\<^verbatim>\<open>incr\<close> and \<^verbatim>\<open>decr\<close>\<close>

text \<open>
  The destructor of an object destroys its members in the reverse of their order, before the memory is
  freed; each of them may be the last reference to its object. The calls that are still to be made are
  kept in a list.
\<close>

datatype job = Decr addr | Free addr

definition refs_of :: "addr option list \<Rightarrow> addr list" where
  "refs_of ps = map the (filter (\<lambda>p. p \<noteq> None) ps)"

definition total :: "robject option list \<Rightarrow> nat" where
  "total h = sum_list (map (\<lambda>c. case c of None \<Rightarrow> 0 | Some ob \<Rightarrow> unat (cnt ob)) h)"

lemma sum_list_update:
  "i < length xs \<Longrightarrow> sum_list (map f (xs[i := x])) + f (xs ! i) = sum_list (map f xs) + f x"
  for f :: "'a \<Rightarrow> 'b :: comm_monoid_add"
proof (induction xs arbitrary: i)
  case (Cons y ys)
  then show ?case by (cases i) (auto simp: ac_simps)
qed simp

lemma total_decr:
  assumes "cell h a = Some ob" and "cnt ob \<noteq> 0"
  shows "total (h[a := Some (ob\<lparr>cnt := cnt ob - 1\<rparr>)]) < total h"
proof -
  have a: "a < length h" "h ! a = Some ob" using assms by (auto simp: cell_def split: if_splits)
  have "unat (cnt ob - 1) < unat (cnt ob)"
    using assms(2) by (simp add: unat_minus_one unat_gt_0)
  then show ?thesis
    using sum_list_update [OF a(1), of "\<lambda>c. case c of None \<Rightarrow> 0 | Some ob \<Rightarrow> unat (cnt ob)" "Some (ob\<lparr>cnt := cnt ob - 1\<rparr>)"] a
    unfolding total_def by (simp del: map_update)
qed

lemma total_last: "cell h a = Some ob \<Longrightarrow> cnt ob = 1 \<Longrightarrow> total (h[a := Some (ob\<lparr>cnt := 0\<rparr>)]) < total h"
  using total_decr [of h a ob] by simp

lemma total_free:
  assumes "cell h a = Some ob"
  shows "total (h[a := None]) \<le> total h"
proof -
  have a: "a < length h" "h ! a = Some ob" using assms by (auto simp: cell_def split: if_splits)
  show ?thesis
    using sum_list_update [OF a(1), of "\<lambda>c. case c of None \<Rightarrow> 0 | Some ob \<Rightarrow> unat (cnt ob)" None] a
    unfolding total_def by (simp del: map_update)
qed

function run :: "robject option list \<Rightarrow> job list \<Rightarrow> robject option list res" where
  "run h [] = Inr h"
| "run h (Decr a # js) =
     (case cell h a of
        None \<Rightarrow> Inl use_after_free
      | Some ob \<Rightarrow>
          if cnt ob = 0 then Inl (Undefined ''assertion: count is 0'')
          else
            let h' = h[a := Some (ob\<lparr>cnt := cnt ob - 1\<rparr>)] in
            if cnt ob - 1 = 0 then run h' (map Decr (rev (refs_of (members ob))) @ Free a # js)
            else run h' js)"
| "run h (Free a # js) =
     (case cell h a of None \<Rightarrow> Inl use_after_free | Some _ \<Rightarrow> run (h[a := None]) js)"
  by pat_completeness auto
termination
proof (relation "measures [\<lambda>(h, js). total h, \<lambda>(h, js). length js]")
qed (auto simp: total_decr total_last dest: total_free)


definition incr :: "rptr \<Rightarrow> rstate \<Rightarrow> rstate res" where
  "incr l s = bindE (get_ptr l s) (\<lambda>p.
     case p of
       None \<Rightarrow> Inr s
     | Some a \<Rightarrow>
         (case cell (cells s) a of
            None \<Rightarrow> Inl use_after_free
          | Some ob \<Rightarrow>
              if cnt ob = NOT 0 then Inl (Undefined ''assertion: count overflow'')
              else Inr (s\<lparr>cells := (cells s)[a := Some (ob\<lparr>cnt := cnt ob + 1\<rparr>)]\<rparr>)))"

definition decr :: "rptr \<Rightarrow> rstate \<Rightarrow> rstate res" where
  "decr l s = bindE (get_ptr l s) (\<lambda>p.
     case p of
       None \<Rightarrow> Inr s
     | Some a \<Rightarrow> bindE (run (cells s) [Decr a]) (\<lambda>h. Inr (s\<lparr>cells := h\<rparr>)))"

subsection \<open>The operations\<close>

text \<open>
  A constructor runs on a pointer that does not exist yet: a local variable that is null, which is also
  what the destructor leaves of it.
\<close>

definition ctor_null :: "rptr \<Rightarrow> rstate \<Rightarrow> rstate res" where
  "ctor_null l s = set_ptr l None s"

definition ctor_adopt :: "rptr \<Rightarrow> addr option \<Rightarrow> rstate \<Rightarrow> rstate res" where
  "ctor_adopt l p s = set_ptr l p s"

definition ctor_retain :: "rptr \<Rightarrow> addr option \<Rightarrow> rstate \<Rightarrow> rstate res" where
  "ctor_retain l p s = bindE (set_ptr l p s) (incr l)"

definition dtor :: "rptr \<Rightarrow> rstate \<Rightarrow> rstate res" where
  "dtor l s = bindE (decr l s) (set_ptr l None)"

definition reset :: "rptr \<Rightarrow> addr option \<Rightarrow> rstate \<Rightarrow> rstate res" where
  "reset l p s = bindE (decr l s) (set_ptr l p)"

definition reset_retain :: "rptr \<Rightarrow> addr option \<Rightarrow> rstate \<Rightarrow> rstate res" where
  "reset_retain l p s = bindE (decr l s) (\<lambda>s. bindE (set_ptr l p s) (incr l))"

definition asgn_null :: "rptr \<Rightarrow> rstate \<Rightarrow> rstate res" where
  "asgn_null l s = reset l None s"

definition detach :: "rptr \<Rightarrow> rstate \<Rightarrow> (addr option \<times> rstate) res" where
  "detach l s = bindE (get_ptr l s) (\<lambda>p. bindE (set_ptr l None s) (\<lambda>s. Inr (p, s)))"

definition ctor_move :: "rptr \<Rightarrow> rptr \<Rightarrow> rstate \<Rightarrow> rstate res" where
  "ctor_move l other s = bindE (detach other s) (\<lambda>(p, s). ctor_adopt l p s)"

definition asgn_move :: "rptr \<Rightarrow> rptr \<Rightarrow> rstate \<Rightarrow> rstate res" where
  "asgn_move l other s = bindE (detach other s) (\<lambda>(p, s). reset l p s)"

definition ctor_copy :: "rptr \<Rightarrow> rptr \<Rightarrow> rstate \<Rightarrow> rstate res" where
  "ctor_copy l other s = bindE (get_ptr other s) (\<lambda>p. ctor_retain l p s)"

definition asgn_copy :: "rptr \<Rightarrow> rptr \<Rightarrow> rstate \<Rightarrow> rstate res" where
  "asgn_copy l other s = bindE (get_ptr other s) (\<lambda>p. bindE (reset l p s) (incr l))"

definition swap :: "rptr \<Rightarrow> rptr \<Rightarrow> rstate \<Rightarrow> rstate res" where
  "swap l other s =
     bindE (get_ptr l s) (\<lambda>p. bindE (get_ptr other s) (\<lambda>q.
     bindE (set_ptr l q s) (set_ptr other p)))"

definition use_count :: "rptr \<Rightarrow> rstate \<Rightarrow> 64 word res" where
  "use_count l s = bindE (get_ptr l s) (\<lambda>p.
     case p of
       None \<Rightarrow> Inr 0
     | Some a \<Rightarrow> (case cell (cells s) a of None \<Rightarrow> Inl use_after_free | Some ob \<Rightarrow> Inr (cnt ob)))"

definition unique :: "rptr \<Rightarrow> rstate \<Rightarrow> bool res" where
  "unique l s = bindE (use_count l s) (\<lambda>n. Inr (n = 1))"

definition deref :: "rptr \<Rightarrow> rstate \<Rightarrow> robject res" where
  "deref l s = bindE (get_ptr l s) (\<lambda>p.
     case p of
       None \<Rightarrow> Inl (Undefined ''assertion: ptr'')
     | Some a \<Rightarrow> (case cell (cells s) a of None \<Rightarrow> Inl use_after_free | Some ob \<Rightarrow> Inr ob))"

text \<open>
  \<^verbatim>\<open>make_retain\<close> allocates a cell that is not in use. The members of the new object are built from the
  arguments, here from pointers that are moved in.
\<close>

fun detach_all :: "rptr list \<Rightarrow> rstate \<Rightarrow> (addr option list \<times> rstate) res" where
  "detach_all [] s = Inr ([], s)"
| "detach_all (l # ls) s =
     bindE (detach l s) (\<lambda>(p, s). bindE (detach_all ls s) (\<lambda>(ps, s). Inr (p # ps, s)))"

definition make_retain :: "rptr \<Rightarrow> nat \<Rightarrow> rptr list \<Rightarrow> rstate \<Rightarrow> rstate res" where
  "make_retain l c args s = bindE (detach_all args s) (\<lambda>(ps, s).
     ctor_adopt l (Some (length (cells s)))
       (s\<lparr>cells := cells s @ [Some \<lparr>cnt = 1, members = ps, class_of = c\<rparr>]\<rparr>))"

text \<open>
  The casts. A static cast leaves the address as it is; a dynamic cast gives null when the object is not
  of the class, which the parameter \<open>is_a\<close> decides.
\<close>

definition dynamic_cast :: "(nat \<Rightarrow> bool) \<Rightarrow> addr option \<Rightarrow> rstate \<Rightarrow> addr option res" where
  "dynamic_cast is_a p s =
     (case p of
        None \<Rightarrow> Inr None
      | Some a \<Rightarrow>
          (case cell (cells s) a of
             None \<Rightarrow> Inl use_after_free
           | Some ob \<Rightarrow> Inr (if is_a (class_of ob) then Some a else None)))"

definition static_pointer_cast_copy :: "rptr \<Rightarrow> rptr \<Rightarrow> rstate \<Rightarrow> rstate res" where
  "static_pointer_cast_copy l src s = bindE (get_ptr src s) (\<lambda>p. ctor_retain l p s)"

definition static_pointer_cast_move :: "rptr \<Rightarrow> rptr \<Rightarrow> rstate \<Rightarrow> rstate res" where
  "static_pointer_cast_move l src s = bindE (detach src s) (\<lambda>(p, s). ctor_adopt l p s)"

definition dynamic_pointer_cast_copy :: "(nat \<Rightarrow> bool) \<Rightarrow> rptr \<Rightarrow> rptr \<Rightarrow> rstate \<Rightarrow> rstate res" where
  "dynamic_pointer_cast_copy is_a l base s =
     bindE (get_ptr base s) (\<lambda>p. bindE (dynamic_cast is_a p s) (\<lambda>q. ctor_retain l q s))"

definition dynamic_pointer_cast_move :: "(nat \<Rightarrow> bool) \<Rightarrow> rptr \<Rightarrow> rptr \<Rightarrow> rstate \<Rightarrow> rstate res" where
  "dynamic_pointer_cast_move is_a l base s =
     bindE (detach base s) (\<lambda>(p, s). bindE (dynamic_cast is_a p s) (\<lambda>q. ctor_adopt l q s))"

subsection \<open>Counts and owners\<close>

definition owned :: "robject option \<Rightarrow> addr multiset" where
  "owned c = (case c of None \<Rightarrow> {#} | Some ob \<Rightarrow> if cnt ob = 0 then {#} else mset (refs_of (members ob)))"

definition owners :: "robject option list \<Rightarrow> addr multiset" where
  "owners h = sum_list (map owned h)"

fun job_refs :: "job list \<Rightarrow> addr multiset" where
  "job_refs [] = {#}"
| "job_refs (Decr a # js) = add_mset a (job_refs js)"
| "job_refs (Free a # js) = job_refs js"

fun job_frees :: "job list \<Rightarrow> addr multiset" where
  "job_frees [] = {#}"
| "job_frees (Decr a # js) = job_frees js"
| "job_frees (Free a # js) = add_mset a (job_frees js)"

text \<open>
  \<open>counted h W F\<close>: the count of every object is the number of its owners, which are the members of the
  objects that are not being destroyed and the references in \<open>W\<close>; the objects in \<open>F\<close> are being destroyed;
  no reference leads to a freed cell.
\<close>

fun cell_ok :: "robject option \<Rightarrow> nat \<Rightarrow> nat \<Rightarrow> bool" where
  "cell_ok None n f \<longleftrightarrow> n = 0 \<and> f = 0"
| "cell_ok (Some ob) n f \<longleftrightarrow> unat (cnt ob) = n \<and> f = (if cnt ob = 0 then 1 else 0)"

definition counted :: "robject option list \<Rightarrow> addr multiset \<Rightarrow> addr multiset \<Rightarrow> bool" where
  "counted h W F \<longleftrightarrow> (\<forall>a. cell_ok (cell h a) (count (W + owners h) a) (count F a))"

lemma cell_update: "a < length h \<Longrightarrow> cell (h[a := c]) b = (if b = a then c else cell h b)"
  by (simp add: cell_def)

lemma countedD: "counted h W F \<Longrightarrow> cell_ok (cell h a) (count (W + owners h) a) (count F a)"
  by (simp add: counted_def)

lemma counted_update:
  assumes "counted h W F" and a: "a < length h"
    and "cell_ok c (count (W' + owners (h[a := c])) a) (count F' a)"
    and "\<And>b. b \<noteq> a \<Longrightarrow> count (W' + owners (h[a := c])) b = count (W + owners h) b \<and> count F' b = count F b"
  shows "counted (h[a := c]) W' F'"
  unfolding counted_def
proof
  fix b
  show "cell_ok (cell (h[a := c]) b) (count (W' + owners (h[a := c])) b) (count F' b)"
    using assms(3) assms(4) [of b] countedD [OF assms(1), of b] a by (cases "b = a") (simp_all add: cell_update)
qed

lemma owners_update:
  "a < length h \<Longrightarrow> owners (h[a := c]) + owned (h ! a) = owners h + owned c"
  unfolding owners_def by (rule sum_list_update)

lemma cell_Some: "cell h a = Some ob \<Longrightarrow> a < length h \<and> h ! a = Some ob"
  by (simp add: cell_def split: if_splits)

lemma job_refs_app [simp]: "job_refs (js @ ks) = job_refs js + job_refs ks"
  by (induction js rule: job_refs.induct) auto

lemma job_frees_app [simp]: "job_frees (js @ ks) = job_frees js + job_frees ks"
  by (induction js rule: job_frees.induct) auto

lemma job_Decrs [simp]: "job_refs (map Decr as) = mset as" "job_frees (map Decr as) = {#}"
  by (induction as) auto

lemma counted_Decr:
  assumes c: "counted h (add_mset a W) F" 
  obtains ob where "cell h a = Some ob" "cnt ob \<noteq> 0"
    "cnt ob - 1 \<noteq> 0 \<Longrightarrow> counted (h[a := Some (ob\<lparr>cnt := cnt ob - 1\<rparr>)]) W F"
    "cnt ob - 1 = 0 \<Longrightarrow> counted (h[a := Some (ob\<lparr>cnt := cnt ob - 1\<rparr>)]) (W + mset (refs_of (members ob))) (add_mset a F)"
proof -
  obtain ob where ob: "cell h a = Some ob" using countedD [OF c, of a] by (cases "cell h a") auto
  have n: "unat (cnt ob) = Suc (count (W + owners h) a)" and F: "count F a = (if cnt ob = 0 then 1 else 0)"
    using countedD [OF c, of a] ob by simp_all
  then have nz: "cnt ob \<noteq> 0" by auto
  have a: "a < length h" "h ! a = Some ob" using cell_Some [OF ob] by auto
  let ?ob = "ob\<lparr>cnt := cnt ob - 1\<rparr>"
  let ?h = "h[a := Some ?ob]"
  have m: "unat (cnt ob - 1) = count (W + owners h) a" using n nz by (simp add: unat_minus_one)
  have o: "owners ?h + mset (refs_of (members ob)) = owners h + (if cnt ob - 1 = 0 then {#} else mset (refs_of (members ob)))"
    using owners_update [OF a(1), of "Some ?ob"] a nz by (simp add: owned_def)
  show thesis
  proof (rule that [OF ob nz])
    assume nz': "cnt ob - 1 \<noteq> 0"
    then have eq: "owners ?h = owners h" using o by simp
    show "counted ?h W F"
      by (rule counted_update [OF c a(1)]) (use m nz nz' F in \<open>simp_all add: eq\<close>)
  next
    assume z: "cnt ob - 1 = 0"
    then have eq: "owners h = owners ?h + mset (refs_of (members ob))" using o by simp
    show "counted ?h (W + mset (refs_of (members ob))) (add_mset a F)"
      by (rule counted_update [OF c a(1)]) (use m nz z F in \<open>simp_all add: eq\<close>)
  qed
qed

lemma counted_Free:
  assumes c: "counted h W (add_mset a F)"
  obtains ob where "cell h a = Some ob" "cnt ob = 0" "counted (h[a := None]) W F"
proof -
  obtain ob where ob: "cell h a = Some ob" using countedD [OF c, of a] by (cases "cell h a") auto
  have z: "cnt ob = 0" and F: "count F a = 0" and n: "count (W + owners h) a = 0"
    using countedD [OF c, of a] ob by (auto split: if_splits)
  have a: "a < length h" "h ! a = Some ob" using cell_Some [OF ob] by auto
  have eq: "owners (h[a := None]) = owners h"
    using owners_update [OF a(1), of None] a z by (simp add: owned_def)
  have "counted (h[a := None]) W F"
    by (rule counted_update [OF c a(1)]) (use F n in \<open>simp_all add: eq\<close>)
  then show thesis using that ob z by blast
qed

text \<open>Destroying goes through, and leaves the objects that are still owned as they are but for the count.\<close>

definition survives :: "robject option list \<Rightarrow> robject option list \<Rightarrow> bool" where
  "survives h h' \<longleftrightarrow> (\<forall>a ob'. cell h' a = Some ob' \<longrightarrow>
     (\<exists>ob. cell h a = Some ob \<and> members ob' = members ob \<and> class_of ob' = class_of ob))"

lemma survives_trans: "survives h h1 \<Longrightarrow> survives h1 h2 \<Longrightarrow> survives h h2"
  unfolding survives_def by metis

lemma survives_update:
  "cell h a = Some ob \<Longrightarrow> c = None \<or> c = Some (ob\<lparr>cnt := n\<rparr>) \<Longrightarrow> survives h (h[a := c])"
  using cell_Some [of h a ob] by (auto simp: survives_def cell_update)

lemma run_counted:
  assumes "counted h (W + job_refs js) (job_frees js)"
  shows "\<exists>h'. run h js = Inr h' \<and> counted h' W {#} \<and> survives h h' \<and> length h' = length h"
  using assms
proof (induction h js rule: run.induct)
  case (1 h)
  then show ?case by (simp add: survives_def)
next
  case (2 h a js)
  then have "counted h (add_mset a (W + job_refs js)) (job_frees js)" by simp
  then obtain ob where ob: "cell h a = Some ob" "cnt ob \<noteq> 0"
    and 1: "cnt ob - 1 \<noteq> 0 \<Longrightarrow> counted (h[a := Some (ob\<lparr>cnt := cnt ob - 1\<rparr>)]) (W + job_refs js) (job_frees js)"
    and 0: "cnt ob - 1 = 0 \<Longrightarrow> counted (h[a := Some (ob\<lparr>cnt := cnt ob - 1\<rparr>)]) (W + job_refs js + mset (refs_of (members ob))) (add_mset a (job_frees js))"
    by (rule counted_Decr) blast
  let ?h = "h[a := Some (ob\<lparr>cnt := cnt ob - 1\<rparr>)]"
  have s: "survives h ?h" by (rule survives_update [OF ob(1)]) blast
  show ?case
  proof (cases "cnt ob - 1 = 0")
    case True
    have "\<exists>h'. run ?h (map Decr (rev (refs_of (members ob))) @ Free a # js) = Inr h' \<and> counted h' W {#}
        \<and> survives ?h h' \<and> length h' = length ?h"
      by (rule "2.IH"(1) [OF ob refl True]) (use 0 [OF True] in \<open>simp add: ac_simps\<close>)
    then show ?thesis using ob True s survives_trans by fastforce
  next
    case False
    have "\<exists>h'. run ?h js = Inr h' \<and> counted h' W {#} \<and> survives ?h h' \<and> length h' = length ?h"
      by (rule "2.IH"(2) [OF ob refl False 1 [OF False]])
    then show ?thesis using ob False s survives_trans by fastforce
  qed
next
  case (3 h a js)
  then have "counted h (W + job_refs js) (add_mset a (job_frees js))" by simp
  then obtain ob where ob: "cell h a = Some ob" and c: "counted (h[a := None]) (W + job_refs js) (job_frees js)"
    by (rule counted_Free) blast
  have s: "survives h (h[a := None])" by (rule survives_update [OF ob]) blast
  from "3.IH" [OF ob c] show ?case using ob s survives_trans by fastforce
qed

text \<open>
  A member of an object that stays alive is not read while others are destroyed: its value makes no
  difference.
\<close>

definition put :: "addr \<Rightarrow> nat \<Rightarrow> addr option \<Rightarrow> robject option list \<Rightarrow> robject option list" where
  "put b i p h = h[b := map_option (set_member i p) (cell h b)]"

lemma set_member_simps [simp]:
  "cnt (set_member i p ob) = cnt ob" "class_of (set_member i p ob) = class_of ob"
  "members (set_member i p ob) = (members ob)[i := p]"
  "set_member i p (ob\<lparr>cnt := n\<rparr>) = (set_member i p ob)\<lparr>cnt := n\<rparr>"
  by (simp_all add: set_member_def)

lemma cell_put: "cell (put b i p h) a = (if a = b then map_option (set_member i p) (cell h a) else cell h a)"
  by (auto simp: put_def cell_def)

lemma length_put [simp]: "length (put b i p h) = length h"
  by (simp add: put_def)

lemma put_update:
  assumes "a < length h"
  shows "a \<noteq> b \<Longrightarrow> put b i p (h[a := c]) = (put b i p h)[a := c]"
    "put b i p (h[b := c]) = (put b i p h)[b := map_option (set_member i p) c]"
  using assms by (auto simp: put_def cell_def list_update_swap intro: nth_equalityI)

lemma counted_pinned:
  assumes "counted h W F" and "b \<in># W"
  shows "\<exists>ob. cell h b = Some ob \<and> cnt ob \<noteq> 0 \<and> b \<notin># F"
  using countedD [OF assms(1), of b] assms(2)
  by (cases "cell h b") (auto simp: count_eq_zero_iff split: if_splits)

lemma run_pinned:
  assumes "counted h (W + job_refs js) (job_frees js)" and "b \<in># W"
  shows "run (put b i p h) js = bindE (run h js) (\<lambda>h'. Inr (put b i p h'))"
  using assms
proof (induction h js rule: run.induct)
  case (2 h a js)
  then have c: "counted h (add_mset a (W + job_refs js)) (job_frees js)" by simp
  then obtain ob where ob: "cell h a = Some ob" "cnt ob \<noteq> 0"
    and 1: "cnt ob - 1 \<noteq> 0 \<Longrightarrow> counted (h[a := Some (ob\<lparr>cnt := cnt ob - 1\<rparr>)]) (W + job_refs js) (job_frees js)"
    and 0: "cnt ob - 1 = 0 \<Longrightarrow> counted (h[a := Some (ob\<lparr>cnt := cnt ob - 1\<rparr>)]) (W + job_refs js + mset (refs_of (members ob))) (add_mset a (job_frees js))"
    by (rule counted_Decr) blast
  let ?h = "h[a := Some (ob\<lparr>cnt := cnt ob - 1\<rparr>)]"
  have a: "a < length h" using cell_Some [OF ob(1)] by simp
  show ?case
  proof (cases "cnt ob - 1 = 0")
    case True
    have "a \<noteq> b" using counted_pinned [OF 0 [OF True], of b] "2.prems"(2) a True by (auto simp: cell_update)
    then have "cell (put b i p h) a = Some ob" "(put b i p h)[a := Some (ob\<lparr>cnt := cnt ob - 1\<rparr>)] = put b i p ?h"
      using ob a by (simp_all add: cell_put put_update)
    moreover have "run (put b i p ?h) (map Decr (rev (refs_of (members ob))) @ Free a # js)
        = bindE (run ?h (map Decr (rev (refs_of (members ob))) @ Free a # js)) (\<lambda>h'. Inr (put b i p h'))"
      by (rule "2.IH"(1) [OF ob refl True]) (use 0 [OF True] "2.prems"(2) in \<open>simp_all add: ac_simps\<close>)
    ultimately show ?thesis using ob True by simp
  next
    case False
    have IH: "run (put b i p ?h) js = bindE (run ?h js) (\<lambda>h'. Inr (put b i p h'))"
      by (rule "2.IH"(2) [OF ob refl False 1 [OF False] "2.prems"(2)])
    let ?ob = "if a = b then set_member i p ob else ob"
    have "cell (put b i p h) a = Some ?ob" "(put b i p h)[a := Some (?ob\<lparr>cnt := cnt ob - 1\<rparr>)] = put b i p ?h"
      using ob a by (auto simp: cell_put put_update)
    then show ?thesis using ob False IH by (cases "a = b") simp_all
  qed
next
  case (3 h a js)
  then have c: "counted h (W + job_refs js) (add_mset a (job_frees js))" by simp
  then obtain ob where ob: "cell h a = Some ob" "cnt ob = 0" and 1: "counted (h[a := None]) (W + job_refs js) (job_frees js)"
    by (rule counted_Free) blast
  have "a \<noteq> b" using counted_pinned [OF c, of b] "3.prems"(2) by auto
  then have "cell (put b i p h) a = Some ob" "(put b i p h)[a := None] = put b i p (h[a := None])"
    using ob cell_Some [OF ob(1)] by (simp_all add: cell_put put_update)
  then show ?case using "3.IH" [OF ob(1) 1 "3.prems"(2)] ob by simp
qed simp

subsection \<open>The invariant\<close>

text \<open>
  \<open>rc_inv s R\<close>: every count is the number of owners, where \<open>R\<close> are references that no \<open>retain_ptr\<close> holds,
  such as those that \<^verbatim>\<open>detach\<close> returns.
\<close>

definition opt_ref :: "addr option \<Rightarrow> addr multiset" where
  "opt_ref p = (case p of None \<Rightarrow> {#} | Some a \<Rightarrow> {#a#})"

lemma opt_ref_simps [simp]: "opt_ref None = {#}" "opt_ref (Some a) = {#a#}"
  by (simp_all add: opt_ref_def)

definition rc_inv :: "rstate \<Rightarrow> addr multiset \<Rightarrow> bool" where
  "rc_inv s R \<longleftrightarrow> counted (cells s) (mset (refs_of (locals s)) + R) {#}"

text \<open>
  A pointer that an operation works on: a local variable, or a member of an object that a local
  variable refers to.
\<close>

fun ptr_ok :: "rptr \<Rightarrow> rstate \<Rightarrow> bool" where
  "ptr_ok (Local i) s \<longleftrightarrow> i < length (locals s)"
| "ptr_ok (Member b i) s \<longleftrightarrow> b \<in> set (refs_of (locals s))
     \<and> (case cell (cells s) b of None \<Rightarrow> False | Some ob \<Rightarrow> i < length (members ob))"

lemma ptr_ok_Member:
  "ptr_ok (Member b i) s \<longleftrightarrow> b \<in> set (refs_of (locals s)) \<and> (\<exists>ob. cell (cells s) b = Some ob \<and> i < length (members ob))"
  by (auto split: option.splits)

declare ptr_ok.simps(2) [simp del] ptr_ok_Member [simp]

lemma refs_of_simps [simp]: "refs_of [] = []" "mset (refs_of (p # ps)) = opt_ref p + mset (refs_of ps)"
  by (auto simp: refs_of_def opt_ref_def split: option.splits)

lemma refs_of_update:
  "i < length ps \<Longrightarrow> mset (refs_of (ps[i := p])) + opt_ref (ps ! i) = mset (refs_of ps) + opt_ref p"
proof (induction ps arbitrary: i)
  case (Cons q ps)
  then show ?case by (cases i) (auto simp: ac_simps)
qed simp

lemma ptr_ok_get: "ptr_ok l s \<Longrightarrow> \<exists>p. get_ptr l s = Inr p"
  by (cases l) (auto simp: get_ptr_def)

lemma counted_same:
  assumes "counted h W F" and "\<And>a. rel_option (\<lambda>x y. cnt x = cnt y) (cell h a) (cell h' a)"
    and "W + owners h = W' + owners h'"
  shows "counted h' W' F"
  unfolding counted_def
proof
  fix a
  show "cell_ok (cell h' a) (count (W' + owners h') a) (count F a)"
    using countedD [OF assms(1), of a] assms(2) [of a] unfolding assms(3)
    by (cases "cell h a"; cases "cell h' a") auto
qed

lemma inv_live: "rc_inv s R \<Longrightarrow> b \<in># mset (refs_of (locals s)) + R \<Longrightarrow> \<exists>ob. cell (cells s) b = Some ob \<and> cnt ob \<noteq> 0"
  unfolding rc_inv_def by (drule counted_pinned) auto

lemma put_refs:
  assumes "cell h b = Some ob" and "cnt ob \<noteq> 0" and "i < length (members ob)"
  shows "owners (put b i p h) + opt_ref (members ob ! i) = owners h + opt_ref p"
proof -
  have b: "b < length h" "h ! b = Some ob" using cell_Some [OF assms(1)] by auto
  have "owners (put b i p h) + owned (Some ob) = owners h + owned (Some (set_member i p ob))"
    using owners_update [OF b(1), of "Some (set_member i p ob)"] b assms(1) by (simp add: put_def)
  then have "owners (put b i p h) + opt_ref (members ob ! i) + mset (refs_of (members ob))
      = owners h + (mset (refs_of ((members ob)[i := p])) + opt_ref (members ob ! i))"
    using assms(2) by (simp add: owned_def ac_simps)
  also have "\<dots> = owners h + opt_ref p + mset (refs_of (members ob))"
    unfolding refs_of_update [OF assms(3)] by (simp add: ac_simps)
  finally show ?thesis by simp
qed

lemma upd_ptr_Local: "upd_ptr (Local i) p s = s\<lparr>locals := (locals s)[i := p]\<rparr>"
  by (simp add: upd_ptr_def)

lemma upd_ptr_Member: "upd_ptr (Member b i) p s = s\<lparr>cells := put b i p (cells s)\<rparr>"
  by (simp add: upd_ptr_def put_def)

lemma inv_upd:
  assumes ok: "ptr_ok l s" and q: "get_ptr l s = Inr q" and inv: "rc_inv s (R + opt_ref p)"
  shows "rc_inv (upd_ptr l p s) (R + opt_ref q)"
proof (cases l)
  case (Local i)
  then have "mset (refs_of ((locals s)[i := p])) + opt_ref q = mset (refs_of (locals s)) + opt_ref p"
    using refs_of_update [of i "locals s" p] ok q by (simp add: get_ptr_def)
  then have "mset (refs_of ((locals s)[i := p])) + (R + opt_ref q) = mset (refs_of (locals s)) + (R + opt_ref p)"
    by (metis add.assoc add.commute)
  then have "counted (cells s) (mset (refs_of ((locals s)[i := p])) + (R + opt_ref q)) {#}"
    using inv unfolding rc_inv_def by (simp only:)
  then show ?thesis by (simp add: Local upd_ptr_def rc_inv_def)
next
  case (Member b i)
  obtain ob where ob: "cell (cells s) b = Some ob" "cnt ob \<noteq> 0"
    using inv_live [OF inv, of b] ok Member by auto
  then have i: "i < length (members ob)" "members ob ! i = q" using ok q Member by (auto simp: get_ptr_def)
  have "counted (put b i p (cells s)) (mset (refs_of (locals s)) + (R + opt_ref q)) {#}"
  proof (rule counted_same [OF inv [unfolded rc_inv_def]])
    show "rel_option (\<lambda>x y. cnt x = cnt y) (cell (cells s) a) (cell (put b i p (cells s)) a)" for a
      by (cases "cell (cells s) a") (auto simp: cell_put)
    show "mset (refs_of (locals s)) + (R + opt_ref p) + owners (cells s)
        = mset (refs_of (locals s)) + (R + opt_ref q) + owners (put b i p (cells s))"
      using put_refs [OF ob i(1), of p] i(2) by (simp add: ac_simps)
  qed
  then show ?thesis by (simp add: Member upd_ptr_Member rc_inv_def)
qed

lemma get_upd: "ptr_ok l s \<Longrightarrow> get_ptr l (upd_ptr l p s) = Inr p"
  by (cases l) (auto simp: get_ptr_def upd_ptr_def cell_def split: if_splits)

lemma set_ptr_eq: "ptr_ok l s \<Longrightarrow> set_ptr l p s = Inr (upd_ptr l p s)"
  using ptr_ok_get [of l s] by (auto simp: set_ptr_def)

lemma upd_upd: "ptr_ok l s \<Longrightarrow> upd_ptr l p (upd_ptr l q s) = upd_ptr l p s"
  by (cases l) (auto simp: upd_ptr_def cell_def set_member_def)

lemma ptr_ok_upd: "ptr_ok l s \<Longrightarrow> ptr_ok l (upd_ptr l p s)"
  by (cases l) (auto simp: upd_ptr_Member upd_ptr_Local cell_put)

lemma upd_same: "ptr_ok l s \<Longrightarrow> get_ptr l s = Inr p \<Longrightarrow> upd_ptr l p s = s"
  by (cases l; cases s)
    (auto simp: get_ptr_def upd_ptr_def cell_def set_member_def split: if_splits option.splits
      intro!: list_update_same_conv [THEN iffD2])

lemma survives_refl [simp]: "survives h h"
  by (simp add: survives_def)

text \<open>What \<^verbatim>\<open>decr\<close> does: the invariant holds again once the pointer is overwritten.\<close>

definition released :: "rptr \<Rightarrow> rstate \<Rightarrow> rstate \<Rightarrow> addr multiset \<Rightarrow> bool" where
  "released l s s' R \<longleftrightarrow> rc_inv (upd_ptr l None s') R \<and> ptr_ok l s' \<and> locals s' = locals s
     \<and> survives (cells s) (cells s') \<and> length (cells s') = length (cells s)"

lemma survives_put:
  assumes "survives h h'" and "cell h' b \<noteq> None"
  shows "survives (put b i p h) (put b i p h')"
  using assms unfolding survives_def by (fastforce simp: cell_put split: if_splits)

lemma decr_ok:
  assumes ok: "ptr_ok l s" and inv: "rc_inv s R"
  shows "\<exists>s'. decr l s = Inr s' \<and> released l s s' R"
proof -
  obtain q where q: "get_ptr l s = Inr q" using ptr_ok_get [OF ok] by blast
  have inv0: "rc_inv (upd_ptr l None s) (R + opt_ref q)" by (rule inv_upd [OF ok q]) (simp add: inv)
  show ?thesis
  proof (cases q)
    case None
    then show ?thesis using q inv0 ok by (auto simp: decr_def released_def)
  next
    case (Some a)
    show ?thesis
    proof (cases l)
      case (Local i)
      let ?ps = "(locals s)[i := None]"
      have c: "counted (cells s) (mset (refs_of ?ps) + R + job_refs [Decr a]) (job_frees [Decr a])"
        using inv0 Some Local by (simp add: rc_inv_def upd_ptr_def ac_simps)
      from run_counted [OF c] obtain h' where
        "run (cells s) [Decr a] = Inr h'" "counted h' (mset (refs_of ?ps) + R) {#}" "survives (cells s) h'"
        "length h' = length (cells s)" by blast
      then show ?thesis
        using q Some Local ok by (auto simp: decr_def released_def rc_inv_def upd_ptr_def)
    next
      case (Member b i)
      let ?h = "put b i None (cells s)" and ?W = "mset (refs_of (locals s)) + R"
      have c: "counted ?h (?W + job_refs [Decr a]) (job_frees [Decr a])"
        using inv0 Some Member by (simp add: rc_inv_def upd_ptr_Member ac_simps)
      have b: "b \<in># ?W" using ok Member by simp
      obtain h' where h': "run ?h [Decr a] = Inr h'" "counted h' ?W {#}" "survives ?h h'" "length h' = length ?h"
        using run_counted [OF c] by blast
      obtain ob where ob: "cell (cells s) b = Some ob" "i < length (members ob)" "members ob ! i = Some a"
        using ok q Some Member by (auto simp: get_ptr_def)
      have undo: "put b i (Some a) ?h = cells s"
        using upd_upd [OF ok, of "Some a" None] upd_same [OF ok q] Some Member
        by (cases s) (simp add: upd_ptr_Member)
      have "run (put b i (Some a) ?h) [Decr a] = bindE (run ?h [Decr a]) (\<lambda>h'. Inr (put b i (Some a) h'))"
        by (rule run_pinned [OF c b])
      then have r: "run (cells s) [Decr a] = Inr (put b i (Some a) h')" using undo h' by simp
      obtain ob' where ob': "cell h' b = Some ob'" using counted_pinned [OF h'(2) b] by blast
      have m: "members ob' = (members ob)[i := None]"
        using h'(3) ob' ob unfolding survives_def by (fastforce simp: cell_put)
      have "put b i None (put b i (Some a) h') = h'"
        using ob' m cell_Some [OF ob'] by (auto simp: put_def cell_def set_member_def intro!: list_update_same_conv [THEN iffD2])
      moreover have "survives (cells s) (put b i (Some a) h')"
        using survives_put [OF h'(3), of b i "Some a"] ob' undo by simp
      ultimately show ?thesis
        using r q Some Member h' ok ob ob' m
        by (auto simp: decr_def released_def rc_inv_def upd_ptr_Member cell_put simp del: run.simps)
    qed
  qed
qed

lemma released_upd:
  assumes "released l s s' (R + opt_ref p)"
  shows "rc_inv (upd_ptr l p s') R"
proof -
  have ok: "ptr_ok l s'" and inv: "rc_inv (upd_ptr l None s') (R + opt_ref p)"
    using assms by (auto simp: released_def)
  have ok0: "ptr_ok l (upd_ptr l None s')" using ok by (rule ptr_ok_upd)
  from inv_upd [OF ok0 get_upd [OF ok] inv] show ?thesis by (simp add: upd_upd [OF ok])
qed

definition bump :: "addr \<Rightarrow> robject option list \<Rightarrow> robject option list" where
  "bump a h = h[a := map_option (\<lambda>ob. ob\<lparr>cnt := cnt ob + 1\<rparr>) (cell h a)]"

lemma bump_put: "bump a (put b i p h) = put b i p (bump a h)"
  by (cases "a < length h"; cases "b < length h"; cases "a = b"; cases "h ! a")
    (auto simp: bump_def put_def cell_def list_update_swap)

lemma counted_bump:
  assumes c: "counted h W F" and ob: "cell h a = Some ob" "cnt ob \<noteq> 0" "cnt ob \<noteq> NOT 0"
  shows "counted (bump a h) (add_mset a W) F"
proof -
  have a: "a < length h" "h ! a = Some ob" using cell_Some [OF ob(1)] by auto
  have nz: "cnt ob + 1 \<noteq> 0" using ob(3) by (simp add: add_eq_0_iff2)
  have n: "unat (cnt ob + 1) = Suc (unat (cnt ob))"
    using unat_minus_one [OF nz] nz by (simp add: unat_gt_0 flip: Suc_diff_1)
  have eq: "owners (bump a h) = owners h"
    using owners_update [OF a(1), of "Some (ob\<lparr>cnt := cnt ob + 1\<rparr>)"] a ob nz by (simp add: owned_def bump_def)
  show ?thesis
    unfolding bump_def
    by (rule counted_update [OF c a(1)])
      (use countedD [OF c, of a] ob n nz eq in \<open>simp_all add: bump_def\<close>)
qed

end
