(* ===== verification/Retain_Safety.thy ===== *)
theory Retain_Safety
  imports Retain_Ptr
begin

unbundle bit_operations_syntax

section \<open>Safety of reference counting\<close>

text \<open>
  What the operations of \<^verbatim>\<open>retain_ptr\<close> keep. \<open>outcome r Q\<close>: the operation ends in a state with \<open>Q\<close>, or because a
  count would overflow. \<open>effect\<close> is what an operation does to the pointers; reference counting adds that
  the counts stay right and that objects go away, which \<open>trimmed\<close> describes. On states whose objects do
  not own each other in a circle this is garbage collection.
\<close>

definition overflow :: error where
  "overflow = Undefined ''assertion: count overflow''"

definition outcome :: "rstate res \<Rightarrow> (rstate \<Rightarrow> bool) \<Rightarrow> bool" where
  "outcome r Q = (case r of Inl e \<Rightarrow> e = overflow | Inr s \<Rightarrow> Q s)"

lemma outcome_simps [simp]: "outcome (Inr s) Q = Q s" "outcome (Inl e) Q = (e = overflow)"
  by (simp_all add: outcome_def)

lemma outcome_mono: "outcome r Q \<Longrightarrow> (\<And>s. Q s \<Longrightarrow> Q' s) \<Longrightarrow> outcome r Q'"
  by (cases r) auto

lemma outcome_bind: "outcome r P \<Longrightarrow> (\<And>s. P s \<Longrightarrow> outcome (f s) Q) \<Longrightarrow> outcome (bindE r f) Q"
  by (cases r) auto

lemma cell_bump:
  "cell (bump a h) b = (if b = a then map_option (\<lambda>ob. ob\<lparr>cnt := cnt ob + 1\<rparr>) (cell h b) else cell h b)"
  by (auto simp: bump_def cell_def)

lemma upd_bump: "upd_ptr l p (s\<lparr>cells := bump a (cells s)\<rparr>) = (upd_ptr l p s)\<lparr>cells := bump a (cells (upd_ptr l p s))\<rparr>"
  by (cases l) (simp_all add: upd_ptr_Local upd_ptr_Member bump_put)

lemma ptr_ok_bump [simp]: "ptr_ok l (s\<lparr>cells := bump a (cells s)\<rparr>) = ptr_ok l s"
  by (cases l) (auto simp: cell_bump)

lemma get_bump [simp]: "get_ptr l (s\<lparr>cells := bump a (cells s)\<rparr>) = get_ptr l s"
  by (auto simp: get_ptr_def cell_bump split: rptr.splits option.splits)

text \<open>A state from which some objects are gone; counts apart, the others are as they were.\<close>

definition trimmed :: "rstate \<Rightarrow> rstate \<Rightarrow> bool" where
  "trimmed s s' \<longleftrightarrow> locals s' = locals s \<and> survives (cells s) (cells s') \<and> length (cells s') = length (cells s)"

lemma trimmed_refl [simp]: "trimmed s s"
  by (simp add: trimmed_def)

lemma trimmed_trans: "trimmed s s' \<Longrightarrow> trimmed s' s'' \<Longrightarrow> trimmed s s''"
  unfolding trimmed_def by (metis survives_trans)

lemma trimmed_upd: "trimmed s s' \<Longrightarrow> ptr_ok l s' \<Longrightarrow> trimmed (upd_ptr l p s) (upd_ptr l p s')"
  by (cases l) (auto simp: trimmed_def upd_ptr_Local upd_ptr_Member intro!: survives_put)

lemma trimmed_bump: "trimmed s (s\<lparr>cells := bump a (cells s)\<rparr>)"
  by (auto simp: trimmed_def survives_def cell_bump bump_def [THEN arg_cong, of length] split: if_splits)

lemma released_trimmed: "released l s s' R \<Longrightarrow> trimmed s s' \<and> ptr_ok l s' \<and> rc_inv (upd_ptr l None s') R"
  by (simp add: released_def trimmed_def)

text \<open>The references that the other local variables hold.\<close>

definition others :: "rptr \<Rightarrow> rstate \<Rightarrow> addr multiset" where
  "others l s = mset (refs_of (locals (upd_ptr l None s)))"

lemma others_trimmed: "trimmed s s' \<Longrightarrow> others l s' = others l s"
  by (cases l) (simp_all add: others_def trimmed_def upd_ptr_Local upd_ptr_Member)

text \<open>\<^verbatim>\<open>incr\<close> on a pointer that was just set, and is not counted yet.\<close>

lemma incr_ok:
  assumes ok: "ptr_ok l s" and inv: "rc_inv (upd_ptr l None s) R"
    and live: "\<And>a. p = Some a \<Longrightarrow> cell (cells (upd_ptr l None s)) a \<noteq> None"
  shows "outcome (incr l (upd_ptr l p s)) (\<lambda>s'. rc_inv s' R \<and> trimmed (upd_ptr l p s) s')"
proof (cases p)
  case None
  then show ?thesis using inv ok by (simp add: incr_def get_upd)
next
  case (Some a)
  let ?s0 = "upd_ptr l None s"
  have ok0: "ptr_ok l ?s0" and null: "get_ptr l ?s0 = Inr None" using ptr_ok_upd [OF ok] get_upd [OF ok] by auto
  have eq: "upd_ptr l p ?s0 = upd_ptr l p s" by (rule upd_upd [OF ok])
  obtain ob where ob: "cell (cells ?s0) a = Some ob" "cnt ob \<noteq> 0"
    using live [OF Some] countedD [OF inv [unfolded rc_inv_def], of a] by (auto split: if_splits)
  have get: "get_ptr l (upd_ptr l p s) = Inr (Some a)" using get_upd [OF ok] Some by simp
  obtain ob' where ob': "cell (cells (upd_ptr l p s)) a = Some ob'" "cnt ob' = cnt ob"
    using ob by (cases l) (auto simp: upd_ptr_Local upd_ptr_Member cell_put split: if_splits)
  let ?s = "?s0\<lparr>cells := bump a (cells ?s0)\<rparr>"
  have up: "upd_ptr l p ?s = (upd_ptr l p s)\<lparr>cells := bump a (cells (upd_ptr l p s))\<rparr>"
    unfolding upd_bump eq ..
  have "incr l (upd_ptr l p s) = (if cnt ob = NOT 0 then Inl overflow else Inr (upd_ptr l p ?s))"
    unfolding up using get ob' by (auto simp: incr_def overflow_def bump_def)
  moreover have "rc_inv (upd_ptr l p ?s) R" if "cnt ob \<noteq> NOT 0"
  proof -
    have "rc_inv ?s (R + opt_ref p)"
      using counted_bump [OF inv [unfolded rc_inv_def] ob that] Some by (simp add: rc_inv_def)
    from inv_upd [OF _ _ this, of l None] show ?thesis using ok0 null by simp
  qed
  moreover have "trimmed (upd_ptr l p s) (upd_ptr l p ?s)" unfolding up by (rule trimmed_bump)
  ultimately show ?thesis by auto
qed

text \<open>Overwriting a pointer: \<^verbatim>\<open>decr\<close>, then the new address.\<close>

lemma reset_ok:
  assumes ok: "ptr_ok l s" and inv: "rc_inv s (R + opt_ref p)"
  shows "\<exists>s'. reset l p s = Inr s' \<and> rc_inv s' R \<and> trimmed (upd_ptr l p s) s'"
proof -
  obtain s' where s': "decr l s = Inr s'" "released l s s' (R + opt_ref p)" using decr_ok [OF ok inv] by blast
  then show ?thesis
    using released_upd [OF s'(2)] released_trimmed [OF s'(2)] trimmed_upd [of s s' l p] set_ptr_eq [of l s' p]
    by (simp add: reset_def)
qed

text \<open>
  The source of a copy: another pointer, which does not lie in an object that only the target keeps
  alive.
\<close>

definition independent :: "rptr \<Rightarrow> rptr \<Rightarrow> rstate \<Rightarrow> bool" where
  "independent l l' s \<longleftrightarrow> ptr_ok l' s \<and> l' \<noteq> l \<and> (case l' of Local _ \<Rightarrow> True | Member b _ \<Rightarrow> b \<in># others l s)"

lemma inv_target:
  assumes "rc_inv s R" and "ptr_ok l s" and "get_ptr l s = Inr (Some a)"
  shows "\<exists>ob. cell (cells s) a = Some ob \<and> cnt ob \<noteq> 0"
proof -
  have inv: "rc_inv (upd_ptr l None s) (R + opt_ref (Some a))"
    by (rule inv_upd [OF assms(2,3)]) (simp add: assms(1))
  then obtain ob where "cell (cells (upd_ptr l None s)) a = Some ob" "cnt ob \<noteq> 0"
    using inv_live [OF inv, of a] by auto
  then show ?thesis
    by (cases l) (auto simp: upd_ptr_Local upd_ptr_Member cell_put split: if_splits)
qed

lemma independent_get:
  assumes ind: "independent l l' s" and tr: "trimmed s s1" and ok: "ptr_ok l s1" and inv: "rc_inv (upd_ptr l None s1) R"
  shows "ptr_ok l' (upd_ptr l None s1) \<and> get_ptr l' (upd_ptr l None s1) = get_ptr l' s"
proof (cases l')
  case (Local j)
  then show ?thesis
    using ind tr by (cases l) (auto simp: independent_def trimmed_def get_ptr_def upd_ptr_Local upd_ptr_Member)
next
  case (Member b i)
  let ?s0 = "upd_ptr l None s1"
  have "b \<in># others l s1" using ind Member others_trimmed [OF tr, of l] by (simp add: independent_def)
  then have b: "b \<in> set (refs_of (locals ?s0))" by (simp add: others_def)
  obtain ob0 where ob0: "cell (cells ?s0) b = Some ob0" using inv_live [OF inv, of b] b by auto
  obtain ob where ob: "cell (cells s) b = Some ob" "i < length (members ob)"
    using ind Member by (auto simp: independent_def)
  obtain ob1 where ob1: "cell (cells s1) b = Some ob1"
    using ob0 by (cases l) (auto simp: upd_ptr_Local upd_ptr_Member cell_put split: if_splits)
  have m: "members ob1 = members ob" using tr ob(1) ob1 by (fastforce simp: trimmed_def survives_def)
  have "members ob0 ! i = members ob1 ! i \<and> length (members ob0) = length (members ob1)"
    using ob0 ob1 ind Member
    by (cases l) (auto simp: upd_ptr_Local upd_ptr_Member cell_put independent_def split: if_splits)
  then show ?thesis using Member b ob ob0 m by (simp add: get_ptr_def)
qed

lemma reset_retain_ok:
  assumes ok: "ptr_ok l s" and inv: "rc_inv s R"
    and live: "\<And>s1. trimmed s s1 \<Longrightarrow> ptr_ok l s1 \<Longrightarrow> rc_inv (upd_ptr l None s1) R \<Longrightarrow> p = None \<or> (\<exists>a. p = Some a \<and> cell (cells (upd_ptr l None s1)) a \<noteq> None)"
  shows "outcome (reset_retain l p s) (\<lambda>s'. rc_inv s' R \<and> trimmed (upd_ptr l p s) s')"
proof -
  obtain s1 where s1: "decr l s = Inr s1" "released l s s1 R" using decr_ok [OF ok inv] by blast
  note r = released_trimmed [OF s1(2)]
  have "outcome (incr l (upd_ptr l p s1)) (\<lambda>s'. rc_inv s' R \<and> trimmed (upd_ptr l p s1) s')"
    by (rule incr_ok) (use r live [of s1] in auto)
  then have "outcome (incr l (upd_ptr l p s1)) (\<lambda>s'. rc_inv s' R \<and> trimmed (upd_ptr l p s) s')"
    using r trimmed_upd [of s s1 l p] by (elim outcome_mono) (auto intro: trimmed_trans)
  then show ?thesis using s1 r by (simp add: reset_retain_def set_ptr_eq)
qed

lemma asgn_copy_eq: "asgn_copy l l' s = bindE (get_ptr l' s) (\<lambda>p. reset_retain l p s)"
  by (simp add: asgn_copy_def reset_retain_def reset_def bindE_assoc)

lemma detach_ok:
  assumes ok: "ptr_ok l s" and inv: "rc_inv s R"
  shows "\<exists>p. get_ptr l s = Inr p \<and> detach l s = Inr (p, upd_ptr l None s) \<and> rc_inv (upd_ptr l None s) (R + opt_ref p)"
proof -
  obtain p where p: "get_ptr l s = Inr p" using ptr_ok_get [OF ok] by blast
  then show ?thesis using inv_upd [OF ok p, of R None] inv ok by (simp add: detach_def set_ptr_eq)
qed

lemma adopt_ok:
  assumes ok: "ptr_ok l s" and "get_ptr l s = Inr None" and inv: "rc_inv s (R + opt_ref p)"
  shows "ctor_adopt l p s = Inr (upd_ptr l p s) \<and> rc_inv (upd_ptr l p s) R"
  using inv_upd [OF ok assms(2) inv] ok by (simp add: ctor_adopt_def set_ptr_eq)

lemma asgn_copy_ok:
  assumes ok: "ptr_ok l s" and inv: "rc_inv s R" and ind: "independent l l' s" and p: "get_ptr l' s = Inr p"
  shows "outcome (asgn_copy l l' s) (\<lambda>s'. rc_inv s' R \<and> trimmed (upd_ptr l p s) s')"
  unfolding asgn_copy_eq p bindE.simps
proof (rule reset_retain_ok [OF ok inv])
  fix s1
  assume 1: "trimmed s s1" "ptr_ok l s1" and i: "rc_inv (upd_ptr l None s1) R"
  note g = independent_get [OF ind 1 i]
  show "p = None \<or> (\<exists>a. p = Some a \<and> cell (cells (upd_ptr l None s1)) a \<noteq> None)"
    using inv_target [OF i, of l'] g p by (cases p) auto
qed

lemma retain_ok:
  assumes ok: "ptr_ok l s" and null: "get_ptr l s = Inr None" and inv: "rc_inv s R"
    and live: "\<And>a. p = Some a \<Longrightarrow> cell (cells s) a \<noteq> None"
  shows "outcome (ctor_retain l p s) (\<lambda>s'. rc_inv s' R \<and> trimmed (upd_ptr l p s) s')"
  using incr_ok [OF ok, of R p] inv live upd_same [OF ok null] ok by (simp add: ctor_retain_def set_ptr_eq)

lemma asgn_move_ok:
  assumes inv: "rc_inv s R" and l': "ptr_ok l' s" and l: "ptr_ok l (upd_ptr l' None s)" and p: "get_ptr l' s = Inr p"
  shows "\<exists>s'. asgn_move l l' s = Inr s' \<and> rc_inv s' R \<and> trimmed (upd_ptr l p (upd_ptr l' None s)) s'"
  using detach_ok [OF l' inv] reset_ok [OF l, of R p] p by (auto simp: asgn_move_def)

subsection \<open>Sequences of operations\<close>

datatype rop =
    Destroy rptr
  | Assign_null rptr
  | Assign_copy rptr rptr
  | Assign_move rptr rptr
  | Construct_copy nat rptr
  | Construct_move nat rptr
  | Swap rptr rptr
  | Make nat nat "nat list"
  | Cast_static_copy nat rptr
  | Cast_static_move nat rptr
  | Cast_dynamic_copy "nat set" nat rptr
  | Cast_dynamic_move "nat set" nat rptr

fun exec_op :: "rop \<Rightarrow> rstate \<Rightarrow> rstate res" where
  "exec_op (Destroy l) s = dtor l s"
| "exec_op (Assign_null l) s = asgn_null l s"
| "exec_op (Assign_copy l l') s = asgn_copy l l' s"
| "exec_op (Assign_move l l') s = asgn_move l l' s"
| "exec_op (Construct_copy i l') s = ctor_copy (Local i) l' s"
| "exec_op (Construct_move i l') s = ctor_move (Local i) l' s"
| "exec_op (Swap l l') s = swap l l' s"
| "exec_op (Make i c js) s = make_retain (Local i) c (map Local js) s"
| "exec_op (Cast_static_copy i l') s = static_pointer_cast_copy (Local i) l' s"
| "exec_op (Cast_static_move i l') s = static_pointer_cast_move (Local i) l' s"
| "exec_op (Cast_dynamic_copy K i l') s = dynamic_pointer_cast_copy (\<lambda>c. c \<in> K) (Local i) l' s"
| "exec_op (Cast_dynamic_move K i l') s = dynamic_pointer_cast_move (\<lambda>c. c \<in> K) (Local i) l' s"

definition fresh_local :: "nat \<Rightarrow> rstate \<Rightarrow> bool" where
  "fresh_local i s \<longleftrightarrow> i < length (locals s) \<and> locals s ! i = None"

text \<open>The address that a pointer holds.\<close>

definition val :: "rptr \<Rightarrow> rstate \<Rightarrow> addr option" where
  "val l s = (case get_ptr l s of Inl _ \<Rightarrow> None | Inr p \<Rightarrow> p)"

text \<open>
  What the operations ask for. A constructor runs on a variable that is not in use. Copy assignment and
  swap need pointers that are independent of each other, a move assignment a target that does not lie in
  an object that only the source keeps alive. A dynamic cast of an rvalue must succeed.
\<close>

fun op_ok :: "rop \<Rightarrow> rstate \<Rightarrow> bool" where
  "op_ok (Destroy l) s \<longleftrightarrow> ptr_ok l s"
| "op_ok (Assign_null l) s \<longleftrightarrow> ptr_ok l s"
| "op_ok (Assign_copy l l') s \<longleftrightarrow> ptr_ok l s \<and> independent l l' s"
| "op_ok (Assign_move l l') s \<longleftrightarrow> ptr_ok l' s \<and> (l = l' \<or> independent l' l s)"
| "op_ok (Construct_copy i l') s \<longleftrightarrow> fresh_local i s \<and> ptr_ok l' s"
| "op_ok (Construct_move i l') s \<longleftrightarrow> fresh_local i s \<and> ptr_ok l' s"
| "op_ok (Swap l l') s \<longleftrightarrow> independent l l' s \<and> independent l' l s"
| "op_ok (Make i c js) s \<longleftrightarrow> fresh_local i s \<and> list_all (\<lambda>j. j < length (locals s)) js"
| "op_ok (Cast_static_copy i l') s \<longleftrightarrow> fresh_local i s \<and> ptr_ok l' s"
| "op_ok (Cast_static_move i l') s \<longleftrightarrow> fresh_local i s \<and> ptr_ok l' s"
| "op_ok (Cast_dynamic_copy K i l') s \<longleftrightarrow> fresh_local i s \<and> ptr_ok l' s"
| "op_ok (Cast_dynamic_move K i l') s \<longleftrightarrow> fresh_local i s \<and> ptr_ok l' s
     \<and> (case val l' s of
           None \<Rightarrow> True
         | Some a \<Rightarrow> (case cell (cells s) a of None \<Rightarrow> True | Some ob \<Rightarrow> class_of ob \<in> K))"

text \<open>The state the operation has in mind: the pointers are written, nothing is counted and nothing freed.\<close>

fun null_locals :: "nat list \<Rightarrow> rstate \<Rightarrow> rstate" where
  "null_locals [] s = s"
| "null_locals (j # js) s = null_locals js (upd_ptr (Local j) None s)"

fun local_vals :: "nat list \<Rightarrow> rstate \<Rightarrow> addr option list" where
  "local_vals [] s = []"
| "local_vals (j # js) s = val (Local j) s # local_vals js (upd_ptr (Local j) None s)"

definition add_object :: "nat \<Rightarrow> addr option list \<Rightarrow> rstate \<Rightarrow> rstate" where
  "add_object c ps s = s\<lparr>cells := cells s @ [Some \<lparr>cnt = 1, members = ps, class_of = c\<rparr>]\<rparr>"

definition cast_val :: "nat set \<Rightarrow> rptr \<Rightarrow> rstate \<Rightarrow> addr option" where
  "cast_val K l s =
     (case val l s of
        Some a \<Rightarrow> (case cell (cells s) a of Some ob \<Rightarrow> if class_of ob \<in> K then Some a else None | None \<Rightarrow> None)
      | None \<Rightarrow> None)"

fun effect :: "rop \<Rightarrow> rstate \<Rightarrow> rstate" where
  "effect (Destroy l) s = upd_ptr l None s"
| "effect (Assign_null l) s = upd_ptr l None s"
| "effect (Assign_copy l l') s = upd_ptr l (val l' s) s"
| "effect (Assign_move l l') s = upd_ptr l (val l' s) (upd_ptr l' None s)"
| "effect (Construct_copy i l') s = upd_ptr (Local i) (val l' s) s"
| "effect (Construct_move i l') s = upd_ptr (Local i) (val l' s) (upd_ptr l' None s)"
| "effect (Swap l l') s = upd_ptr l' (val l s) (upd_ptr l (val l' s) s)"
| "effect (Make i c js) s =
     upd_ptr (Local i) (Some (length (cells s))) (add_object c (local_vals js s) (null_locals js s))"
| "effect (Cast_static_copy i l') s = upd_ptr (Local i) (val l' s) s"
| "effect (Cast_static_move i l') s = upd_ptr (Local i) (val l' s) (upd_ptr l' None s)"
| "effect (Cast_dynamic_copy K i l') s = upd_ptr (Local i) (cast_val K l' s) s"
| "effect (Cast_dynamic_move K i l') s = upd_ptr (Local i) (val l' s) (upd_ptr l' None s)"

abbreviation good :: "rop \<Rightarrow> rstate \<Rightarrow> rstate \<Rightarrow> bool" where
  "good opn s s' \<equiv> rc_inv s' {#} \<and> trimmed (effect opn s) s'"

lemma fresh_ok: "fresh_local i s \<Longrightarrow> ptr_ok (Local i) s \<and> get_ptr (Local i) s = Inr None"
  by (simp add: fresh_local_def get_ptr_def)

lemma fresh_upd: "fresh_local i s \<Longrightarrow> fresh_local i (upd_ptr l None s)"
proof (cases l)
  case (Local j)
  then show "fresh_local i s \<Longrightarrow> fresh_local i (upd_ptr l None s)"
    by (cases "j = i") (auto simp: fresh_local_def upd_ptr_Local)
qed (simp add: fresh_local_def upd_ptr_Member)

lemma val_get: "get_ptr l s = Inr p \<Longrightarrow> val l s = p"
  by (simp add: val_def)

lemma copy_ok:
  assumes "rc_inv s {#}" and "fresh_local i s" and ok: "ptr_ok l' s" and p: "p = val l' s \<or> p = None"
  shows "outcome (ctor_retain (Local i) p s) (\<lambda>s'. rc_inv s' {#} \<and> trimmed (upd_ptr (Local i) p s) s')"
proof -
  obtain q where q: "get_ptr l' s = Inr q" using ptr_ok_get [OF ok] by blast
  have "cell (cells s) a \<noteq> None" if "p = Some a" for a
    using inv_target [OF assms(1) ok, of a] q that p by (auto simp: val_def)
  then show ?thesis using retain_ok [of "Local i" s "{#}" p] assms fresh_ok [of i s] by simp
qed

lemma move_ok:
  assumes "rc_inv s {#}" and "fresh_local i s" and "ptr_ok l' s"
  shows "detach l' s = Inr (val l' s, upd_ptr l' None s)"
    "ctor_adopt (Local i) (val l' s) (upd_ptr l' None s) = Inr (upd_ptr (Local i) (val l' s) (upd_ptr l' None s))"
    "rc_inv (upd_ptr (Local i) (val l' s) (upd_ptr l' None s)) {#}"
proof -
  obtain p where p: "get_ptr l' s = Inr p" "detach l' s = Inr (p, upd_ptr l' None s)" "rc_inv (upd_ptr l' None s) ({#} + opt_ref p)"
    using detach_ok [OF assms(3,1)] by blast
  note f = fresh_ok [OF fresh_upd [OF assms(2), of l']]
  show "detach l' s = Inr (val l' s, upd_ptr l' None s)" using p by (simp add: val_get)
  show "ctor_adopt (Local i) (val l' s) (upd_ptr l' None s) = Inr (upd_ptr (Local i) (val l' s) (upd_ptr l' None s))"
    "rc_inv (upd_ptr (Local i) (val l' s) (upd_ptr l' None s)) {#}"
    using adopt_ok [OF _ _ p(3), of "Local i"] f val_get [OF p(1)] by auto
qed

lemma make_args:
  assumes "rc_inv s R" and "list_all (\<lambda>j. j < length (locals s)) js"
  shows "detach_all (map Local js) s = Inr (local_vals js s, null_locals js s)
    \<and> rc_inv (null_locals js s) (R + mset (refs_of (local_vals js s)))
    \<and> length (locals (null_locals js s)) = length (locals s) \<and> cells (null_locals js s) = cells s"
  using assms
proof (induction js arbitrary: s R)
  case (Cons j js)
  let ?s = "upd_ptr (Local j) None s"
  have ok: "ptr_ok (Local j) s" using Cons.prems by simp
  obtain p where p: "get_ptr (Local j) s = Inr p" "detach (Local j) s = Inr (p, ?s)" "rc_inv ?s (R + opt_ref p)"
    using detach_ok [OF ok Cons.prems(1)] by blast
  have "list_all (\<lambda>j. j < length (locals ?s)) js" using Cons.prems by (simp add: upd_ptr_Local)
  from Cons.IH [OF p(3) this] show ?case using p val_get [OF p(1)] by (simp add: ac_simps upd_ptr_Local)
qed simp

lemma fresh_nulls: "fresh_local i s \<Longrightarrow> fresh_local i (null_locals js s)"
  by (induction js arbitrary: s) (auto intro: fresh_upd)

lemma add_object_ok:
  assumes inv: "rc_inv s (R + mset (refs_of ps))"
  shows "rc_inv (add_object c ps s) (add_mset (length (cells s)) R)"
proof -
  let ?h = "cells s" and ?ob = "\<lparr>cnt = 1, members = ps, class_of = c\<rparr>" and ?W = "mset (refs_of (locals s)) + R"
  have o: "owners (?h @ [Some ?ob]) = owners ?h + mset (refs_of ps)"
    by (simp add: owners_def owned_def)
  have c: "counted ?h (?W + mset (refs_of ps)) {#}" using inv by (simp add: rc_inv_def ac_simps)
  have "cell_ok (cell (?h @ [Some ?ob]) a) (count (add_mset (length ?h) ?W + owners (?h @ [Some ?ob])) a) (count {#} a)" for a
    using countedD [OF c, of a] unfolding o
    by (cases "a = length ?h") (auto simp: cell_def nth_append ac_simps split: if_splits)
  then show ?thesis by (simp add: rc_inv_def counted_def add_object_def)
qed

lemma make_ok:
  assumes inv: "rc_inv s {#}" and "op_ok (Make i c js) s"
  shows "exec_op (Make i c js) s = Inr (effect (Make i c js) s) \<and> rc_inv (effect (Make i c js) s) {#}"
proof -
  let ?s = "null_locals js s" and ?ps = "local_vals js s"
  have a: "detach_all (map Local js) s = Inr (?ps, ?s)" "rc_inv ?s ({#} + mset (refs_of ?ps))" "cells ?s = cells s"
    using make_args [OF inv, of js] assms(2) by auto
  have f: "fresh_local i (add_object c ?ps ?s)"
    using fresh_nulls [of i s js] assms(2) by (simp add: fresh_local_def add_object_def)
  have "rc_inv (add_object c ?ps ?s) ({#} + opt_ref (Some (length (cells s))))"
    using add_object_ok [OF a(2)] a(3) by simp
  from adopt_ok [OF _ _ this] fresh_ok [OF f] show ?thesis
    using a by (simp add: make_retain_def add_object_def)
qed

lemma ptr_ok_other:
  assumes "independent l l' s"
  shows "ptr_ok l' (upd_ptr l p s)"
proof (cases l')
  case (Local j)
  then show ?thesis using assms by (cases l) (auto simp: independent_def upd_ptr_Local upd_ptr_Member)
next
  case (Member b i)
  have "set (refs_of (locals (upd_ptr l None s))) \<subseteq> set (refs_of (locals (upd_ptr l p s)))"
  proof (cases l)
    case (Local j)
    have "mset (refs_of ((locals s)[j := None])) \<subseteq># mset (refs_of ((locals s)[j := p]))"
      using refs_of_update [of j "(locals s)[j := None]" p] by (cases "j < length (locals s)") (auto simp: list_update_beyond)
    then show ?thesis using Local by (simp add: upd_ptr_Local) (metis set_mset_mono set_mset_mset)
  qed (simp add: upd_ptr_Member)
  then show ?thesis
    using assms Member by (cases l) (auto simp: independent_def others_def upd_ptr_Local upd_ptr_Member cell_put)
qed

lemma get_other:
  assumes "independent l l' s"
  shows "get_ptr l' (upd_ptr l p s) = get_ptr l' s"
  using assms
  by (cases l; cases l')
    (auto simp: independent_def upd_ptr_Local upd_ptr_Member get_ptr_def cell_put)

lemma put_put: "b \<noteq> b' \<or> i \<noteq> i' \<Longrightarrow> put b i p (put b' i' q h) = put b' i' q (put b i p h)"
proof (cases "b = b'")
  case True
  assume "b \<noteq> b' \<or> i \<noteq> i'"
  then show ?thesis
    using True by (cases "b < length h"; cases "h ! b")
      (auto simp: put_def cell_def set_member_def list_update_beyond list_update_swap)
next
  case False
  then show ?thesis
    by (cases "b < length h"; cases "b' < length h")
      (auto simp: put_def cell_def list_update_beyond list_update_swap)
qed

lemma upd_swap: "l \<noteq> l' \<Longrightarrow> upd_ptr l p (upd_ptr l' q s) = upd_ptr l' q (upd_ptr l p s)"
  by (cases l; cases l') (auto simp: upd_ptr_Local upd_ptr_Member list_update_swap put_put)

lemma swap_ok:
  assumes inv: "rc_inv s R" and i: "independent l l' s" and i': "independent l' l s"
  shows "swap l l' s = Inr (effect (Swap l l') s) \<and> rc_inv (effect (Swap l l') s) R"
proof -
  have ne: "l \<noteq> l'" and ok: "ptr_ok l s" "ptr_ok l' s" using i i' by (auto simp: independent_def)
  obtain p q where g: "get_ptr l s = Inr p" "get_ptr l' s = Inr q" using ptr_ok_get ok by blast
  let ?s1 = "upd_ptr l None s"
  have 1: "rc_inv ?s1 (R + opt_ref p)" by (rule inv_upd [OF ok(1) g(1)]) (simp add: inv)
  have ok1: "ptr_ok l' ?s1" "get_ptr l' ?s1 = Inr q" using ptr_ok_other [OF i] get_other [OF i] g by auto
  have 2: "rc_inv (upd_ptr l' p ?s1) (R + opt_ref q)" by (rule inv_upd [OF ok1 1])
  have eq: "upd_ptr l' p ?s1 = upd_ptr l None (upd_ptr l' p s)" using ne by (simp add: upd_swap)
  have ok2: "ptr_ok l (upd_ptr l' p s)" by (rule ptr_ok_other [OF i'])
  have 3: "rc_inv (upd_ptr l q (upd_ptr l None (upd_ptr l' p s))) (R + opt_ref None)"
    by (rule inv_upd [OF ptr_ok_upd [OF ok2] get_upd [OF ok2]]) (use 2 eq in simp)
  have "upd_ptr l q (upd_ptr l None (upd_ptr l' p s)) = upd_ptr l' p (upd_ptr l q s)"
    using ne by (simp add: upd_upd [OF ok2] upd_swap)
  then show ?thesis
    using 3 g ok ptr_ok_other [OF i, of q] by (simp add: swap_def set_ptr_eq val_get)
qed

lemma reset_null:
  assumes "ptr_ok l s" and "rc_inv s {#}"
  shows "outcome (reset l None s) (\<lambda>s'. rc_inv s' {#} \<and> trimmed (upd_ptr l None s) s')"
  using reset_ok [OF assms(1), of "{#}" None] assms(2) by auto

lemma dynamic_cast_ok:
  assumes "rc_inv s {#}" and "ptr_ok l s" and p: "get_ptr l s = Inr p"
  shows "dynamic_cast (\<lambda>c. c \<in> K) p s = Inr (cast_val K l s)" "cast_val K l s = val l s \<or> cast_val K l s = None"
proof -
  show "dynamic_cast (\<lambda>c. c \<in> K) p s = Inr (cast_val K l s)"
    using inv_target [OF assms(1,2)] p
    by (cases p) (auto simp: dynamic_cast_def cast_val_def val_def)
  show "cast_val K l s = val l s \<or> cast_val K l s = None"
    by (auto simp: cast_val_def split: option.splits)
qed

lemma class_upd:
  "cell (cells s) a = Some ob \<Longrightarrow> \<exists>ob'. cell (cells (upd_ptr l p s)) a = Some ob' \<and> class_of ob' = class_of ob"
  by (cases l) (auto simp: upd_ptr_Local upd_ptr_Member cell_put)

lemma dynamic_move_ok:
  assumes inv: "rc_inv s {#}" and "op_ok (Cast_dynamic_move K i l) s"
  shows "exec_op (Cast_dynamic_move K i l) s = Inr (effect (Cast_dynamic_move K i l) s)
    \<and> rc_inv (effect (Cast_dynamic_move K i l) s) {#}"
proof -
  have f: "fresh_local i s" and ok: "ptr_ok l s" using assms(2) by auto
  obtain p where p: "get_ptr l s = Inr p" using ptr_ok_get [OF ok] by blast
  have "dynamic_cast (\<lambda>c. c \<in> K) p (upd_ptr l None s) = Inr p"
  proof (cases p)
    case (Some a)
    obtain ob where ob: "cell (cells s) a = Some ob" using inv_target [OF inv ok, of a] p Some by blast
    then have "class_of ob \<in> K" using assms(2) p Some by (simp add: val_def)
    with class_upd [OF ob, of l None] show ?thesis using Some by (auto simp: dynamic_cast_def)
  qed (simp add: dynamic_cast_def)
  then show ?thesis
    using move_ok [OF inv f ok] val_get [OF p] by (simp add: dynamic_pointer_cast_move_def)
qed

text \<open>
  Every operation keeps the invariant; it may fail only when a count would overflow.
\<close>

lemma exec_op_ok:
  assumes inv: "rc_inv s {#}" and ok: "op_ok opn s"
  shows "outcome (exec_op opn s) (good opn s)"
proof (cases opn)
  case (Destroy l)
  then show ?thesis using reset_null [of l s] inv ok by (simp add: dtor_def reset_def)
next
  case (Assign_null l)
  then show ?thesis using reset_null [of l s] inv ok by (simp add: asgn_null_def)
next
  case (Assign_copy l l')
  then have "ptr_ok l s" and i: "independent l l' s" and "ptr_ok l' s" using ok by (auto simp: independent_def)
  then obtain p where p: "get_ptr l' s = Inr p" using ptr_ok_get by blast
  show ?thesis using asgn_copy_ok [OF \<open>ptr_ok l s\<close> inv i p] val_get [OF p] Assign_copy by simp
next
  case (Assign_move l l')
  then have l': "ptr_ok l' s" and l: "ptr_ok l (upd_ptr l' None s)"
    using ok ptr_ok_upd [of l s None] ptr_ok_other [of l' l s None] by auto
  obtain p where p: "get_ptr l' s = Inr p" using ptr_ok_get [OF l'] by blast
  show ?thesis using asgn_move_ok [OF inv l' l p] val_get [OF p] Assign_move by auto
next
  case (Construct_copy i l')
  then obtain p where p: "get_ptr l' s = Inr p" using ptr_ok_get [of l' s] ok by auto
  show ?thesis using copy_ok [OF inv, of i l' p] ok Construct_copy p val_get [OF p] by (simp add: ctor_copy_def)
next
  case (Construct_move i l')
  then show ?thesis using move_ok [OF inv, of i l'] ok by (simp add: ctor_move_def)
next
  case (Swap l l')
  then show ?thesis using swap_ok [OF inv, of l l'] ok by simp
next
  case (Make i c js)
  then show ?thesis using make_ok [OF inv, of i c js] ok by (simp del: exec_op.simps effect.simps)
next
  case (Cast_static_copy i l')
  then obtain p where p: "get_ptr l' s = Inr p" using ptr_ok_get [of l' s] ok by auto
  show ?thesis
    using copy_ok [OF inv, of i l' p] ok Cast_static_copy p val_get [OF p] by (simp add: static_pointer_cast_copy_def)
next
  case (Cast_static_move i l')
  then show ?thesis using move_ok [OF inv, of i l'] ok by (simp add: static_pointer_cast_move_def)
next
  case (Cast_dynamic_copy K i l')
  then have ok': "fresh_local i s" "ptr_ok l' s" using ok by auto
  obtain p where p: "get_ptr l' s = Inr p" using ptr_ok_get [OF ok'(2)] by blast
  note d = dynamic_cast_ok [OF inv ok'(2) p, of K]
  show ?thesis
    using copy_ok [OF inv ok' d(2)] p d(1) Cast_dynamic_copy by (simp add: dynamic_pointer_cast_copy_def)
next
  case (Cast_dynamic_move K i l')
  then show ?thesis using dynamic_move_ok [OF inv] ok by (simp del: exec_op.simps effect.simps)
qed

subsection \<open>Nothing leaks without a cycle\<close>

definition edges :: "rstate \<Rightarrow> (addr \<times> addr) set" where
  "edges s = {(b, a). \<exists>ob. cell (cells s) b = Some ob \<and> a \<in> set (refs_of (members ob))}"

definition live :: "rstate \<Rightarrow> addr set" where
  "live s = {a. \<exists>r \<in> set (refs_of (locals s)). (r, a) \<in> (edges s)\<^sup>*}"

lemma in_owners: "a \<in># owners h \<Longrightarrow> \<exists>b ob. cell h b = Some ob \<and> cnt ob \<noteq> 0 \<and> a \<in> set (refs_of (members ob))"
proof -
  assume "a \<in># owners h"
  then obtain c where "c \<in> set h" "a \<in># owned c"
    unfolding owners_def by (induction h) auto
  then obtain b where "b < length h" "a \<in># owned (h ! b)" by (auto simp: in_set_conv_nth)
  then show ?thesis by (auto simp: owned_def cell_def split: option.splits if_splits)
qed

lemma edge_owner: "rc_inv s R \<Longrightarrow> (b, a) \<in> edges s \<Longrightarrow> a \<in># owners (cells s)"
proof -
  assume inv: "rc_inv s R" and "(b, a) \<in> edges s"
  then obtain ob where ob: "cell (cells s) b = Some ob" "a \<in> set (refs_of (members ob))" by (auto simp: edges_def)
  have "cnt ob \<noteq> 0" using countedD [OF inv [unfolded rc_inv_def], of b] ob by (auto split: if_splits)
  then have "a \<in># owned (cells s ! b)" "b < length (cells s)" using cell_Some [OF ob(1)] ob(2) by (auto simp: owned_def)
  then show ?thesis unfolding owners_def by (auto simp: in_Union_mset_iff sum_mset_sum_list [symmetric])
qed

lemma cell_ok_0: "cell_ok c n 0 \<Longrightarrow> n = 0 \<longleftrightarrow> c = None"
  by (cases c) (auto simp: unat_gt_0 split: if_splits)

lemma inv_alive:
  assumes "rc_inv s R"
  shows "a \<in># mset (refs_of (locals s)) + R + owners (cells s) \<longleftrightarrow> cell (cells s) a \<noteq> None"
proof -
  let ?M = "mset (refs_of (locals s)) + R + owners (cells s)"
  have "cell_ok (cell (cells s) a) (count ?M a) 0"
    using countedD [OF assms [unfolded rc_inv_def], of a] by simp
  then have "count ?M a = 0 \<longleftrightarrow> cell (cells s) a = None" by (rule cell_ok_0)
  then show ?thesis unfolding count_eq_zero_iff by metis
qed

lemma finite_edges: "rc_inv s R \<Longrightarrow> finite (edges s)"
proof (rule finite_subset)
  assume inv: "rc_inv s R"
  show "edges s \<subseteq> {..<length (cells s)} \<times> {..<length (cells s)}"
  proof clarify
    fix b a
    assume e: "(b, a) \<in> edges s"
    then have "cell (cells s) a \<noteq> None" using inv_alive [OF inv, of a] edge_owner [OF inv e] by auto
    then show "b \<in> {..<length (cells s)} \<and> a \<in> {..<length (cells s)}"
      using e by (auto simp: edges_def cell_def split: if_splits)
  qed
qed simp

lemma live_alive: "rc_inv s {#} \<Longrightarrow> a \<in> live s \<Longrightarrow> cell (cells s) a \<noteq> None"
proof -
  assume inv: "rc_inv s {#}" and "a \<in> live s"
  then obtain r where r: "r \<in> set (refs_of (locals s))" "(r, a) \<in> (edges s)\<^sup>*" by (auto simp: live_def)
  from r(2,1) show ?thesis
  proof (cases rule: rtranclE)
    case (step y)
    then show ?thesis using inv_alive [OF inv, of a] edge_owner [OF inv step(2)] by simp
  qed (use inv_alive [OF inv, of a] r(1) in auto)
qed

lemma alive_live:
  assumes inv: "rc_inv s {#}" and ac: "acyclic (edges s)" and "cell (cells s) a \<noteq> None"
  shows "a \<in> live s"
proof -
  have "wf (edges s)" using finite_acyclic_wf [OF finite_edges [OF inv] ac] .
  then show ?thesis using assms(3)
  proof (induction a rule: wf_induct_rule)
    case (less a)
    then have "a \<in># mset (refs_of (locals s)) + owners (cells s)" using inv_alive [OF inv, of a] by simp
    then consider "a \<in> set (refs_of (locals s))" | "a \<in># owners (cells s)" by auto
    then show ?case
    proof cases
      case 1
      then show ?thesis by (auto simp: live_def)
    next
      case 2
      then obtain b ob where b: "cell (cells s) b = Some ob" "a \<in> set (refs_of (members ob))"
        using in_owners by blast
      then have e: "(b, a) \<in> edges s" by (auto simp: edges_def)
      with less.IH [OF e] b show ?thesis by (auto simp: live_def intro: rtrancl_into_rtrancl)
    qed
  qed
qed

subsection \<open>Refinement: garbage collection\<close>

text \<open>
  The abstract machine has no counts (they are 0 in its states): an operation writes the pointers, then
  every object that no variable reaches is gone.
\<close>

definition plain :: "rstate \<Rightarrow> rstate" where
  "plain s = s\<lparr>cells := map (map_option (\<lambda>ob. ob\<lparr>cnt := 0\<rparr>)) (cells s)\<rparr>"

definition collect :: "rstate \<Rightarrow> rstate" where
  "collect s = s\<lparr>cells := map (\<lambda>a. if a \<in> live s then cells s ! a else None) [0..<length (cells s)]\<rparr>"

definition gc_step :: "rop \<Rightarrow> rstate \<Rightarrow> rstate" where
  "gc_step opn s = collect (plain (effect opn s))"

lemma cell_plain: "cell (cells (plain s)) a = map_option (\<lambda>ob. ob\<lparr>cnt := 0\<rparr>) (cell (cells s) a)"
  by (simp add: plain_def cell_def)

lemma plain_simps [simp]:
  "locals (plain s) = locals s" "length (cells (plain s)) = length (cells s)" "plain (plain s) = plain s"
  by (simp_all add: plain_def option.map_comp comp_def)

lemma edges_plain [simp]: "edges (plain s) = edges s"
  by (auto simp: edges_def cell_plain)

lemma live_plain [simp]: "live (plain s) = live s"
  by (simp add: live_def)

lemma get_plain [simp]: "get_ptr l (plain s) = get_ptr l s"
  by (auto simp: get_ptr_def cell_plain split: rptr.splits option.splits)

lemma val_plain [simp]: "val l (plain s) = val l s"
  by (simp add: val_def)

lemma cast_val_plain [simp]: "cast_val K l (plain s) = cast_val K l s"
  by (auto simp: cast_val_def cell_plain split: option.splits)

lemma plain_upd: "plain (upd_ptr l p s) = upd_ptr l p (plain s)"
  by (cases l) (auto simp: upd_ptr_Local upd_ptr_Member plain_def put_def cell_def map_update option.map_comp comp_def)

lemma plain_nulls: "null_locals js (plain s) = plain (null_locals js s)" "local_vals js (plain s) = local_vals js s"
  by (induction js arbitrary: s) (auto simp flip: plain_upd)

lemma plain_add: "plain (add_object c ps (plain s)) = plain (add_object c ps s)"
  by (simp add: add_object_def plain_def option.map_comp comp_def)

lemma plain_effect: "plain (effect opn (plain s)) = plain (effect opn s)"
  by (cases opn) (auto simp: plain_upd plain_nulls plain_add)

lemma trimmed_edges: "trimmed s s' \<Longrightarrow> edges s' \<subseteq> edges s"
  by (fastforce simp: trimmed_def survives_def edges_def)

lemma trimmed_live:
  assumes tr: "trimmed s s'" and inv: "rc_inv s' {#}"
  shows "live s' = live s"
proof
  show "live s' \<subseteq> live s"
    using trimmed_edges [OF tr] rtrancl_mono [of "edges s'" "edges s"] tr by (auto simp: live_def trimmed_def)
  show "live s \<subseteq> live s'"
  proof
    fix a
    assume "a \<in> live s"
    then obtain r where r: "r \<in> set (refs_of (locals s'))" "(r, a) \<in> (edges s)\<^sup>*"
      using tr by (auto simp: live_def trimmed_def)
    from r(2) show "a \<in> live s'"
    proof (induction rule: rtrancl_induct)
      case base
      then show ?case using r(1) by (auto simp: live_def)
    next
      case (step y z)
      obtain ob' where ob': "cell (cells s') y = Some ob'" using live_alive [OF inv step.IH] by blast
      then have "(y, z) \<in> edges s'"
        using step.hyps(2) tr unfolding trimmed_def survives_def by (fastforce simp: edges_def)
      then show ?case using step.IH by (auto simp: live_def intro: rtrancl_into_rtrancl)
    qed
  qed
qed

lemma collect_nth:
  "a < length (cells s) \<Longrightarrow> cells (collect (plain s)) ! a
     = (if a \<in> live s then map_option (\<lambda>ob. ob\<lparr>cnt := 0\<rparr>) (cells s ! a) else None)"
  unfolding collect_def live_plain by (simp add: plain_def)

lemma collect_trimmed:
  assumes tr: "trimmed s s'" and inv: "rc_inv s' {#}" and ac: "acyclic (edges s)"
  shows "plain s' = collect (plain s)"
proof -
  have live: "a \<in> live s \<longleftrightarrow> cell (cells s') a \<noteq> None" for a
    using live_alive [OF inv] alive_live [OF inv] acyclic_subset [OF ac trimmed_edges [OF tr]]
      trimmed_live [OF tr inv] by blast
  have len: "length (cells s') = length (cells s)" and loc: "locals s' = locals s" using tr by (auto simp: trimmed_def)
  have "cells (plain s') = cells (collect (plain s))"
  proof (rule nth_equalityI)
    show "length (cells (plain s')) = length (cells (collect (plain s)))" by (simp add: collect_def len)
    fix a
    assume a: "a < length (cells (plain s'))"
    show "cells (plain s') ! a = cells (collect (plain s)) ! a"
    proof (cases "cell (cells s') a")
      case None
      then show ?thesis using a live [of a] len by (simp add: collect_nth) (simp add: plain_def cell_def)
    next
      case (Some ob')
      then obtain ob where "cell (cells s) a = Some ob" "members ob' = members ob" "class_of ob' = class_of ob"
        using tr by (auto simp: trimmed_def survives_def)
      then show ?thesis
        using a live [of a] len Some by (simp add: collect_nth) (simp add: plain_def cell_def)
    qed
  qed
  then show ?thesis by (simp add: collect_def plain_def loc)
qed

definition rc_init :: "nat \<Rightarrow> rstate" where
  "rc_init n = \<lparr>locals = replicate n None, cells = []\<rparr>"

lemma refs_replicate [simp]: "refs_of (replicate n None) = []"
  by (simp add: refs_of_def)

lemma rc_inv_init: "rc_inv (rc_init n) {#}"
  by (simp add: rc_inv_def rc_init_def counted_def cell_def owners_def)

text \<open>
  Operations with a guard, run one after the other: what each keeps, a sequence keeps, when every guard
  holds at its turn.
\<close>

fun guarded :: "('o \<Rightarrow> 's \<Rightarrow> 's res) \<Rightarrow> ('o \<Rightarrow> 's \<Rightarrow> bool) \<Rightarrow> 'o list \<Rightarrow> 's \<Rightarrow> bool" where
  "guarded run_op guard [] s = True"
| "guarded run_op guard (opn # ops) s =
     (guard opn s \<and> (case run_op opn s of Inl _ \<Rightarrow> True | Inr s' \<Rightarrow> guarded run_op guard ops s'))"

locale guarded_ops =
  fixes run_op :: "'o \<Rightarrow> 's \<Rightarrow> 's res" and guard :: "'o \<Rightarrow> 's \<Rightarrow> bool" and keeps :: "'s \<Rightarrow> bool" and allowed :: "error \<Rightarrow> bool"
  assumes op_keeps: "keeps s \<Longrightarrow> guard opn s \<Longrightarrow> run_op opn s = Inr s' \<Longrightarrow> keeps s'"
    and op_allowed: "keeps s \<Longrightarrow> guard opn s \<Longrightarrow> run_op opn s = Inl e \<Longrightarrow> allowed e"
begin

lemma ops_keep: "keeps s \<Longrightarrow> guarded run_op guard ops s \<Longrightarrow> foldE run_op ops s = Inr s' \<Longrightarrow> keeps s'"
proof (induction ops arbitrary: s)
  case (Cons opn ops)
  then obtain s1 where 1: "run_op opn s = Inr s1" "foldE run_op ops s1 = Inr s'" by auto
  have "keeps s1" using op_keeps [of s opn s1] Cons.prems 1(1) by simp
  then show ?case using Cons.IH [of s1] Cons.prems 1 by simp
qed simp

lemma ops_allowed: "keeps s \<Longrightarrow> guarded run_op guard ops s \<Longrightarrow> foldE run_op ops s = Inl e \<Longrightarrow> allowed e"
proof (induction ops arbitrary: s)
  case (Cons opn ops)
  show ?case
  proof (cases "run_op opn s")
    case (Inl e')
    then show ?thesis using Cons.prems op_allowed [of s opn e] by simp
  next
    case (Inr s1)
    have "keeps s1" using op_keeps [of s opn s1] Cons.prems Inr by simp
    then show ?thesis using Cons.IH [of s1] Cons.prems Inr by simp
  qed
qed simp

end

abbreviation ops_ok :: "rop list \<Rightarrow> rstate \<Rightarrow> bool" where
  "ops_ok \<equiv> guarded exec_op op_ok"

interpretation retain_ops: guarded_ops exec_op op_ok "\<lambda>s. rc_inv s {#}" "\<lambda>e. e = overflow"
  by unfold_locales (auto dest: exec_op_ok)

subsection \<open>What \<^verbatim>\<open>retain_ptr\<close> promises\<close>

text \<open>
  C8: after any sequence of operations that \<open>op_ok\<close> allows the count of every object is the number of \<^verbatim>\<open>retain_ptr\<close>s that
  refer to it, no pointer refers to a freed object, and no operation follows such a pointer or fails an
  assertion, unless a count reaches its maximum of 64 bits.
\<close>

theorem retain_ptr_counts:
  assumes "ops_ok ops (rc_init n)"
  shows "case foldE exec_op ops (rc_init n) of
      Inl e \<Rightarrow> e = overflow
    | Inr s \<Rightarrow> \<forall>a. (case cell (cells s) a of
          None \<Rightarrow> a \<notin># mset (refs_of (locals s)) + owners (cells s)
        | Some ob \<Rightarrow> cnt ob \<noteq> 0 \<and> unat (cnt ob) = count (mset (refs_of (locals s)) + owners (cells s)) a)"
proof (cases "foldE exec_op ops (rc_init n)")
  case (Inl e)
  then show ?thesis using retain_ops.ops_allowed [OF rc_inv_init assms] by simp
next
  case (Inr s)
  then have inv: "rc_inv s {#}" using retain_ops.ops_keep [OF rc_inv_init assms] by simp
  have "case cell (cells s) a of
          None \<Rightarrow> a \<notin># mset (refs_of (locals s)) + owners (cells s)
        | Some ob \<Rightarrow> cnt ob \<noteq> 0 \<and> unat (cnt ob) = count (mset (refs_of (locals s)) + owners (cells s)) a" for a
  proof (cases "cell (cells s) a")
    case None
    then show ?thesis using inv_alive [OF inv, of a] by simp
  next
    case (Some ob)
    then show ?thesis using countedD [OF inv [unfolded rc_inv_def], of a] by (auto split: if_splits)
  qed
  then show ?thesis using Inr by simp
qed

theorem retain_ptr_counts_witness:
  "ops_ok [Make 0 7 [], Construct_copy 1 (Local 0), Make 2 8 [1], Assign_copy (Local 1) (Member 1 0)] (rc_init 3)
   \<and> foldE exec_op [Make 0 7 [], Construct_copy 1 (Local 0), Make 2 8 [1], Assign_copy (Local 1) (Member 1 0)] (rc_init 3)
     = Inr \<lparr>locals = [Some 0, Some 0, Some 1],
         cells = [Some \<lparr>cnt = 3, members = [], class_of = 7\<rparr>, Some \<lparr>cnt = 1, members = [Some 0], class_of = 8\<rparr>]\<rparr>
   \<and> unat (3 :: 64 word) = count {#0, 0, 1, 0#} (0 :: nat)"
proof -
  let ?ops = "[Make 0 7 [], Construct_copy 1 (Local 0), Make 2 8 [1], Assign_copy (Local 1) (Member 1 0)]"
  have ok: "ops_ok ?ops (rc_init 3)" by code_simp
  have r: "foldE exec_op ?ops (rc_init 3)
     = Inr \<lparr>locals = [Some 0, Some 0, Some 1],
         cells = [Some \<lparr>cnt = 3, members = [], class_of = 7\<rparr>, Some \<lparr>cnt = 1, members = [Some 0], class_of = 8\<rparr>]\<rparr>"
    by code_simp
  show ?thesis
    using retain_ptr_counts [OF ok] ok r by (auto simp: cell_def owners_def owned_def refs_of_def dest: spec [of _ 0])
qed

text \<open>
  C7: reference counting refines garbage collection. As long as the objects do not own each other in a
  circle, an operation on \<^verbatim>\<open>retain_ptr\<close>s leaves exactly the objects that a variable still reaches: none is
  freed too early and none stays behind.
\<close>

theorem retain_ptr_refines:
  assumes "rc_inv s {#}" and "op_ok opn s" and "acyclic (edges (effect opn s))" and "exec_op opn s = Inr s'"
  shows "plain s' = gc_step opn (plain s)"
proof -
  have "rc_inv s' {#}" "trimmed (effect opn s) s'" using exec_op_ok [OF assms(1,2)] assms(4) by auto
  from collect_trimmed [OF this(2,1) assms(3)] show ?thesis by (simp add: gc_step_def plain_effect)
qed

theorem retain_ptr_refines_witness:
  "plain \<lparr>locals = [None], cells = [None]\<rparr>
     = gc_step (Destroy (Local 0)) (plain \<lparr>locals = [Some 0], cells = [Some \<lparr>cnt = 1, members = [], class_of = 7\<rparr>]\<rparr>)"
proof (rule retain_ptr_refines)
  let ?s = "\<lparr>locals = [Some 0], cells = [Some \<lparr>cnt = 1, members = [], class_of = 7\<rparr>]\<rparr>"
  have "foldE exec_op [Make 0 7 []] (rc_init 1) = Inr ?s" by code_simp
  moreover have "ops_ok [Make 0 7 []] (rc_init 1)" by code_simp
  ultimately show "rc_inv ?s {#}" using retain_ops.ops_keep [OF rc_inv_init] by blast
  show "op_ok (Destroy (Local 0)) ?s" by simp
  have "edges (effect (Destroy (Local 0)) ?s) = {}"
    by (auto simp: edges_def upd_ptr_def cell_def split: if_splits)
  then show "acyclic (edges (effect (Destroy (Local 0)) ?s))" by (simp add: acyclic_def)
  show "exec_op (Destroy (Local 0)) ?s = Inr \<lparr>locals = [None], cells = [None]\<rparr>" by code_simp
qed

lemma destroy_locals:
  assumes "rc_inv s {#}" and "acyclic (edges s)" and "set is \<subseteq> {..<length (locals s)}"
  shows "\<exists>s'. foldE exec_op (map (\<lambda>i. Destroy (Local i)) is) s = Inr s' \<and> rc_inv s' {#} \<and> acyclic (edges s')
    \<and> length (locals s') = length (locals s)
    \<and> (\<forall>i < length (locals s). locals s' ! i = (if i \<in> set is then None else locals s ! i))"
  using assms
proof (induction "is" arbitrary: s)
  case (Cons i "is")
  have ok: "ptr_ok (Local i) s" using Cons.prems(3) by simp
  obtain s1 where s1: "exec_op (Destroy (Local i)) s = Inr s1" "rc_inv s1 {#}" "trimmed (upd_ptr (Local i) None s) s1"
    using reset_ok [OF ok, of "{#}" None] Cons.prems(1) by (auto simp: dtor_def reset_def)
  have e: "edges s1 \<subseteq> edges s"
    using trimmed_edges [OF s1(3)] by (auto simp: edges_def upd_ptr_Local)
  have l: "locals s1 = (locals s)[i := None]" using s1(3) by (simp add: trimmed_def upd_ptr_Local)
  have "set is \<subseteq> {..<length (locals s1)}" using Cons.prems(3) l by simp
  from Cons.IH [OF s1(2) acyclic_subset [OF Cons.prems(2) e] this] show ?case
    using s1(1) l Cons.prems(3) by (auto simp: nth_list_update)
qed auto

text \<open>
  C9: when the variables of a program are destroyed, in any order and after any operations that \<open>op_ok\<close> allows,
  every object is freed, provided that the objects do not own each other in a circle.
\<close>

theorem retain_ptr_frees:
  assumes "ops_ok ops (rc_init n)" and "foldE exec_op ops (rc_init n) = Inr s" and "acyclic (edges s)"
    and "set is = {..<length (locals s)}"
  shows "\<exists>s'. foldE exec_op (map (\<lambda>i. Destroy (Local i)) is) s = Inr s' \<and> (\<forall>a. cell (cells s') a = None)"
proof -
  have inv: "rc_inv s {#}" by (rule retain_ops.ops_keep [OF rc_inv_init assms(1,2)])
  obtain s' where s': "foldE exec_op (map (\<lambda>i. Destroy (Local i)) is) s = Inr s'" "rc_inv s' {#}" "acyclic (edges s')"
      "length (locals s') = length (locals s)" "\<forall>i < length (locals s). locals s' ! i = None"
    using destroy_locals [OF inv assms(3), of "is"] assms(4) by auto
  have "refs_of (locals s') = []" using s'(4,5) by (auto simp: refs_of_def filter_empty_conv in_set_conv_nth)
  then have "live s' = {}" by (simp add: live_def)
  then have "cell (cells s') a = None" for a
    using alive_live [OF s'(2,3), of a] by (cases "cell (cells s') a") auto
  then show ?thesis using s'(1) by blast
qed

theorem retain_ptr_frees_witness:
  "\<exists>s'. foldE exec_op (map (\<lambda>i. Destroy (Local i)) [1, 0])
      \<lparr>locals = [Some 0, Some 0], cells = [Some \<lparr>cnt = 2, members = [], class_of = 7\<rparr>]\<rparr> = Inr s'
    \<and> (\<forall>a. cell (cells s') a = None)"
proof (rule retain_ptr_frees)
  let ?ops = "[Make 0 7 [], Construct_copy 1 (Local 0)]"
  let ?s = "\<lparr>locals = [Some 0, Some 0], cells = [Some \<lparr>cnt = 2, members = [], class_of = 7\<rparr>]\<rparr>"
  show "ops_ok ?ops (rc_init 2)" by code_simp
  show "foldE exec_op ?ops (rc_init 2) = Inr ?s" by code_simp
  have "edges ?s = {}" by (auto simp: edges_def cell_def split: if_splits)
  then show "acyclic (edges ?s)" by (simp add: acyclic_def)
  show "set [1, 0] = {..<length (locals ?s)}" by auto
qed

text \<open>\<^verbatim>\<open>decr\<close> leaves exactly the objects that are reached without the pointer.\<close>

lemma reset_live:
  assumes inv: "rc_inv s {#}" and ok: "ptr_ok l s" and ac: "acyclic (edges (upd_ptr l None s))"
  shows "\<exists>s1. decr l s = Inr s1 \<and> ptr_ok l s1 \<and> rc_inv (upd_ptr l None s1) {#}
    \<and> (\<forall>b. cell (cells (upd_ptr l None s1)) b \<noteq> None \<longleftrightarrow> b \<in> live (upd_ptr l None s))"
proof -
  obtain s1 where s1: "decr l s = Inr s1" "released l s s1 {#}" using decr_ok [OF ok inv] by blast
  then have r: "trimmed s s1" "ptr_ok l s1" "rc_inv (upd_ptr l None s1) {#}" using released_trimmed by blast+
  have tr: "trimmed (upd_ptr l None s) (upd_ptr l None s1)" using trimmed_upd r by blast
  have "acyclic (edges (upd_ptr l None s1))" using acyclic_subset [OF ac trimmed_edges [OF tr]] .
  then have "cell (cells (upd_ptr l None s1)) b \<noteq> None \<longleftrightarrow> b \<in> live (upd_ptr l None s)" for b
    using alive_live [OF r(3)] live_alive [OF r(3)] trimmed_live [OF tr r(3)] by blast
  then show ?thesis using s1(1) r by blast
qed

text \<open>
  C36: copy assignment drops the old reference before it takes the new one. Without circles of objects, it uses
  an object that it has just freed exactly when no variable reaches the object of the source but through the
  target. So \<^verbatim>\<open>p = p\<close> and \<^verbatim>\<open>p = p->next\<close> fail when \<open>p\<close> is the last way to the object, and are safe otherwise.
\<close>

theorem asgn_copy_use_after_free:
  assumes inv: "rc_inv s {#}" and ok: "ptr_ok l s" and b: "get_ptr r s = Inr (Some b)"
    and ac: "acyclic (edges (upd_ptr l None s))"
  shows "asgn_copy l r s = Inl use_after_free \<longleftrightarrow> b \<notin> live (upd_ptr l None s)"
proof -
  obtain s1 where s1: "decr l s = Inr s1" "ptr_ok l s1" "rc_inv (upd_ptr l None s1) {#}"
      "cell (cells (upd_ptr l None s1)) b \<noteq> None \<longleftrightarrow> b \<in> live (upd_ptr l None s)"
    using reset_live [OF inv ok ac] by blast
  have eq: "asgn_copy l r s = incr l (upd_ptr l (Some b) s1)"
    using s1 b by (simp add: asgn_copy_def reset_def set_ptr_eq)
  show ?thesis
  proof (cases "b \<in> live (upd_ptr l None s)")
    case True
    then have "outcome (asgn_copy l r s) (\<lambda>s'. rc_inv s' {#} \<and> trimmed (upd_ptr l (Some b) s1) s')"
      unfolding eq using incr_ok [OF s1(2,3)] s1(4) by blast
    then show ?thesis using True by (auto simp: overflow_def use_after_free_def)
  next
    case False
    then have "cell (cells (upd_ptr l (Some b) s1)) b = None"
      using s1(4) by (cases l) (auto simp: upd_ptr_Local upd_ptr_Member cell_put)
    then show ?thesis using False get_upd [OF s1(2)] by (simp add: eq incr_def)
  qed
qed

theorem asgn_copy_use_after_free_witness:
  "asgn_copy (Local 1) (Member 1 0)
     \<lparr>locals = [None, Some 1],
      cells = [Some \<lparr>cnt = 1, members = [], class_of = 7\<rparr>, Some \<lparr>cnt = 1, members = [Some 0], class_of = 8\<rparr>]\<rparr>
     = Inl use_after_free"
proof -
  let ?s = "\<lparr>locals = [None, Some 1],
      cells = [Some \<lparr>cnt = 1, members = [], class_of = 7\<rparr>, Some \<lparr>cnt = 1, members = [Some 0], class_of = 8\<rparr>]\<rparr>"
  let ?ops = "[Make 0 7 [], Make 1 8 [0]]"
  have "foldE exec_op ?ops (rc_init 2) = Inr ?s" "ops_ok ?ops (rc_init 2)" by code_simp+
  then have inv: "rc_inv ?s {#}" using retain_ops.ops_keep [OF rc_inv_init] by blast
  have ptr: "get_ptr (Member 1 0) ?s = Inr (Some 0)" by code_simp
  have "edges (upd_ptr (Local 1) None ?s) \<subseteq> {(1, 0)}"
    by (auto simp: edges_def upd_ptr_def cell_def refs_of_def nth_Cons split: if_splits nat.splits)
  then have ac: "acyclic (edges (upd_ptr (Local 1) None ?s))"
    by (rule acyclic_subset [rotated]) (simp add: acyclic_def trancl_insert)
  have "live (upd_ptr (Local 1) None ?s) = {}" by (simp add: live_def upd_ptr_def refs_of_def)
  then show ?thesis using asgn_copy_use_after_free [OF inv _ ptr ac] by simp
qed
text \<open>
  C37: the dynamic cast of an rvalue leaks when it fails: the pointer is detached and the new pointer is
  null, so that the object keeps a reference that no \<^verbatim>\<open>retain_ptr\<close> holds.
\<close>

theorem dynamic_move_leaks:
  assumes inv: "rc_inv s {#}" and "fresh_local i s" and ok: "ptr_ok l s" and p: "get_ptr l s = Inr (Some a)"
    and ob: "cell (cells s) a = Some ob" "\<not> is_a (class_of ob)"
  shows "\<exists>s'. dynamic_pointer_cast_move is_a (Local i) l s = Inr s'
    \<and> get_ptr (Local i) s' = Inr None \<and> rc_inv s' {#a#}"
proof -
  let ?s = "upd_ptr l None s"
  have d: "detach l s = Inr (Some a, ?s)" "rc_inv ?s {#a#}" using detach_ok [OF ok inv] p by auto
  obtain ob' where "cell (cells ?s) a = Some ob'" "class_of ob' = class_of ob"
    using class_upd [OF ob(1), of l None] by blast
  then have c: "dynamic_cast is_a (Some a) ?s = Inr None" using ob(2) by (simp add: dynamic_cast_def)
  note f = fresh_ok [OF fresh_upd [OF assms(2), of l]]
  have "ctor_adopt (Local i) None ?s = Inr ?s"
    using f upd_same [of "Local i" ?s None] by (simp add: ctor_adopt_def set_ptr_eq)
  then show ?thesis using d c f by (simp add: dynamic_pointer_cast_move_def)
qed

theorem dynamic_move_leaks_witness:
  "\<exists>s'. dynamic_pointer_cast_move (\<lambda>c. c = 8) (Local 1) (Local 0)
      \<lparr>locals = [Some 0, None], cells = [Some \<lparr>cnt = 1, members = [], class_of = 7\<rparr>]\<rparr> = Inr s'
    \<and> get_ptr (Local 1) s' = Inr None \<and> rc_inv s' {#0#}"
proof (rule dynamic_move_leaks)
  let ?s = "\<lparr>locals = [Some 0, None], cells = [Some \<lparr>cnt = 1, members = [], class_of = 7\<rparr>]\<rparr>"
  have "foldE exec_op [Make 0 7 []] (rc_init 2) = Inr ?s" by code_simp
  moreover have "ops_ok [Make 0 7 []] (rc_init 2)" by code_simp
  ultimately show "rc_inv ?s {#}" using retain_ops.ops_keep [OF rc_inv_init] by blast
qed (auto simp: fresh_local_def get_ptr_def cell_def)

end
