(* ===== verification/Runtime_Memory.thy ===== *)
theory Runtime_Memory
  imports Error_State Sem_Types
begin

section \<open>The memory of a generated program\<close>

text \<open>
  The functions of \<^verbatim>\<open>src/CodeGen\<close> that the names \<^verbatim>\<open>genFn\<close> and \<^verbatim>\<open>LifetimeExpr\<close> stand for write the functions of the
  run time library, in LLVM IR. Such a generator is modelled by the function it writes: a call of the
  IR builder is the instruction it appends, with the meaning that the LLVM reference gives it, a branch
  to two blocks is \<open>if\<close>, a loop over blocks is a recursion, and the local variables of a loop
  (\<^verbatim>\<open>allocStore\<close>) are its arguments. Attributes, linkage and names of functions are left out.

  Memory is a list of blocks; a block that was freed is \<open>None\<close>. A block holds a tree of values, so that a
  pointer is a block and a path in its tree. A pointer to a struct that is cast to a pointer to the first
  field stays the pointer to the struct. Where the reference has no defined behaviour (a bad pointer, a
  value that was not written, the overflow of an \<^verbatim>\<open>nsw\<close> operation, a shift by the width) the step ends in
  \<open>Undefined\<close>; a panic of the program is \<open>Fatal\<close>.
\<close>

datatype rval =
    Undef
  | I1 bool
  | I8 "8 word"
  | I32 "32 word"
  | I64 "64 word"
  | F32 "32 word"
  | Ptr "(nat \<times> nat list) option"
  | Fn nat
  | Bytes "8 word list"
  | Agg "rval list"

record mem =
  blocks :: "rval option list"
  avail :: nat

type_synonym 'a mem_m = "(mem, 'a) se"

definition bad_access :: error where
  "bad_access = Undefined ''invalid memory access''"

definition poison :: error where
  "poison = Undefined ''poison value''"

definition panicked :: "string \<Rightarrow> error" where
  "panicked msg = Fatal no_loc msg"

subsection \<open>Blocks\<close>

fun at_path :: "rval \<Rightarrow> nat list \<Rightarrow> rval option" where
  "at_path v [] = Some v"
| "at_path (Agg vs) (i # p) = (if i < length vs then at_path (vs ! i) p else None)"
| "at_path v (i # p) = None"

fun put_path :: "rval \<Rightarrow> nat list \<Rightarrow> rval \<Rightarrow> rval option" where
  "put_path v [] w = Some w"
| "put_path (Agg vs) (i # p) w =
     (if i < length vs then map_option (\<lambda>v. Agg (vs[i := v])) (put_path (vs ! i) p w) else None)"
| "put_path v (i # p) w = None"

definition block :: "mem \<Rightarrow> nat \<Rightarrow> rval option" where
  "block m b = (if b < length (blocks m) then blocks m ! b else None)"

definition loadAt :: "nat \<times> nat list \<Rightarrow> rval mem_m" where
  "loadAt l m =
     (case Option.bind (block m (fst l)) (\<lambda>v. at_path v (snd l)) of
        None \<Rightarrow> Inl bad_access
      | Some v \<Rightarrow> Inr (v, m))"

definition storeAt :: "nat \<times> nat list \<Rightarrow> rval \<Rightarrow> unit mem_m" where
  "storeAt l v m =
     (case Option.bind (block m (fst l)) (\<lambda>u. put_path u (snd l) v) of
        None \<Rightarrow> Inl bad_access
      | Some u \<Rightarrow> Inr ((), m\<lparr>blocks := (blocks m)[fst l := Some u]\<rparr>))"

subsection \<open>Instructions\<close>

definition createLoad :: "rval \<Rightarrow> rval mem_m" where
  "createLoad p = (case p of Ptr (Some l) \<Rightarrow> loadAt l | _ \<Rightarrow> failS bad_access)"

definition createStore :: "rval \<Rightarrow> rval \<Rightarrow> unit mem_m" where
  "createStore v p = (case p of Ptr (Some l) \<Rightarrow> storeAt l v | _ \<Rightarrow> failS bad_access)"

definition structGEP :: "rval \<Rightarrow> nat \<Rightarrow> rval" where
  "structGEP p i = (case p of Ptr (Some (b, q)) \<Rightarrow> Ptr (Some (b, q @ [i])) | _ \<Rightarrow> Undef)"

definition indexGEP :: "rval \<Rightarrow> nat \<Rightarrow> rval" where
  "indexGEP p n =
     (case p of
        Ptr (Some (b, q)) \<Rightarrow> if q = [] then Undef else Ptr (Some (b, butlast q @ [last q + n]))
      | Ptr None \<Rightarrow> if n = 0 then Ptr None else Undef
      | _ \<Rightarrow> Undef)"

definition isNotNull :: "rval \<Rightarrow> bool mem_m" where
  "isNotNull p = (case p of Ptr q \<Rightarrow> retS (q \<noteq> None) | _ \<Rightarrow> failS poison)"

definition asI32 :: "rval \<Rightarrow> 32 word mem_m" where
  "asI32 v = (case v of I32 w \<Rightarrow> retS w | _ \<Rightarrow> failS poison)"

definition asI64 :: "rval \<Rightarrow> 64 word mem_m" where
  "asI64 v = (case v of I64 w \<Rightarrow> retS w | _ \<Rightarrow> failS poison)"

text \<open>\<^verbatim>\<open>CreateNSWAdd\<close>, \<^verbatim>\<open>CreateNSWSub\<close> and \<^verbatim>\<open>CreateNSWMul\<close>: the signed result must fit.\<close>

definition nsw :: "'w :: len word \<Rightarrow> int \<Rightarrow> ('w word) mem_m" where
  "nsw w r = (if sint w = r then retS w else failS poison)"

definition nswAdd :: "'w :: len word \<Rightarrow> 'w word \<Rightarrow> ('w word) mem_m" where
  "nswAdd x y = nsw (x + y) (sint x + sint y)"

definition nswSub :: "'w :: len word \<Rightarrow> 'w word \<Rightarrow> ('w word) mem_m" where
  "nswSub x y = nsw (x - y) (sint x - sint y)"

definition nswMul :: "'w :: len word \<Rightarrow> 'w word \<Rightarrow> ('w word) mem_m" where
  "nswMul x y = nsw (x * y) (sint x * sint y)"

text \<open>\<^verbatim>\<open>CreateShl\<close> and the intrinsic \<^verbatim>\<open>llvm.ctlz\<close>.\<close>

definition shl :: "32 word \<Rightarrow> 32 word \<Rightarrow> (32 word) mem_m" where
  "shl x n = (if unat n < 32 then retS (push_bit (unat n) x) else failS poison)"

fun ctlz_from :: "nat \<Rightarrow> 32 word \<Rightarrow> nat" where
  "ctlz_from 0 w = 0"
| "ctlz_from (Suc n) w = (if bit w n then 0 else Suc (ctlz_from n w))"

definition ctlz :: "32 word \<Rightarrow> 32 word" where
  "ctlz w = of_nat (ctlz_from 32 w)"

subsection \<open>Helpers of the generators\<close>

definition loadStructElem :: "rval \<Rightarrow> nat \<Rightarrow> rval mem_m" where
  "loadStructElem p i = createLoad (structGEP p i)"

definition arrayIndex :: "rval \<Rightarrow> 32 word \<Rightarrow> rval" where
  "arrayIndex p i = indexGEP p (unat i)"

definition setNull :: "rval \<Rightarrow> unit mem_m" where
  "setNull p = createStore (Ptr None) p"

definition callPanic :: "string \<Rightarrow> 'a mem_m" where
  "callPanic msg = failS (panicked msg)"

text \<open>
  \<^verbatim>\<open>alloc\<close> calls \<^verbatim>\<open>malloc\<close>, which may return null: \<open>avail\<close> more calls succeed. The new memory holds \<open>count\<close> values
  of the type, none of them written; \<open>shape\<close> is such a value.
\<close>

definition callAlloc :: "rval \<Rightarrow> nat \<Rightarrow> rval mem_m" where
  "callAlloc shape count m =
     (if avail m = 0 then callPanic ''Out of memory'' m
      else Inr (Ptr (Some (length (blocks m), [0])),
        \<lparr>blocks = blocks m @ [Some (Agg (replicate count shape))], avail = avail m - 1\<rparr>))"

definition callFree :: "rval \<Rightarrow> unit mem_m" where
  "callFree p m =
     (case p of
        Ptr None \<Rightarrow> Inr ((), m)
      | Ptr (Some (b, q)) \<Rightarrow>
          if q = [0] \<and> block m b \<noteq> None then Inr ((), m\<lparr>blocks := (blocks m)[b := None]\<rparr>) else Inl bad_access
      | _ \<Rightarrow> Inl bad_access)"

definition ceil_to_pow_2 :: "32 word \<Rightarrow> (32 word) mem_m" where
  "ceil_to_pow_2 x =
     bindS (nswSub x 1) (\<lambda>minus1.
     bindS (nswSub 32 (ctlz minus1)) (\<lambda>log2. shl 1 log2))"

end
