(* ===== verification/Runtime.thy ===== *)
theory Runtime
  imports Runtime_Memory
begin

section \<open>The run time library\<close>

text \<open>
  \<^verbatim>\<open>generate pointer.cpp\<close>, \<^verbatim>\<open>generate array.cpp\<close>, \<^verbatim>\<open>generate builtin.cpp\<close>, \<^verbatim>\<open>generate closure.cpp\<close>,
  \<^verbatim>\<open>generate struct.cpp\<close>, \<^verbatim>\<open>lifetime exprs.cpp\<close>, \<^verbatim>\<open>compare exprs.cpp\<close> and \<^verbatim>\<open>categories.cpp\<close>. A function that the
  source instantiates for a type is a function of the type; where it needs the functions of the element
  type they are arguments, and the recursion over types in \<open>destroy\<close> and its companions closes the circle.
\<close>

subsection \<open>Categories\<close>

datatype TypeCat = trivially_copyable | trivially_relocatable | nontrivial

fun classifyType :: "rty \<Rightarrow> TypeCat" where
  "classifyType (RBtn _) = trivially_copyable"
| "classifyType (RArray _) = trivially_relocatable"
| "classifyType (RFunc _ _) = trivially_relocatable"
| "classifyType (RNamed _ _ t) = classifyType t"
| "classifyType (RStruct _) = nontrivial"
| "classifyType (RUser _ _ _ _) = nontrivial"

datatype ValueCat = lvalue | xvalue | prvalue

definition glvalue :: "ValueCat \<Rightarrow> bool" where
  "glvalue c \<longleftrightarrow> c = lvalue \<or> c = xvalue"

datatype ArithCat = signed_int | unsigned_int | floating_point

definition classifyArith :: "BtnTypeEnum \<Rightarrow> ArithCat res" where
  "classifyArith t =
     (case t of
        Char \<Rightarrow> Inr signed_int | Sint \<Rightarrow> Inr signed_int
      | Bool \<Rightarrow> Inr unsigned_int | Byte \<Rightarrow> Inr unsigned_int | Uint \<Rightarrow> Inr unsigned_int
      | Real \<Rightarrow> Inr floating_point
      | Void \<Rightarrow> Inl (Undefined ''UNREACHABLE'') | Opaq \<Rightarrow> Inl (Undefined ''UNREACHABLE''))"

text \<open>
  What the functions depend on besides the types: the functions of the host program behind user types
  and the destructors of closures, both called by address, the stub of a function type, and the size of
  a type in bytes.
\<close>

record rt_env =
  host :: "nat \<Rightarrow> rval list \<Rightarrow> rval mem_m"
  vdtor :: "nat \<Rightarrow> rval \<Rightarrow> unit mem_m"
  stub_of :: "rty \<Rightarrow> nat"
  tsize :: "rty \<Rightarrow> nat"

text \<open>A value of a type that was not written yet; a closure is a struct of a function and a pointer.\<close>

fun undef_of :: "rty \<Rightarrow> rval" where
  "undef_of (RNamed _ _ t) = undef_of t"
| "undef_of (RStruct fs) = Agg (map (\<lambda>(n, t). undef_of t) fs)"
| "undef_of (RFunc _ _) = Agg [Undef, Undef]"
| "undef_of _ = Undef"

subsection \<open>Pointers\<close>

datatype RefChg = inc | dec

definition refChange :: "rval \<Rightarrow> RefChg \<Rightarrow> 64 word mem_m" where
  "refChange ptr chg =
     bindS (bindS (loadStructElem ptr 0) asI64) (\<lambda>r.
     bindS (if chg = inc then nswAdd r 1 else nswSub r 1) (\<lambda>changed.
     bindS (createStore (I64 changed) (structGEP ptr 0)) (\<lambda>_. retS changed)))"

definition initRefCount :: "rval \<Rightarrow> unit mem_m" where
  "initRefCount ptr = createStore (I64 1) (structGEP ptr 0)"

definition ptr_inc :: "rval \<Rightarrow> unit mem_m" where
  "ptr_inc ptr = bindS (isNotNull ptr) (\<lambda>notNull.
     if notNull then bindS (refChange ptr inc) (\<lambda>_. retS ()) else retS ())"

definition ptr_dec :: "(rval \<Rightarrow> unit mem_m) \<Rightarrow> rval \<Rightarrow> unit mem_m" where
  "ptr_dec dtr ptr = bindS (isNotNull ptr) (\<lambda>notNull.
     if notNull then
       bindS (refChange ptr dec) (\<lambda>subed.
         if subed = 0 then bindS (dtr ptr) (\<lambda>_. callFree ptr) else retS ())
     else retS ())"

definition ptr_dtor :: "(rval \<Rightarrow> unit mem_m) \<Rightarrow> rval \<Rightarrow> unit mem_m" where
  "ptr_dtor dtr ptrPtr = bindS (createLoad ptrPtr) (ptr_dec dtr)"

definition ptr_cop_ctor :: "rval \<Rightarrow> rval \<Rightarrow> unit mem_m" where
  "ptr_cop_ctor dstPtr srcPtr =
     bindS (createLoad srcPtr) (\<lambda>src.
     bindS (ptr_inc src) (\<lambda>_. createStore src dstPtr))"

definition ptr_cop_asgn :: "(rval \<Rightarrow> unit mem_m) \<Rightarrow> rval \<Rightarrow> rval \<Rightarrow> unit mem_m" where
  "ptr_cop_asgn dtr dstPtr srcPtr =
     bindS (createLoad dstPtr) (\<lambda>dst.
     bindS (createLoad srcPtr) (\<lambda>src.
     bindS (ptr_inc src) (\<lambda>_.
     bindS (ptr_dec dtr dst) (\<lambda>_. createStore src dstPtr))))"

definition ptr_mov_ctor :: "rval \<Rightarrow> rval \<Rightarrow> unit mem_m" where
  "ptr_mov_ctor dstPtr srcPtr =
     bindS (createLoad srcPtr) (\<lambda>src.
     bindS (createStore src dstPtr) (\<lambda>_. setNull srcPtr))"

definition ptr_mov_asgn :: "(rval \<Rightarrow> unit mem_m) \<Rightarrow> rval \<Rightarrow> rval \<Rightarrow> unit mem_m" where
  "ptr_mov_asgn dtr dstPtr srcPtr =
     bindS (createLoad dstPtr) (\<lambda>dst.
     bindS (ptr_dec dtr dst) (\<lambda>_.
     bindS (createLoad srcPtr) (\<lambda>src.
     bindS (createStore src dstPtr) (\<lambda>_. setNull srcPtr))))"

subsection \<open>Sequences of elements\<close>

text \<open>The loops of \<^verbatim>\<open>iterImpl\<close> and \<^verbatim>\<open>copyImpl\<close>.\<close>

function iter_loop :: "(rval \<Rightarrow> unit mem_m) \<Rightarrow> rval \<Rightarrow> 32 word \<Rightarrow> unit mem_m" where
  "iter_loop f dat len m =
     (if len = 0 then retS () m
      else bindS (f dat) (\<lambda>_. bindS (nswSub len 1) (\<lambda>decLen. iter_loop f (indexGEP dat 1) (len - 1))) m)"
  by pat_completeness auto
termination
  by (relation "measure (\<lambda>(f, dat, len, m). unat len)") (auto simp: unat_minus_one unat_gt_0)

function copy_loop :: "(rval \<Rightarrow> rval \<Rightarrow> unit mem_m) \<Rightarrow> rval \<Rightarrow> 32 word \<Rightarrow> rval \<Rightarrow> unit mem_m" where
  "copy_loop f src len dst m =
     (if len = 0 then retS () m
      else bindS (f dst src) (\<lambda>_. bindS (nswSub len 1) (\<lambda>decLen.
        copy_loop f (indexGEP src 1) (len - 1) (indexGEP dst 1))) m)"
  by pat_completeness auto
termination
  by (relation "measure (\<lambda>(f, src, len, dst, m). unat len)") (auto simp: unat_minus_one unat_gt_0)

text \<open>\<^verbatim>\<open>CreateMemSet\<close> with zero bytes and \<^verbatim>\<open>CreateMemCpy\<close>, on whole values.\<close>

fun memSet :: "rval \<Rightarrow> rval \<Rightarrow> nat \<Rightarrow> unit mem_m" where
  "memSet zero dat 0 = retS ()"
| "memSet zero dat (Suc n) = bindS (createStore zero dat) (\<lambda>_. memSet zero (indexGEP dat 1) n)"

fun memCpy :: "rval \<Rightarrow> rval \<Rightarrow> nat \<Rightarrow> unit mem_m" where
  "memCpy dst src 0 = retS ()"
| "memCpy dst src (Suc n) =
     bindS (createLoad src) (\<lambda>v. bindS (createStore v dst) (\<lambda>_. memCpy (indexGEP dst 1) (indexGEP src 1) n))"

fun zero_of :: "rty \<Rightarrow> rval" where
  "zero_of (RBtn b) =
     (case b of
        Bool \<Rightarrow> I1 False | Byte \<Rightarrow> I8 0 | Char \<Rightarrow> I8 0 | Real \<Rightarrow> F32 0 | Sint \<Rightarrow> I32 0 | Uint \<Rightarrow> I32 0
      | Opaq \<Rightarrow> Ptr None | Void \<Rightarrow> Undef)"
| "zero_of (RNamed _ _ t) = zero_of t"
| "zero_of _ = Undef"

definition construct_n :: "rt_env \<Rightarrow> rty \<Rightarrow> (rval \<Rightarrow> unit mem_m) \<Rightarrow> rval \<Rightarrow> 32 word \<Rightarrow> unit mem_m" where
  "construct_n env t defc dat len =
     (if classifyType t = trivially_copyable then
        bindS (nswMul len (of_nat (tsize env t))) (\<lambda>byteLen. memSet (zero_of t) dat (unat len))
      else iter_loop defc dat len)"

definition destroy_n :: "rty \<Rightarrow> (rval \<Rightarrow> unit mem_m) \<Rightarrow> rval \<Rightarrow> 32 word \<Rightarrow> unit mem_m" where
  "destroy_n t dtr dat len =
     (if classifyType t = trivially_copyable then retS () else iter_loop dtr dat len)"

definition copy_n :: "rt_env \<Rightarrow> rty \<Rightarrow> (rval \<Rightarrow> rval \<Rightarrow> unit mem_m) \<Rightarrow> rval \<Rightarrow> 32 word \<Rightarrow> rval \<Rightarrow> unit mem_m" where
  "copy_n env t copc src len dst =
     (if classifyType t = trivially_copyable then
        bindS (nswMul len (of_nat (tsize env t))) (\<lambda>byteLen. memCpy dst src (unat len))
      else copy_loop copc src len dst)"

definition move_n ::
  "rt_env \<Rightarrow> rty \<Rightarrow> (rval \<Rightarrow> rval \<Rightarrow> unit mem_m) \<Rightarrow> (rval \<Rightarrow> unit mem_m) \<Rightarrow> rval \<Rightarrow> 32 word \<Rightarrow> rval \<Rightarrow> unit mem_m" where
  "move_n env t movc dtr src len dst =
     (if classifyType t \<noteq> nontrivial then
        bindS (nswMul len (of_nat (tsize env t))) (\<lambda>byteLen. memCpy dst src (unat len))
      else copy_loop (\<lambda>dst src. bindS (movc dst src) (\<lambda>_. dtr src)) src len dst)"

subsection \<open>Arrays\<close>

text \<open>
  The storage of an array is a struct of the reference count, the capacity, the length and a pointer to
  the elements.
\<close>

abbreviation (input) array_idx_cap :: nat where "array_idx_cap \<equiv> 1"
abbreviation (input) array_idx_len :: nat where "array_idx_len \<equiv> 2"
abbreviation (input) array_idx_dat :: nat where "array_idx_dat \<equiv> 3"

definition storage_shape :: rval where
  "storage_shape = Agg [Undef, Undef, Undef, Undef]"

definition arr_strg_dtor :: "rty \<Rightarrow> (rval \<Rightarrow> unit mem_m) \<Rightarrow> rval \<Rightarrow> unit mem_m" where
  "arr_strg_dtor t dtr obj =
     bindS (bindS (loadStructElem obj array_idx_len) asI32) (\<lambda>objLen.
     bindS (loadStructElem obj array_idx_dat) (\<lambda>objDat.
     bindS (destroy_n t dtr objDat objLen) (\<lambda>_. callFree objDat)))"

definition arr_dtor :: "rty \<Rightarrow> (rval \<Rightarrow> unit mem_m) \<Rightarrow> rval \<Rightarrow> unit mem_m" where
  "arr_dtor t dtr obj = ptr_dtor (arr_strg_dtor t dtr) obj"

definition arr_def_ctor :: "rval \<Rightarrow> unit mem_m" where
  "arr_def_ctor arrayPtr =
     bindS (callAlloc storage_shape 1) (\<lambda>array.
     bindS (initRefCount array) (\<lambda>_.
     bindS (createStore (I32 0) (structGEP array array_idx_cap)) (\<lambda>_.
     bindS (createStore (I32 0) (structGEP array array_idx_len)) (\<lambda>_.
     bindS (setNull (structGEP array array_idx_dat)) (\<lambda>_.
       createStore array arrayPtr)))))"

definition arr_cop_ctor :: "rval \<Rightarrow> rval \<Rightarrow> unit mem_m" where
  "arr_cop_ctor dst src = ptr_cop_ctor dst src"

definition arr_cop_asgn :: "rty \<Rightarrow> (rval \<Rightarrow> unit mem_m) \<Rightarrow> rval \<Rightarrow> rval \<Rightarrow> unit mem_m" where
  "arr_cop_asgn t dtr dst src = ptr_cop_asgn (arr_strg_dtor t dtr) dst src"

definition arr_mov_ctor :: "rval \<Rightarrow> rval \<Rightarrow> unit mem_m" where
  "arr_mov_ctor dst src = ptr_mov_ctor dst src"

definition arr_mov_asgn :: "rty \<Rightarrow> (rval \<Rightarrow> unit mem_m) \<Rightarrow> rval \<Rightarrow> rval \<Rightarrow> unit mem_m" where
  "arr_mov_asgn t dtr dst src = ptr_mov_asgn (arr_strg_dtor t dtr) dst src"

definition checkSignedBounds :: "32 word \<Rightarrow> 32 word \<Rightarrow> bool" where
  "checkSignedBounds index n \<longleftrightarrow> 0 \<le>s index \<and> index <s n"

definition checkUnsignedBounds :: "32 word \<Rightarrow> 32 word \<Rightarrow> bool" where
  "checkUnsignedBounds index n \<longleftrightarrow> index < n"

definition generateArrayIdx :: "(32 word \<Rightarrow> 32 word \<Rightarrow> bool) \<Rightarrow> rval \<Rightarrow> 32 word \<Rightarrow> rval mem_m" where
  "generateArrayIdx checkBounds arrayPtr index =
     bindS (createLoad arrayPtr) (\<lambda>array.
     bindS (bindS (loadStructElem array array_idx_len) asI32) (\<lambda>len.
       if checkBounds index len then
         bindS (loadStructElem array array_idx_dat) (\<lambda>dat. retS (arrayIndex dat index))
       else callPanic ''Index out of bounds''))"

definition arr_idx_s :: "rval \<Rightarrow> 32 word \<Rightarrow> rval mem_m" where
  "arr_idx_s = generateArrayIdx checkSignedBounds"

definition arr_idx_u :: "rval \<Rightarrow> 32 word \<Rightarrow> rval mem_m" where
  "arr_idx_u = generateArrayIdx checkUnsignedBounds"

definition arr_len_ctor :: "rty \<Rightarrow> rval \<Rightarrow> 32 word \<Rightarrow> rval mem_m" where
  "arr_len_ctor t objPtr len =
     bindS (callAlloc storage_shape 1) (\<lambda>obj.
     bindS (initRefCount obj) (\<lambda>_.
     bindS (createStore (I32 len) (structGEP obj array_idx_cap)) (\<lambda>_.
     bindS (createStore (I32 len) (structGEP obj array_idx_len)) (\<lambda>_.
     bindS (callAlloc (undef_of t) (unat len)) (\<lambda>dat.
     bindS (createStore dat (structGEP obj array_idx_dat)) (\<lambda>_.
     bindS (createStore obj objPtr) (\<lambda>_. retS dat)))))))"

subsection \<open>The builtin functions of arrays\<close>

text \<open>
  The operations of the element type are bundled: default, copy and move construction, and destruction.
\<close>

record elem_ops =
  e_def :: "rval \<Rightarrow> unit mem_m"
  e_cop :: "rval \<Rightarrow> rval \<Rightarrow> unit mem_m"
  e_mov :: "rval \<Rightarrow> rval \<Rightarrow> unit mem_m"
  e_dtor :: "rval \<Rightarrow> unit mem_m"

definition reallocate :: "rt_env \<Rightarrow> rty \<Rightarrow> elem_ops \<Rightarrow> rval \<Rightarrow> 32 word \<Rightarrow> unit mem_m" where
  "reallocate env t ops array cap =
     bindS (callAlloc (undef_of t) (unat cap)) (\<lambda>newDat.
     bindS (loadStructElem array array_idx_dat) (\<lambda>dat.
     bindS (bindS (loadStructElem array array_idx_len) asI32) (\<lambda>len.
     bindS (move_n env t (e_mov ops) (e_dtor ops) dat len newDat) (\<lambda>_.
     bindS (callFree dat) (\<lambda>_.
     bindS (createStore newDat (structGEP array array_idx_dat)) (\<lambda>_.
       createStore (I32 cap) (structGEP array array_idx_cap)))))))"

definition btn_capacity :: "rval \<Rightarrow> rval mem_m" where
  "btn_capacity arrayPtr = bindS (createLoad arrayPtr) (\<lambda>array. loadStructElem array array_idx_cap)"

definition btn_size :: "rval \<Rightarrow> rval mem_m" where
  "btn_size arrayPtr = bindS (createLoad arrayPtr) (\<lambda>array. loadStructElem array array_idx_len)"

definition btn_data :: "rval \<Rightarrow> rval mem_m" where
  "btn_data arrayPtr = bindS (createLoad arrayPtr) (\<lambda>array. loadStructElem array array_idx_dat)"

definition btn_push_back :: "rt_env \<Rightarrow> rty \<Rightarrow> elem_ops \<Rightarrow> rval \<Rightarrow> rval \<Rightarrow> unit mem_m" where
  "btn_push_back env t ops arrayPtr v =
     bindS (createLoad arrayPtr) (\<lambda>array.
     bindS (bindS (loadStructElem array array_idx_len) asI32) (\<lambda>arrayLen.
     bindS (nswAdd arrayLen 1) (\<lambda>lenPlus1.
     bindS (bindS (loadStructElem array array_idx_cap) asI32) (\<lambda>arrayCap.
     bindS
       (if arrayLen = arrayCap then
          bindS (ceil_to_pow_2 lenPlus1) (\<lambda>ceiledLen. reallocate env t ops array ceiledLen)
        else retS ()) (\<lambda>_.
     bindS (loadStructElem array array_idx_dat) (\<lambda>arrayDat.
     bindS
       (if classifyType t = trivially_copyable then createStore v (arrayIndex arrayDat arrayLen)
        else e_cop ops (arrayIndex arrayDat arrayLen) v) (\<lambda>_.
       createStore (I32 lenPlus1) (structGEP array array_idx_len))))))))"

definition btn_append :: "rt_env \<Rightarrow> rty \<Rightarrow> elem_ops \<Rightarrow> rval \<Rightarrow> rval \<Rightarrow> unit mem_m" where
  "btn_append env t ops arrayPtr otherPtr =
     bindS (createLoad arrayPtr) (\<lambda>array.
     bindS (createLoad otherPtr) (\<lambda>other.
     bindS (bindS (loadStructElem array array_idx_len) asI32) (\<lambda>arrayLen.
     bindS (bindS (loadStructElem other array_idx_len) asI32) (\<lambda>otherLen.
     bindS (nswAdd arrayLen otherLen) (\<lambda>totalLen.
     bindS (bindS (loadStructElem array array_idx_cap) asI32) (\<lambda>arrayCap.
     bindS
       (if arrayCap < totalLen then
          bindS (ceil_to_pow_2 totalLen) (\<lambda>ceiledCap. reallocate env t ops array ceiledCap)
        else retS ()) (\<lambda>_.
     bindS (loadStructElem other array_idx_dat) (\<lambda>otherDat.
     bindS (loadStructElem array array_idx_dat) (\<lambda>arrayDat.
     bindS (copy_n env t (e_cop ops) otherDat otherLen (arrayIndex arrayDat arrayLen)) (\<lambda>_.
       createStore (I32 totalLen) (structGEP array array_idx_len)))))))))))"

definition btn_pop_back :: "elem_ops \<Rightarrow> rval \<Rightarrow> unit mem_m" where
  "btn_pop_back ops arrayPtr =
     bindS (createLoad arrayPtr) (\<lambda>array.
     bindS (bindS (loadStructElem array array_idx_len) asI32) (\<lambda>len.
       if len \<noteq> 0 then
         bindS (nswSub len 1) (\<lambda>lenMinus1.
         bindS (createStore (I32 lenMinus1) (structGEP array array_idx_len)) (\<lambda>_.
         bindS (loadStructElem array array_idx_dat) (\<lambda>dat.
           e_dtor ops (arrayIndex dat lenMinus1))))
       else callPanic ''pop_back from empty array''))"

definition btn_resize :: "rt_env \<Rightarrow> rty \<Rightarrow> elem_ops \<Rightarrow> rval \<Rightarrow> 32 word \<Rightarrow> unit mem_m" where
  "btn_resize env t ops arrayPtr len =
     bindS (createLoad arrayPtr) (\<lambda>array.
     bindS (bindS (loadStructElem array array_idx_len) asI32) (\<lambda>arrayLen.
     bindS (loadStructElem array array_idx_dat) (\<lambda>arrayDat.
     bindS
       (if len \<le> arrayLen then
          bindS (nswSub arrayLen len) (\<lambda>destroyCount.
            destroy_n t (e_dtor ops) (arrayIndex arrayDat len) destroyCount)
        else
          bindS (bindS (loadStructElem array array_idx_cap) asI32) (\<lambda>arrayCap.
          bindS
            (if arrayCap < len then
               bindS (ceil_to_pow_2 len) (\<lambda>ceiledLen. reallocate env t ops array ceiledLen)
             else retS ()) (\<lambda>_.
          bindS (loadStructElem array array_idx_dat) (\<lambda>reallocArrayDat.
          bindS (nswSub len arrayLen) (\<lambda>constructCount.
            construct_n env t (e_def ops) (arrayIndex reallocArrayDat arrayLen) constructCount))))) (\<lambda>_.
       createStore (I32 len) (structGEP array array_idx_len)))))"

definition btn_reserve :: "rt_env \<Rightarrow> rty \<Rightarrow> elem_ops \<Rightarrow> rval \<Rightarrow> 32 word \<Rightarrow> unit mem_m" where
  "btn_reserve env t ops arrayPtr cap =
     bindS (createLoad arrayPtr) (\<lambda>array.
     bindS (bindS (loadStructElem array array_idx_cap) asI32) (\<lambda>arrayCap.
       if arrayCap < cap then reallocate env t ops array cap else retS ()))"

subsection \<open>Closures\<close>

text \<open>
  A closure is a struct of a function and a pointer to its data, which is a struct of the reference
  count, the destructor and the captured values.
\<close>

abbreviation (input) clo_idx_fun :: nat where "clo_idx_fun \<equiv> 0"
abbreviation (input) clo_idx_dat :: nat where "clo_idx_dat \<equiv> 1"
abbreviation (input) clodat_idx_dtor :: nat where "clodat_idx_dtor \<equiv> 1"
abbreviation (input) clodat_idx_cap :: nat where "clodat_idx_cap \<equiv> 2"

definition clo_stub :: "'a mem_m" where
  "clo_stub = callPanic ''Calling null function pointer''"

definition asFn :: "rval \<Rightarrow> nat mem_m" where
  "asFn v = (case v of Fn f \<Rightarrow> retS f | _ \<Rightarrow> failS poison)"

definition clo_bool :: "rt_env \<Rightarrow> rty \<Rightarrow> rval \<Rightarrow> bool mem_m" where
  "clo_bool env t objPtr =
     bindS (bindS (loadStructElem objPtr clo_idx_fun) asFn) (\<lambda>objFun. retS (objFun \<noteq> stub_of env t))"

definition clo_fun_ctor :: "rval \<Rightarrow> nat \<Rightarrow> unit mem_m" where
  "clo_fun_ctor objPtr f =
     bindS (createStore (Fn f) (structGEP objPtr clo_idx_fun)) (\<lambda>_. setNull (structGEP objPtr clo_idx_dat))"

definition clo_lam_ctor :: "rval \<Rightarrow> nat \<Rightarrow> rval \<Rightarrow> unit mem_m" where
  "clo_lam_ctor objPtr f dat =
     bindS (createStore (Fn f) (structGEP objPtr clo_idx_fun)) (\<lambda>_.
       createStore dat (structGEP objPtr clo_idx_dat))"

definition clo_def_ctor :: "rt_env \<Rightarrow> rty \<Rightarrow> rval \<Rightarrow> unit mem_m" where
  "clo_def_ctor env t objPtr =
     bindS (createStore (Fn (stub_of env t)) (structGEP objPtr clo_idx_fun)) (\<lambda>_.
       setNull (structGEP objPtr clo_idx_dat))"

text \<open>The destructor that the data of a closure names.\<close>

definition dat_dtor :: "rt_env \<Rightarrow> rval \<Rightarrow> (rval \<Rightarrow> unit mem_m) mem_m" where
  "dat_dtor env dat = bindS (bindS (loadStructElem dat clodat_idx_dtor) asFn) (\<lambda>f. retS (vdtor env f))"

definition clo_dtor :: "rt_env \<Rightarrow> rval \<Rightarrow> unit mem_m" where
  "clo_dtor env objPtr =
     bindS (createLoad (structGEP objPtr clo_idx_dat)) (\<lambda>objDat.
     bindS (isNotNull objDat) (\<lambda>notNull.
       if notNull then
         bindS (dat_dtor env objDat) (\<lambda>dtr. ptr_dtor dtr (structGEP objPtr clo_idx_dat))
       else retS ()))"

definition assignFun :: "rval \<Rightarrow> rval \<Rightarrow> unit mem_m" where
  "assignFun dstPtr srcPtr =
     bindS (loadStructElem srcPtr clo_idx_fun) (\<lambda>srcFun. createStore srcFun (structGEP dstPtr clo_idx_fun))"

definition cloCtor :: "(rval \<Rightarrow> rval \<Rightarrow> unit mem_m) \<Rightarrow> rval \<Rightarrow> rval \<Rightarrow> unit mem_m" where
  "cloCtor ptrCtor dstPtr srcPtr =
     bindS (assignFun dstPtr srcPtr) (\<lambda>_.
       ptrCtor (structGEP dstPtr clo_idx_dat) (structGEP srcPtr clo_idx_dat))"

definition cloAsgn ::
  "rt_env \<Rightarrow> ((rval \<Rightarrow> unit mem_m) \<Rightarrow> rval \<Rightarrow> rval \<Rightarrow> unit mem_m) \<Rightarrow> rval \<Rightarrow> rval \<Rightarrow> unit mem_m" where
  "cloAsgn env ptrAsgn dstPtr srcPtr =
     bindS (assignFun dstPtr srcPtr) (\<lambda>_.
     bindS (createLoad (structGEP dstPtr clo_idx_dat)) (\<lambda>dstDat.
     bindS (isNotNull dstDat) (\<lambda>notNull.
       if notNull then
         bindS (dat_dtor env dstDat) (\<lambda>dtr.
           ptrAsgn dtr (structGEP dstPtr clo_idx_dat) (structGEP srcPtr clo_idx_dat))
       else retS ())))"

definition clo_cop_ctor :: "rval \<Rightarrow> rval \<Rightarrow> unit mem_m" where
  "clo_cop_ctor = cloCtor ptr_cop_ctor"

definition clo_mov_ctor :: "rval \<Rightarrow> rval \<Rightarrow> unit mem_m" where
  "clo_mov_ctor = cloCtor ptr_mov_ctor"

definition clo_cop_asgn :: "rt_env \<Rightarrow> rval \<Rightarrow> rval \<Rightarrow> unit mem_m" where
  "clo_cop_asgn env = cloAsgn env ptr_cop_asgn"

definition clo_mov_asgn :: "rt_env \<Rightarrow> rval \<Rightarrow> rval \<Rightarrow> unit mem_m" where
  "clo_mov_asgn env = cloAsgn env ptr_mov_asgn"

definition clo_compare :: "(nat \<Rightarrow> nat \<Rightarrow> bool) \<Rightarrow> rval \<Rightarrow> rval \<Rightarrow> bool mem_m" where
  "clo_compare rel lhsPtr rhsPtr =
     bindS (bindS (loadStructElem lhsPtr clo_idx_fun) asFn) (\<lambda>lhsFun.
     bindS (bindS (loadStructElem rhsPtr clo_idx_fun) asFn) (\<lambda>rhsFun. retS (rel lhsFun rhsFun)))"

definition clo_eq :: "rval \<Rightarrow> rval \<Rightarrow> bool mem_m" where
  "clo_eq = clo_compare (=)"

definition clo_lt :: "rval \<Rightarrow> rval \<Rightarrow> bool mem_m" where
  "clo_lt = clo_compare (<)"

definition closureCapAddr :: "rval \<Rightarrow> nat \<Rightarrow> rval" where
  "closureCapAddr captures index = structGEP captures (clodat_idx_cap + index)"

definition closureFun :: "rval \<Rightarrow> rval mem_m" where
  "closureFun closure = loadStructElem closure clo_idx_fun"

definition closureDat :: "rval \<Rightarrow> rval mem_m" where
  "closureDat closure = loadStructElem closure clo_idx_dat"

definition setDtor :: "rval \<Rightarrow> nat \<Rightarrow> unit mem_m" where
  "setDtor captures dtr = createStore (Fn dtr) (structGEP captures clodat_idx_dtor)"

subsection \<open>Life and death of values\<close>

text \<open>
  \<^verbatim>\<open>LifetimeExpr\<close>, with the functions of structs, \<^verbatim>\<open>unarySrt\<close> and \<^verbatim>\<open>binarySrt\<close>, and of user types in place. The
  fields of a struct are treated in order.
\<close>

definition fields_of :: "(name \<times> rty) list \<Rightarrow> (nat \<times> rty) list" where
  "fields_of fs = zip [0..<length fs] (map snd fs)"

definition user_ctor_trivial :: nat where "user_ctor_trivial = 1"

definition host_call :: "rt_env \<Rightarrow> user_ctor \<Rightarrow> rval list \<Rightarrow> rval mem_m \<Rightarrow> rval mem_m" where
  "host_call env c args trivial =
     (if addr c = user_ctor_none then failS (Undefined ''assertion: special function of user type'')
      else if addr c = user_ctor_trivial then trivial
      else host env (addr c) args)"

definition triviallyCopy :: "rval \<Rightarrow> rval \<Rightarrow> rval mem_m" where
  "triviallyCopy dst src = bindS (createLoad src) (\<lambda>v. bindS (createStore v dst) (\<lambda>_. retS Undef))"

definition ignore :: "'a mem_m \<Rightarrow> unit mem_m" where
  "ignore p = bindS p (\<lambda>_. retS ())"

text \<open>The functions of a struct do the same to each field: \<open>memFun\<close> is the member of \<^verbatim>\<open>LifetimeExpr\<close> that is passed.\<close>

definition unarySrt :: "(rty \<Rightarrow> rval \<Rightarrow> unit mem_m) \<Rightarrow> (name \<times> rty) list \<Rightarrow> rval \<Rightarrow> unit mem_m" where
  "unarySrt memFun fs obj = ignore (mapS (\<lambda>(i, t). memFun t (structGEP obj i)) (fields_of fs))"

definition binarySrt ::
  "(rty \<Rightarrow> rval \<Rightarrow> rval \<Rightarrow> unit mem_m) \<Rightarrow> (name \<times> rty) list \<Rightarrow> rval \<Rightarrow> rval \<Rightarrow> unit mem_m" where
  "binarySrt memFun fs dst src =
     ignore (mapS (\<lambda>(i, t). memFun t (structGEP dst i) (structGEP src i)) (fields_of fs))"

lemma fields_of_type: "(i, t) \<in> set (fields_of fs) \<Longrightarrow> t \<in> snd ` set fs"
  by (auto simp: fields_of_def dest: set_zip_rightD)

lemma unarySrt_cong [fundef_cong]:
  assumes "fs = fs'" "obj = obj'" "\<And>t x. t \<in> snd ` set fs' \<Longrightarrow> f t x = f' t x"
  shows "unarySrt f fs obj = unarySrt f' fs' obj'"
proof -
  have "mapS (\<lambda>(i, t). f t (structGEP obj i)) (fields_of fs) = mapS (\<lambda>(i, t). f' t (structGEP obj' i)) (fields_of fs')"
    using assms(1,2) by (intro mapS_cong) (auto intro!: assms(3) fields_of_type)
  then show ?thesis by (simp add: unarySrt_def)
qed

lemma binarySrt_cong [fundef_cong]:
  assumes "fs = fs'" "dst = dst'" "src = src'" "\<And>t x y. t \<in> snd ` set fs' \<Longrightarrow> f t x y = f' t x y"
  shows "binarySrt f fs dst src = binarySrt f' fs' dst' src'"
proof -
  have "mapS (\<lambda>(i, t). f t (structGEP dst i) (structGEP src i)) (fields_of fs)
      = mapS (\<lambda>(i, t). f' t (structGEP dst' i) (structGEP src' i)) (fields_of fs')"
    using assms(1-3) by (intro mapS_cong) (auto intro!: assms(4) fields_of_type)
  then show ?thesis by (simp add: binarySrt_def)
qed

lemma field_size [termination_simp]:
  assumes "(n, t) \<in> set fs"
  shows "size t < Suc (size_list (\<lambda>x. Suc (size (snd x))) fs)"
proof -
  have "size t \<le> size_list (\<lambda>x. Suc (size (snd x))) fs" using assms by (auto intro: size_list_estimation')
  then show ?thesis by simp
qed

fun defConstruct :: "rt_env \<Rightarrow> rty \<Rightarrow> rval \<Rightarrow> unit mem_m" where
  "defConstruct env (RBtn b) dst =
     (if b \<in> {Void, Opaq} then failS (Undefined ''UNREACHABLE'') else createStore (zero_of (RBtn b)) dst)"
| "defConstruct env (RArray t) dst = arr_def_ctor dst"
| "defConstruct env (RFunc ps r) dst = clo_def_ctor env (RFunc ps r) dst"
| "defConstruct env (RNamed _ _ t) dst = defConstruct env t dst"
| "defConstruct env (RStruct fs) dst =
     unarySrt (defConstruct env) fs dst"
| "defConstruct env (RUser flds sz al ops) dst =
     ignore (host_call env (defCtor ops) [dst]
       (bindS (createStore (Bytes (replicate sz 0)) dst) (\<lambda>_. retS Undef)))"

fun destroy :: "rt_env \<Rightarrow> rty \<Rightarrow> rval \<Rightarrow> unit mem_m" where
  "destroy env (RBtn b) dst = retS ()"
| "destroy env (RArray t) dst = arr_dtor t (destroy env t) dst"
| "destroy env (RFunc ps r) dst = clo_dtor env dst"
| "destroy env (RNamed _ _ t) dst = destroy env t dst"
| "destroy env (RStruct fs) dst = unarySrt (destroy env) fs dst"
| "destroy env (RUser flds sz al ops) dst = ignore (host_call env (user_ops.dtor ops) [dst] (retS Undef))"

fun copyConstruct :: "rt_env \<Rightarrow> rty \<Rightarrow> rval \<Rightarrow> rval \<Rightarrow> unit mem_m" where
  "copyConstruct env (RBtn b) dst src = bindS (createLoad src) (\<lambda>v. createStore v dst)"
| "copyConstruct env (RArray t) dst src = arr_cop_ctor dst src"
| "copyConstruct env (RFunc ps r) dst src = clo_cop_ctor dst src"
| "copyConstruct env (RNamed _ _ t) dst src = copyConstruct env t dst src"
| "copyConstruct env (RStruct fs) dst src =
     binarySrt (copyConstruct env) fs dst src"
| "copyConstruct env (RUser flds sz al ops) dst src =
     ignore (host_call env (copCtor ops) [dst, src] (triviallyCopy dst src))"

fun moveConstruct :: "rt_env \<Rightarrow> rty \<Rightarrow> rval \<Rightarrow> rval \<Rightarrow> unit mem_m" where
  "moveConstruct env (RBtn b) dst src = bindS (createLoad src) (\<lambda>v. createStore v dst)"
| "moveConstruct env (RArray t) dst src = arr_mov_ctor dst src"
| "moveConstruct env (RFunc ps r) dst src = clo_mov_ctor dst src"
| "moveConstruct env (RNamed _ _ t) dst src = moveConstruct env t dst src"
| "moveConstruct env (RStruct fs) dst src =
     binarySrt (moveConstruct env) fs dst src"
| "moveConstruct env (RUser flds sz al ops) dst src =
     ignore (host_call env (movCtor ops) [dst, src] (triviallyCopy dst src))"

fun copyAssign :: "rt_env \<Rightarrow> rty \<Rightarrow> rval \<Rightarrow> rval \<Rightarrow> unit mem_m" where
  "copyAssign env (RBtn b) dst src = bindS (createLoad src) (\<lambda>v. createStore v dst)"
| "copyAssign env (RArray t) dst src = arr_cop_asgn t (destroy env t) dst src"
| "copyAssign env (RFunc ps r) dst src = clo_cop_asgn env dst src"
| "copyAssign env (RNamed _ _ t) dst src = copyAssign env t dst src"
| "copyAssign env (RStruct fs) dst src =
     binarySrt (copyAssign env) fs dst src"
| "copyAssign env (RUser flds sz al ops) dst src =
     ignore (host_call env (copAsgn ops) [dst, src] (triviallyCopy dst src))"

fun moveAssign :: "rt_env \<Rightarrow> rty \<Rightarrow> rval \<Rightarrow> rval \<Rightarrow> unit mem_m" where
  "moveAssign env (RBtn b) dst src = bindS (createLoad src) (\<lambda>v. createStore v dst)"
| "moveAssign env (RArray t) dst src = arr_mov_asgn t (destroy env t) dst src"
| "moveAssign env (RFunc ps r) dst src = clo_mov_asgn env dst src"
| "moveAssign env (RNamed _ _ t) dst src = moveAssign env t dst src"
| "moveAssign env (RStruct fs) dst src =
     binarySrt (moveAssign env) fs dst src"
| "moveAssign env (RUser flds sz al ops) dst src =
     ignore (host_call env (movAsgn ops) [dst, src] (triviallyCopy dst src))"

definition construct :: "rt_env \<Rightarrow> rty \<Rightarrow> rval \<Rightarrow> rval \<times> ValueCat \<Rightarrow> unit mem_m" where
  "construct env t dst src =
     (if classifyType t = trivially_copyable then
        if glvalue (snd src) then bindS (createLoad (fst src)) (\<lambda>v. createStore v dst)
        else createStore (fst src) dst
      else
        case snd src of
          lvalue \<Rightarrow> copyConstruct env t dst (fst src)
        | xvalue \<Rightarrow> moveConstruct env t dst (fst src)
        | prvalue \<Rightarrow> retS ())"

definition assign :: "rt_env \<Rightarrow> rty \<Rightarrow> rval \<Rightarrow> rval \<times> ValueCat \<Rightarrow> unit mem_m" where
  "assign env t dst src =
     (if classifyType t = trivially_copyable then
        if glvalue (snd src) then bindS (createLoad (fst src)) (\<lambda>v. createStore v dst)
        else createStore (fst src) dst
      else
        case snd src of
          lvalue \<Rightarrow> copyAssign env t dst (fst src)
        | xvalue \<Rightarrow> moveAssign env t dst (fst src)
        | prvalue \<Rightarrow> bindS (moveAssign env t dst (fst src)) (\<lambda>_. destroy env t (fst src)))"

text \<open>The operations of the elements of an array, and the destructor of the captures of a lambda.\<close>

definition ops_of :: "rt_env \<Rightarrow> rty \<Rightarrow> elem_ops" where
  "ops_of env t =
     \<lparr>e_def = defConstruct env t, e_cop = copyConstruct env t, e_mov = moveConstruct env t, e_dtor = destroy env t\<rparr>"

definition clo_cap_dtor :: "rt_env \<Rightarrow> rty list \<Rightarrow> rval \<Rightarrow> unit mem_m" where
  "clo_cap_dtor env caps clodat =
     ignore (mapS (\<lambda>(c, t). destroy env t (closureCapAddr clodat c)) (zip [0..<length caps] caps))"

subsection \<open>Comparisons\<close>

text \<open>The ordered comparisons of 32 bit IEEE numbers, by their bits: \<^verbatim>\<open>FCmpOEQ\<close> and \<^verbatim>\<open>FCmpOLT\<close>.\<close>

definition is_nan :: "32 word \<Rightarrow> bool" where
  "is_nan w \<longleftrightarrow> 0x7f800000 < take_bit 31 w"

definition fkey :: "32 word \<Rightarrow> int" where
  "fkey w = (if bit w 31 then - uint (take_bit 31 w) else uint w)"

definition fcmpOEQ :: "32 word \<Rightarrow> 32 word \<Rightarrow> bool" where
  "fcmpOEQ v w \<longleftrightarrow> \<not> is_nan v \<and> \<not> is_nan w \<and> fkey v = fkey w"

definition fcmpOLT :: "32 word \<Rightarrow> 32 word \<Rightarrow> bool" where
  "fcmpOLT v w \<longleftrightarrow> \<not> is_nan v \<and> \<not> is_nan w \<and> fkey v < fkey w"

definition icmpEQ :: "rval \<Rightarrow> rval \<Rightarrow> bool mem_m" where
  "icmpEQ v w =
     (case (v, w) of
        (I1 x, I1 y) \<Rightarrow> retS (x = y) | (I8 x, I8 y) \<Rightarrow> retS (x = y) | (I32 x, I32 y) \<Rightarrow> retS (x = y)
      | _ \<Rightarrow> failS poison)"

definition icmpSLT :: "rval \<Rightarrow> rval \<Rightarrow> bool mem_m" where
  "icmpSLT v w =
     (case (v, w) of (I8 x, I8 y) \<Rightarrow> retS (x <s y) | (I32 x, I32 y) \<Rightarrow> retS (x <s y) | _ \<Rightarrow> failS poison)"

definition icmpULT :: "rval \<Rightarrow> rval \<Rightarrow> bool mem_m" where
  "icmpULT v w =
     (case (v, w) of
        (I1 x, I1 y) \<Rightarrow> retS (\<not> x \<and> y) | (I8 x, I8 y) \<Rightarrow> retS (x < y) | (I32 x, I32 y) \<Rightarrow> retS (x < y)
      | _ \<Rightarrow> failS poison)"

definition fcmp :: "(32 word \<Rightarrow> 32 word \<Rightarrow> bool) \<Rightarrow> rval \<Rightarrow> rval \<Rightarrow> bool mem_m" where
  "fcmp rel v w = (case (v, w) of (F32 x, F32 y) \<Rightarrow> retS (rel x y) | _ \<Rightarrow> failS poison)"

definition getBtnValue :: "rval \<times> ValueCat \<Rightarrow> rval mem_m" where
  "getBtnValue e = (if snd e = prvalue then retS (fst e) else createLoad (fst e))"

definition btn_eq :: "BtnTypeEnum \<Rightarrow> rval \<times> ValueCat \<Rightarrow> rval \<times> ValueCat \<Rightarrow> bool mem_m" where
  "btn_eq b lhs rhs =
     bindS (liftE (classifyArith b)) (\<lambda>arith.
     bindS (getBtnValue lhs) (\<lambda>v. bindS (getBtnValue rhs) (\<lambda>w.
       if arith = floating_point then fcmp fcmpOEQ v w else icmpEQ v w)))"

definition btn_lt :: "BtnTypeEnum \<Rightarrow> rval \<times> ValueCat \<Rightarrow> rval \<times> ValueCat \<Rightarrow> bool mem_m" where
  "btn_lt b lhs rhs =
     bindS (liftE (classifyArith b)) (\<lambda>arith.
     bindS (getBtnValue lhs) (\<lambda>v. bindS (getBtnValue rhs) (\<lambda>w.
       case arith of
         signed_int \<Rightarrow> icmpSLT v w
       | unsigned_int \<Rightarrow> icmpULT v w
       | floating_point \<Rightarrow> fcmp fcmpOLT v w)))"

text \<open>
  The loops of \<^verbatim>\<open>arr_eq\<close> and \<^verbatim>\<open>arr_lt\<close> end when the pointer into the right array is at its end; the counter is
  one more than its length.
\<close>

fun arr_eq_loop :: "(rval \<Rightarrow> rval \<Rightarrow> bool mem_m) \<Rightarrow> nat \<Rightarrow> rval \<Rightarrow> rval \<Rightarrow> rval \<Rightarrow> bool mem_m" where
  "arr_eq_loop elem_eq 0 lhs rhs rhsEnd = failS Out_of_fuel"
| "arr_eq_loop elem_eq (Suc n) lhs rhs rhsEnd =
     (if rhs = rhsEnd then retS True
      else bindS (elem_eq lhs rhs) (\<lambda>e.
        if e then arr_eq_loop elem_eq n (indexGEP lhs 1) (indexGEP rhs 1) rhsEnd else retS False))"

fun arr_lt_loop :: "(rval \<Rightarrow> rval \<Rightarrow> bool mem_m) \<Rightarrow> nat \<Rightarrow> rval \<Rightarrow> rval \<Rightarrow> rval \<Rightarrow> rval \<Rightarrow> bool mem_m" where
  "arr_lt_loop elem_lt 0 lhs rhs lhsEnd rhsEnd = failS Out_of_fuel"
| "arr_lt_loop elem_lt (Suc n) lhs rhs lhsEnd rhsEnd =
     (if rhs = rhsEnd then retS False
      else if lhs = lhsEnd then retS True
      else bindS (elem_lt lhs rhs) (\<lambda>less.
        if less then retS True
        else bindS (elem_lt rhs lhs) (\<lambda>greater.
          if greater then retS False
          else arr_lt_loop elem_lt n (indexGEP lhs 1) (indexGEP rhs 1) lhsEnd rhsEnd)))"

definition arr_eq :: "(rval \<Rightarrow> rval \<Rightarrow> bool mem_m) \<Rightarrow> rval \<Rightarrow> rval \<Rightarrow> bool mem_m" where
  "arr_eq elem_eq lhsPtr rhsPtr =
     bindS (createLoad lhsPtr) (\<lambda>lhs.
     bindS (createLoad rhsPtr) (\<lambda>rhs.
     bindS (bindS (loadStructElem lhs array_idx_len) asI32) (\<lambda>lhsLen.
     bindS (bindS (loadStructElem rhs array_idx_len) asI32) (\<lambda>rhsLen.
       if lhsLen = rhsLen then
         bindS (loadStructElem lhs array_idx_dat) (\<lambda>lhsDat.
         bindS (loadStructElem rhs array_idx_dat) (\<lambda>rhsDat.
           arr_eq_loop elem_eq (Suc (unat rhsLen)) lhsDat rhsDat (arrayIndex rhsDat rhsLen)))
       else retS False))))"

definition arr_lt :: "(rval \<Rightarrow> rval \<Rightarrow> bool mem_m) \<Rightarrow> rval \<Rightarrow> rval \<Rightarrow> bool mem_m" where
  "arr_lt elem_lt lhsPtr rhsPtr =
     bindS (createLoad lhsPtr) (\<lambda>lhs.
     bindS (createLoad rhsPtr) (\<lambda>rhs.
     bindS (loadStructElem lhs array_idx_dat) (\<lambda>lhsDat.
     bindS (loadStructElem rhs array_idx_dat) (\<lambda>rhsDat.
     bindS (bindS (loadStructElem lhs array_idx_len) asI32) (\<lambda>lhsLen.
     bindS (bindS (loadStructElem rhs array_idx_len) asI32) (\<lambda>rhsLen.
       arr_lt_loop elem_lt (Suc (unat rhsLen)) lhsDat rhsDat (arrayIndex lhsDat lhsLen)
         (arrayIndex rhsDat rhsLen)))))))"

fun srt_eq_fields :: "(rval \<Rightarrow> rval \<Rightarrow> bool mem_m) list \<Rightarrow> nat \<Rightarrow> rval \<Rightarrow> rval \<Rightarrow> bool mem_m" where
  "srt_eq_fields [] i lhs rhs = retS True"
| "srt_eq_fields (cmp # cmps) i lhs rhs =
     bindS (cmp (structGEP lhs i) (structGEP rhs i)) (\<lambda>e.
       if e then srt_eq_fields cmps (Suc i) lhs rhs else retS False)"

fun srt_lt_fields :: "(rval \<Rightarrow> rval \<Rightarrow> bool mem_m) list \<Rightarrow> nat \<Rightarrow> rval \<Rightarrow> rval \<Rightarrow> bool mem_m" where
  "srt_lt_fields [] i lhs rhs = retS False"
| "srt_lt_fields (cmp # cmps) i lhs rhs =
     bindS (cmp (structGEP lhs i) (structGEP rhs i)) (\<lambda>less.
       if less then retS True
       else bindS (cmp (structGEP rhs i) (structGEP lhs i)) (\<lambda>greater.
         if greater then retS False else srt_lt_fields cmps (Suc i) lhs rhs))"

definition host_compare :: "rt_env \<Rightarrow> user_ctor \<Rightarrow> rval list \<Rightarrow> bool mem_m" where
  "host_compare env c args =
     (if addr c = user_ctor_none \<or> addr c = user_ctor_trivial
      then failS (Undefined ''assertion: special function of user type'')
      else bindS (host env (addr c) args) (\<lambda>v. case v of I1 r \<Rightarrow> retS r | _ \<Rightarrow> failS poison))"

fun compare_eq :: "rt_env \<Rightarrow> rty \<Rightarrow> rval \<times> ValueCat \<Rightarrow> rval \<times> ValueCat \<Rightarrow> bool mem_m" where
  "compare_eq env (RBtn b) lhs rhs = btn_eq b lhs rhs"
| "compare_eq env (RArray t) lhs rhs =
     arr_eq (\<lambda>l r. compare_eq env t (l, lvalue) (r, lvalue)) (fst lhs) (fst rhs)"
| "compare_eq env (RFunc ps r) lhs rhs = clo_eq (fst lhs) (fst rhs)"
| "compare_eq env (RNamed _ _ t) lhs rhs = compare_eq env t lhs rhs"
| "compare_eq env (RStruct fs) lhs rhs =
     srt_eq_fields (map (\<lambda>(n, t) l r. compare_eq env t (l, lvalue) (r, lvalue)) fs) 0 (fst lhs) (fst rhs)"
| "compare_eq env (RUser flds sz al ops) lhs rhs = host_compare env (op_eq ops) [fst lhs, fst rhs]"

fun compare_lt :: "rt_env \<Rightarrow> rty \<Rightarrow> rval \<times> ValueCat \<Rightarrow> rval \<times> ValueCat \<Rightarrow> bool mem_m" where
  "compare_lt env (RBtn b) lhs rhs = btn_lt b lhs rhs"
| "compare_lt env (RArray t) lhs rhs =
     arr_lt (\<lambda>l r. compare_lt env t (l, lvalue) (r, lvalue)) (fst lhs) (fst rhs)"
| "compare_lt env (RFunc ps r) lhs rhs = clo_lt (fst lhs) (fst rhs)"
| "compare_lt env (RNamed _ _ t) lhs rhs = compare_lt env t lhs rhs"
| "compare_lt env (RStruct fs) lhs rhs =
     srt_lt_fields (map (\<lambda>(n, t) l r. compare_lt env t (l, lvalue) (r, lvalue)) fs) 0 (fst lhs) (fst rhs)"
| "compare_lt env (RUser flds sz al ops) lhs rhs = host_compare env (op_lt ops) [fst lhs, fst rhs]"

definition createNot :: "bool mem_m \<Rightarrow> bool mem_m" where
  "createNot p = bindS p (\<lambda>b. retS (\<not> b))"

definition compare_ne :: "rt_env \<Rightarrow> rty \<Rightarrow> rval \<times> ValueCat \<Rightarrow> rval \<times> ValueCat \<Rightarrow> bool mem_m" where
  "compare_ne env t lhs rhs = createNot (compare_eq env t lhs rhs)"

definition compare_gt :: "rt_env \<Rightarrow> rty \<Rightarrow> rval \<times> ValueCat \<Rightarrow> rval \<times> ValueCat \<Rightarrow> bool mem_m" where
  "compare_gt env t lhs rhs = compare_lt env t rhs lhs"

definition compare_le :: "rt_env \<Rightarrow> rty \<Rightarrow> rval \<times> ValueCat \<Rightarrow> rval \<times> ValueCat \<Rightarrow> bool mem_m" where
  "compare_le env t lhs rhs = createNot (compare_lt env t rhs lhs)"

definition compare_ge :: "rt_env \<Rightarrow> rty \<Rightarrow> rval \<times> ValueCat \<Rightarrow> rval \<times> ValueCat \<Rightarrow> bool mem_m" where
  "compare_ge env t lhs rhs = createNot (compare_lt env t lhs rhs)"

end
