(* ===== verification/Runtime_Steps.thy ===== *)
theory Runtime_Steps
  imports Runtime
begin

section \<open>Running the run time library\<close>

text \<open>
  What each instruction does to the blocks of the memory, as equations for the simplifier, and the 32 bit
  arithmetic of lengths and capacities where it does not overflow.
\<close>

subsection \<open>Running steps\<close>

lemma bindS_run: "bindS p f m = (case p m of Inl e \<Rightarrow> Inl e | Inr y \<Rightarrow> f (fst y) (snd y))"
  by (cases "p m") (simp_all add: bindS_def split_def)

lemma retS_run: "retS x m = Inr (x, m)"
  by (simp add: retS_def)

lemma failS_run: "failS e m = Inl e"
  by (simp add: failS_def)

definition set_block :: "nat \<Rightarrow> rval \<Rightarrow> mem \<Rightarrow> mem" where
  "set_block b u m = m\<lparr>blocks := (blocks m)[b := Some u]\<rparr>"

definition drop_block :: "nat \<Rightarrow> mem \<Rightarrow> mem" where
  "drop_block b m = m\<lparr>blocks := (blocks m)[b := None]\<rparr>"

definition new_block :: "rval \<Rightarrow> mem \<Rightarrow> mem" where
  "new_block u m = \<lparr>blocks = blocks m @ [Some u], avail = avail m - 1\<rparr>"

definition fresh :: "mem \<Rightarrow> nat" where
  "fresh m = length (blocks m)"

lemma block_Some_less: "block m b = Some v \<Longrightarrow> b < fresh m"
  by (auto simp: block_def fresh_def split: if_splits)

lemma block_fresh [simp]: "block m (fresh m) = None"
  by (simp add: block_def fresh_def)

lemma block_set_block:
  "block (set_block b u m) c = (if c = b \<and> b < fresh m then Some u else block m c)"
  by (auto simp: block_def set_block_def fresh_def nth_list_update)

lemma block_drop_block:
  "block (drop_block b m) c = (if c = b then None else block m c)"
  by (auto simp: block_def drop_block_def nth_list_update)

lemma block_new_block:
  "block (new_block u m) c = (if c = fresh m then Some u else block m c)"
  by (auto simp: block_def new_block_def fresh_def nth_append)

lemma fresh_simps [simp]:
  "fresh (set_block b u m) = fresh m" "fresh (drop_block b m) = fresh m" "fresh (new_block u m) = Suc (fresh m)"
  by (simp_all add: fresh_def set_block_def drop_block_def new_block_def)

lemma avail_simps [simp]:
  "avail (set_block b u m) = avail m" "avail (drop_block b m) = avail m" "avail (new_block u m) = avail m - 1"
  by (simp_all add: set_block_def drop_block_def new_block_def)

lemmas block_simps = block_set_block block_drop_block block_new_block

lemma createLoad_run:
  "createLoad (Ptr (Some (b, q))) m =
     (case Option.bind (block m b) (\<lambda>v. at_path v q) of None \<Rightarrow> Inl bad_access | Some v \<Rightarrow> Inr (v, m))"
  by (simp add: createLoad_def loadAt_def)

lemma createStore_run:
  "createStore v (Ptr (Some (b, q))) m =
     (case Option.bind (block m b) (\<lambda>u. put_path u q v) of
        None \<Rightarrow> Inl bad_access | Some u \<Rightarrow> Inr ((), set_block b u m))"
  by (simp add: createStore_def storeAt_def set_block_def cong: option.case_cong)

lemma callAlloc_run:
  "callAlloc u n m =
     (if avail m = 0 then Inl (panicked ''Out of memory'')
      else Inr (Ptr (Some (fresh m, [0])), new_block (Agg (replicate n u)) m))"
  by (simp add: callAlloc_def callPanic_def failS_def fresh_def new_block_def)

lemma callFree_run:
  "block m b = Some u \<Longrightarrow> callFree (Ptr (Some (b, [0]))) m = Inr ((), drop_block b m)"
  "callFree (Ptr None) m = Inr ((), m)"
  by (simp_all add: callFree_def drop_block_def)

lemma as_run: "asI32 (I32 w) m = Inr (w, m)" "asI64 (I64 x) m = Inr (x, m)"
  by (simp_all add: asI32_def asI64_def retS_def)

lemma structGEP_run: "structGEP (Ptr (Some (b, q))) i = Ptr (Some (b, q @ [i]))"
  by (simp add: structGEP_def)

lemma indexGEP_run:
  "indexGEP (Ptr (Some (b, [i]))) n = Ptr (Some (b, [i + n]))" "indexGEP (Ptr None) 0 = Ptr None"
  by (simp_all add: indexGEP_def)

lemmas run_simps = bindS_run retS_run failS_run createLoad_run createStore_run callAlloc_run callFree_run as_run
  structGEP_run indexGEP_run loadStructElem_def arrayIndex_def setNull_def callPanic_def

subsection \<open>Arithmetic\<close>

lemma sint_small: "unat w < 2 ^ 31 \<Longrightarrow> sint (w :: 32 word) = int (unat w)"
proof -
  assume "unat w < 2 ^ 31"
  then have "int (unat w) < 2 ^ 31" by (simp only: of_nat_less_numeral_power_cancel_iff)
  then show ?thesis by (simp only: sint_uint uint_nat) (rule signed_take_bit_int_eq_self, auto intro: order_trans [OF _ uint_ge_0])
qed

lemma nsw_small:
  assumes "unat (w :: 32 word) < 2 ^ 31" "r = int (unat w)"
  shows "nsw w r m = Inr (w, m)"
  using sint_small [OF assms(1)] assms(2) by (simp add: nsw_def retS_def)

lemma nswAdd_small:
  fixes x y :: "32 word"
  assumes "unat x + unat y < 2 ^ 31"
  shows "nswAdd x y m = Inr (x + y, m)" "unat (x + y) = unat x + unat y"
proof -
  show sum: "unat (x + y) = unat x + unat y" using assms by (subst unat_add_lem [THEN iffD1]) auto
  then have "sint (x + y) = sint x + sint y" using assms by (simp add: sint_small)
  then show "nswAdd x y m = Inr (x + y, m)" by (simp add: nswAdd_def nsw_def retS_def)
qed

lemma nswSub_small:
  fixes x y :: "32 word"
  assumes "unat y \<le> unat x" "unat x < 2 ^ 31"
  shows "nswSub x y m = Inr (x - y, m)" "unat (x - y) = unat x - unat y"
proof -
  show diff: "unat (x - y) = unat x - unat y" using assms by (simp add: unat_sub word_le_nat_alt)
  then have "sint (x - y) = sint x - sint y" using assms by (simp add: sint_small of_nat_diff)
  then show "nswSub x y m = Inr (x - y, m)" by (simp add: nswSub_def nsw_def retS_def)
qed

lemma nswMul_small:
  fixes x :: "32 word"
  assumes "unat x * k < 2 ^ 31" "k < 2 ^ 31"
  shows "nswMul x (of_nat k) m = Inr (x * of_nat k, m)"
proof -
  have k: "unat (of_nat k :: 32 word) = k" using assms(2) by (simp add: unat_of_nat take_bit_nat_eq_self)
  have prod: "unat (x * of_nat k) = unat x * k" using assms k by (subst unat_mult_lem [THEN iffD1]) auto
  have "sint (x * of_nat k) = sint x * sint (of_nat k :: 32 word)"
  proof (cases "k = 0")
    case False
    then have "unat x \<le> unat x * k" by simp
    then have "unat x < 2 ^ 31" using assms(1) by linarith
    then show ?thesis using assms k prod by (simp add: sint_small)
  qed simp
  then show ?thesis by (simp add: nswMul_def nsw_def retS_def)
qed

text \<open>The number of leading zeros gives the number of bits that a number needs.\<close>

lemma top_bit:
  assumes "unat w < 2 * 2 ^ n"
  shows "bit w n \<longleftrightarrow> 2 ^ n \<le> unat w"
proof -
  have "unat w div 2 ^ n < 2" using assms by (simp add: less_mult_imp_div_less)
  then have "odd (unat w div 2 ^ n) \<longleftrightarrow> 2 ^ n \<le> unat w"
    by (cases "unat w < 2 ^ n") (auto simp: div_eq_0_iff less_2_cases_iff)
  moreover have "bit w n \<longleftrightarrow> bit (unat w) n" by (simp add: bit_unsigned_iff)
  ultimately show ?thesis by (simp add: bit_iff_odd)
qed

lemma ctlz_from_bounds:
  assumes "unat w < 2 ^ n"
  shows "ctlz_from n w \<le> n \<and> unat w < 2 ^ (n - ctlz_from n w)
    \<and> (unat w \<noteq> 0 \<longrightarrow> ctlz_from n w < n \<and> 2 ^ (n - ctlz_from n w - 1) \<le> unat w)"
  using assms
proof (induction n)
  case (Suc n)
  then have bit: "bit w n \<longleftrightarrow> 2 ^ n \<le> unat w" by (simp add: top_bit)
  show ?case
  proof (cases "bit w n")
    case True
    then show ?thesis using Suc.prems bit by simp
  next
    case False
    then show ?thesis using Suc.IH bit by (auto simp: Suc_diff_le)
  qed
qed simp

lemma ctlz_le: "ctlz_from n w \<le> n"
  by (induction n) auto

lemma ctlz_zero: "ctlz_from n 0 = n"
  by (induction n) auto

lemma unat_ctlz: "unat (ctlz w) = ctlz_from 32 w"
  using ctlz_le [of 32 w] by (simp add: ctlz_def unat_of_nat take_bit_nat_eq_self)

lemma log2_run:
  "nswSub 32 (ctlz w) m = Inr (of_nat (32 - ctlz_from 32 w), m)"
  "unat (of_nat (32 - ctlz_from 32 w) :: 32 word) = 32 - ctlz_from 32 w"
proof -
  show "unat (of_nat (32 - ctlz_from 32 w) :: 32 word) = 32 - ctlz_from 32 w"
    by (simp add: unat_of_nat take_bit_nat_eq_self)
  have "32 - ctlz w = of_nat (32 - ctlz_from 32 w)"
    using ctlz_le [of 32 w] by (simp add: ctlz_def of_nat_diff)
  then show "nswSub 32 (ctlz w) m = Inr (of_nat (32 - ctlz_from 32 w), m)"
    using nswSub_small(1) [of "ctlz w" 32 m] ctlz_le [of 32 w] unat_ctlz [of w] by simp
qed

lemma ceil_to_pow_2_small:
  assumes "0 < unat x" "unat x < 2 ^ 31"
  shows "\<exists>k \<le> 31. ceil_to_pow_2 x m = Inr (2 ^ k, m) \<and> unat x \<le> 2 ^ k \<and> (\<forall>j. unat x \<le> 2 ^ j \<longrightarrow> k \<le> j)"
proof -
  define w where "w = x - 1"
  have w: "nswSub x 1 m = Inr (w, m)" "unat w = unat x - 1"
    using nswSub_small [of 1 x] assms by (simp_all add: w_def)
  define k where "k = 32 - ctlz_from 32 w"
  have bounds: "unat w < 2 ^ k" "unat w \<noteq> 0 \<Longrightarrow> 0 < k \<and> 2 ^ (k - 1) \<le> unat w"
    using ctlz_from_bounds [of w 32] w(2) assms by (auto simp: k_def)
  have "k \<le> 31"
  proof (cases "unat w = 0")
    case True
    then have "ctlz_from 32 w = 32" by (simp add: unat_eq_0 ctlz_zero)
    then show ?thesis by (simp add: k_def)
  next
    case False
    then have "(2 :: nat) ^ (k - 1) < 2 ^ 31" using bounds w(2) assms by linarith
    then show ?thesis by (simp only: power_strict_increasing_iff)
  qed
  have uk: "unat (of_nat k :: 32 word) = k" by (simp add: k_def log2_run)
  have "ceil_to_pow_2 x m = Inr (2 ^ k, m)"
    using \<open>k \<le> 31\<close> uk by (simp add: ceil_to_pow_2_def bindS_run w log2_run shl_def push_bit_eq_mult retS_def flip: k_def)
  moreover have "unat x \<le> 2 ^ k" using bounds(1) w(2) assms(1) by linarith
  moreover have "k \<le> j" if "unat x \<le> 2 ^ j" for j
  proof (cases "unat w = 0")
    case True
    then show ?thesis by (simp add: k_def unat_eq_0 ctlz_zero)
  next
    case False
    then have "(2 :: nat) ^ (k - 1) < 2 ^ j" using bounds w(2) that by linarith
    then show ?thesis using bounds(2) [OF False] by (auto simp: power_strict_increasing_iff)
  qed
  ultimately show ?thesis using \<open>k \<le> 31\<close> by blast
qed

lemma shl_wide: "unat n = 32 \<Longrightarrow> shl x n m = Inl poison"
  by (simp add: shl_def failS_def)

lemma ceil_to_pow_2_large:
  assumes "unat x = 0 \<or> 2 ^ 31 \<le> unat x"
  shows "ceil_to_pow_2 x m = Inl poison"
proof (cases "nswSub x 1 m")
  case (Inl e)
  then have "e = poison" by (auto simp: nswSub_def nsw_def retS_def failS_def split: if_splits)
  then show ?thesis using Inl by (simp add: ceil_to_pow_2_def bindS_run)
next
  case (Inr y)
  then have y: "y = (x - 1, m)" "sint (x - 1) = sint x - 1"
    by (auto simp: nswSub_def nsw_def retS_def failS_def split: if_splits)
  have "unat x = 0 \<or> sint x < 0"
    using assms top_bit [of x 31] bit_last_iff [of x] unsigned_less [of x, where ?'a = nat] by auto
  then have "sint (x - 1) < 0" using y(2) by (auto simp: unat_eq_0)
  then have "bit (x - 1) 31" using bit_last_iff [of "x - 1"] by simp
  then have "ctlz_from 32 (x - 1) = 0" by (simp add: numeral_eq_Suc)
  then show ?thesis using Inr log2_run [of "x - 1"] by (simp add: ceil_to_pow_2_def bindS_run y shl_wide)
qed

end
