(* ===== verification/Runtime_Arrays.thy ===== *)
theory Runtime_Arrays
  imports Runtime_Steps
begin

section \<open>Arrays are lists\<close>

subsection \<open>Arrays in memory\<close>

text \<open>
  The storage of an array is a block with the reference count, the capacity, the length and the pointer to
  the elements, which are in a second block of as many slots as the capacity; without a capacity there
  may be no second block.
\<close>

record arr =
  a_blk :: nat
  a_refs :: "64 word"
  a_cap :: "32 word"
  a_len :: "32 word"
  a_dat :: "nat option"
  a_slots :: "rval list"

definition dat_ptr :: "nat option \<Rightarrow> rval" where
  "dat_ptr d = Ptr (map_option (\<lambda>b. (b, [0])) d)"

definition storage :: "arr \<Rightarrow> rval" where
  "storage a = Agg [Agg [I64 (a_refs a), I32 (a_cap a), I32 (a_len a), dat_ptr (a_dat a)]]"

definition stores :: "mem \<Rightarrow> arr \<Rightarrow> bool" where
  "stores m a \<longleftrightarrow>
     block m (a_blk a) = Some (storage a) \<and> a_len a \<le> a_cap a \<and> length (a_slots a) = unat (a_cap a)
     \<and> (case a_dat a of
           None \<Rightarrow> a_cap a = 0
         | Some d \<Rightarrow> d \<noteq> a_blk a \<and> block m d = Some (Agg (a_slots a)))"

definition elems :: "arr \<Rightarrow> rval list" where
  "elems a = take (unat (a_len a)) (a_slots a)"

text \<open>The blocks of an array; a variable that holds the array is outside of them.\<close>

definition footprint :: "arr \<Rightarrow> nat set" where
  "footprint a = insert (a_blk a) (set_option (a_dat a))"

definition peek :: "mem \<Rightarrow> nat \<times> nat list \<Rightarrow> rval option" where
  "peek m p = Option.bind (block m (fst p)) (\<lambda>v. at_path v (snd p))"

definition holds :: "mem \<Rightarrow> nat \<times> nat list \<Rightarrow> arr \<Rightarrow> bool" where
  "holds m p a \<longleftrightarrow>
     stores m a \<and> peek m p = Some (Ptr (Some (a_blk a, [0]))) \<and> fst p \<notin> footprint a"

text \<open>
  What every operation on an array keeps: the storage and its reference count, every block that is not of
  the array; new elements go to the blocks of the array or to new ones.
\<close>

definition updates :: "mem \<Rightarrow> arr \<Rightarrow> mem \<Rightarrow> arr \<Rightarrow> bool" where
  "updates m a m' a' \<longleftrightarrow>
     stores m' a' \<and> a_blk a' = a_blk a \<and> a_refs a' = a_refs a \<and> fresh m \<le> fresh m'
     \<and> (\<forall>b \<in> footprint a'. b \<in> footprint a \<or> fresh m \<le> b)
     \<and> (\<forall>b < fresh m. b \<notin> footprint a \<longrightarrow> block m' b = block m b)"

lemma peek_load: "peek m p = Some v \<Longrightarrow> createLoad (Ptr (Some p)) m = Inr (v, m)"
  by (cases p) (simp add: peek_def createLoad_run)

lemma peek_frame:
  assumes "peek m p = Some v" "block m' (fst p) = block m (fst p)"
  shows "peek m' p = Some v"
  using assms by (simp add: peek_def)

lemma peek_less: "peek m p = Some v \<Longrightarrow> fst p < fresh m"
  by (cases "block m (fst p)") (auto simp: peek_def block_Some_less)

lemma updates_holds: "updates m a m' a' \<Longrightarrow> holds m p a \<Longrightarrow> holds m' p a'"
  unfolding holds_def updates_def by (metis linorder_not_less peek_frame peek_less)

lemma stores_less: "stores m a \<Longrightarrow> b \<in> footprint a \<Longrightarrow> b < fresh m"
  by (auto simp: stores_def footprint_def block_Some_less)

lemma stores_frame:
  assumes "stores m a" "\<And>b. b \<in> footprint a \<Longrightarrow> block m' b = block m b"
  shows "stores m' a"
  using assms by (auto simp: stores_def footprint_def split: option.splits)

lemma updates_other:
  assumes "updates m a m' a'" "stores m c" "footprint c \<inter> footprint a = {}"
  shows "stores m' c" "footprint c \<inter> footprint a' = {}"
proof -
  show "stores m' c" using assms by (auto simp: updates_def intro!: stores_frame [OF assms(2)] dest: stores_less)
  show "footprint c \<inter> footprint a' = {}" using assms by (force simp: updates_def dest: stores_less)
qed

lemma updates_trans [trans]:
  assumes "updates m a m' a'" "updates m' a' m'' a''"
  shows "updates m a m'' a''"
  using assms unfolding updates_def by (metis dual_order.trans linorder_not_less order_less_le_trans)

lemma updates_refl: "stores m a \<Longrightarrow> updates m a m a"
  by (simp add: updates_def)

subsection \<open>Runs of elements\<close>

definition overwrite :: "'a list \<Rightarrow> nat \<Rightarrow> 'a list \<Rightarrow> 'a list" where
  "overwrite ds j vs = take j ds @ vs @ drop (j + length vs) ds"

lemma length_overwrite: "j + length vs \<le> length ds \<Longrightarrow> length (overwrite ds j vs) = length ds"
  by (simp add: overwrite_def)

lemma overwrite_Nil [simp]: "overwrite ds j [] = ds"
  by (simp add: overwrite_def)

lemma overwrite_Cons:
  assumes "j < length ds"
  shows "overwrite (ds[j := v]) (Suc j) vs = overwrite ds j (v # vs)"
  using assms by (simp add: overwrite_def take_Suc_conv_app_nth take_update_swap drop_update_cancel list_update_append)

lemma take_overwrite: "j \<le> length ds \<Longrightarrow> take (j + length vs) (overwrite ds j vs) = take j ds @ vs"
  by (simp add: overwrite_def min_def)

lemma set_block_same: "block m b = Some u \<Longrightarrow> set_block b u m = m"
  by (cases m) (auto simp: set_block_def block_def list_update_same_conv split: if_splits)

lemma set_block_twice [simp]: "set_block b v (set_block b u m) = set_block b v m"
  by (simp add: set_block_def)

lemma memSet_run:
  assumes "block m b = Some (Agg ds)" "j + n \<le> length ds"
  shows "memSet z (Ptr (Some (b, [j]))) n m = Inr ((), set_block b (Agg (overwrite ds j (replicate n z))) m)"
  using assms
proof (induction n arbitrary: j ds m)
  case 0
  then show ?case by (simp add: retS_run set_block_same)
next
  case (Suc n)
  let ?m = "set_block b (Agg (ds[j := z])) m"
  have "block ?m b = Some (Agg (ds[j := z]))" using Suc.prems(1) by (simp add: block_set_block block_Some_less)
  from Suc.IH [OF this, of "Suc j"] show ?case using Suc.prems
    by (simp add: run_simps overwrite_Cons)
qed

lemma memCpy_run:
  assumes "block m sb = Some (Agg ss)" "block m db = Some (Agg ds)"
    and "i + n \<le> length ss" "j + n \<le> length ds" "sb = db \<Longrightarrow> i + n \<le> j"
  shows "memCpy (Ptr (Some (db, [j]))) (Ptr (Some (sb, [i]))) n m
    = Inr ((), set_block db (Agg (overwrite ds j (take n (drop i ss)))) m)"
  using assms
proof (induction n arbitrary: i j ss ds m)
  case 0
  then show ?case by (simp add: retS_run set_block_same)
next
  case (Suc n)
  let ?ds = "ds[j := ss ! i]"
  let ?ss = "if sb = db then ?ds else ss"
  let ?m = "set_block db (Agg ?ds) m"
  have "block ?m db = Some (Agg ?ds)" "block ?m sb = Some (Agg ?ss)"
    using Suc.prems(1,2) by (auto simp: block_set_block block_Some_less)
  from Suc.IH [OF this(2,1), of "Suc i" "Suc j"]
  have "memCpy (Ptr (Some (db, [Suc j]))) (Ptr (Some (sb, [Suc i]))) n ?m
      = Inr ((), set_block db (Agg (overwrite ?ds (Suc j) (take n (drop (Suc i) ?ss)))) ?m)"
    using Suc.prems(3-5) by (cases "sb = db") (use Suc.prems(1,2) in auto)
  moreover have "take n (drop (Suc i) ?ss) = take n (drop (Suc i) ss)"
    using Suc.prems by (auto simp: drop_update_swap)
  moreover have "overwrite ?ds (Suc j) (take n (drop (Suc i) ss)) = overwrite ds j (take (Suc n) (drop i ss))"
    using Suc.prems(3,4) by (simp add: overwrite_Cons flip: Cons_nth_drop_Suc)
  ultimately show ?case using Suc.prems
    by (simp add: run_simps)
qed


subsection \<open>The fields of the storage\<close>

abbreviation self :: "arr \<Rightarrow> rval" where
  "self a \<equiv> Ptr (Some (a_blk a, [0]))"

lemma holds_load: "holds m p a \<Longrightarrow> createLoad (Ptr (Some p)) m = Inr (self a, m)"
  by (simp add: holds_def peek_load)

lemma load_fields:
  assumes "stores m a"
  shows "loadStructElem (self a) 0 m = Inr (I64 (a_refs a), m)"
    and "loadStructElem (self a) (Suc 0) m = Inr (I32 (a_cap a), m)"
    and "loadStructElem (self a) 2 m = Inr (I32 (a_len a), m)"
    and "loadStructElem (self a) 3 m = Inr (dat_ptr (a_dat a), m)"
  using assms by (simp_all add: stores_def storage_def run_simps numeral_2_eq_2 numeral_3_eq_3)

lemma load_len:
  "stores m a \<Longrightarrow> bindS (loadStructElem (self a) 2) asI32 m = Inr (a_len a, m)"
  "stores m a \<Longrightarrow> bindS (loadStructElem (self a) (Suc 0)) asI32 m = Inr (a_cap a, m)"
  by (simp_all add: bindS_run load_fields as_run)

lemma store_len:
  assumes "stores m a" "l \<le> a_cap a"
  shows "\<exists>m'. createStore (I32 l) (structGEP (self a) 2) m = Inr ((), m') \<and> updates m a m' (a\<lparr>a_len := l\<rparr>)
    \<and> avail m' = avail m"
proof (intro exI conjI)
  let ?m = "set_block (a_blk a) (storage (a\<lparr>a_len := l\<rparr>)) m"
  show "createStore (I32 l) (structGEP (self a) 2) m = Inr ((), ?m)"
    using assms by (simp add: stores_def storage_def run_simps numeral_2_eq_2)
  show "updates m a ?m (a\<lparr>a_len := l\<rparr>)"
    using assms by (auto simp: updates_def stores_def footprint_def storage_def block_set_block block_Some_less
        split: option.splits)
qed simp

lemma set_slots:
  assumes "stores m a" "a_dat a = Some d" "length vs = length (a_slots a)"
  shows "updates m a (set_block d (Agg vs) m) (a\<lparr>a_slots := vs\<rparr>)"
  using assms by (auto simp: updates_def stores_def footprint_def storage_def block_set_block block_Some_less)

lemma len_le_slots: "stores m a \<Longrightarrow> unat (a_len a) \<le> length (a_slots a)"
  by (simp add: stores_def word_le_nat_alt)

lemma length_elems [simp]: "stores m a \<Longrightarrow> length (elems a) = unat (a_len a)"
  by (simp add: elems_def len_le_slots)

lemma dat_null: "stores m a \<Longrightarrow> a_dat a = None \<Longrightarrow> a_cap a = 0 \<and> a_len a = 0 \<and> a_slots a = []"
  by (auto simp: stores_def)

subsection \<open>Moving to a new block\<close>

definition small :: "rt_env \<Rightarrow> rty \<Rightarrow> nat \<Rightarrow> bool" where
  "small env t n \<longleftrightarrow> n < 2 ^ 31 \<and> tsize env t < 2 ^ 31 \<and> n * tsize env t < 2 ^ 31"

lemma small_mono:
  assumes "small env t n" "k \<le> n"
  shows "small env t k"
proof -
  have "k * tsize env t \<le> n * tsize env t" using assms(2) by simp
  then show ?thesis using assms unfolding small_def by linarith
qed

lemma small_run:
  fixes n :: "32 word"
  shows "small env t (unat n) \<Longrightarrow> nswMul n (of_nat (tsize env t)) m = Inr (n * of_nat (tsize env t), m)"
  by (rule nswMul_small) (simp_all add: small_def)

lemma move_n_run:
  assumes "stores m a" "block m d = Some (Agg ds)" "d \<notin> footprint a" "unat (a_len a) \<le> length ds"
    and "classifyType t \<noteq> nontrivial" "small env t (unat (a_len a))"
  shows "move_n env t mv dt (dat_ptr (a_dat a)) (a_len a) (Ptr (Some (d, [0]))) m
    = Inr ((), set_block d (Agg (overwrite ds 0 (elems a))) m)"
proof (cases "a_dat a")
  case None
  then have "a_len a = 0" using assms(1) dat_null by blast
  then show ?thesis using assms(2,5,6) small_run [OF assms(6)]
    by (simp add: move_n_def bindS_run retS_run set_block_same elems_def)
next
  case (Some e)
  then have "block m e = Some (Agg (a_slots a))" "e \<noteq> d"
    using assms(1,3) by (auto simp: stores_def footprint_def)
  then show ?thesis using assms(2,4,5) small_run [OF assms(6)] len_le_slots [OF assms(1)] Some
    by (simp add: move_n_def bindS_run dat_ptr_def memCpy_run elems_def)
qed


text \<open>The array and the memory behind a reallocation.\<close>

definition moved :: "rty \<Rightarrow> 32 word \<Rightarrow> mem \<Rightarrow> arr \<Rightarrow> arr" where
  "moved t cap m a =
     a\<lparr>a_cap := cap, a_dat := Some (fresh m),
       a_slots := overwrite (replicate (unat cap) (undef_of t)) 0 (elems a)\<rparr>"

definition with_copy :: "rty \<Rightarrow> 32 word \<Rightarrow> arr \<Rightarrow> mem \<Rightarrow> mem" where
  "with_copy t cap a m =
     set_block (fresh m) (Agg (a_slots (moved t cap m a))) (new_block (Agg (replicate (unat cap) (undef_of t))) m)"

definition without_dat :: "arr \<Rightarrow> mem \<Rightarrow> mem" where
  "without_dat a m = (case a_dat a of None \<Rightarrow> m | Some d \<Rightarrow> drop_block d m)"

definition moved_mem :: "rty \<Rightarrow> 32 word \<Rightarrow> arr \<Rightarrow> mem \<Rightarrow> mem" where
  "moved_mem t cap a m = set_block (a_blk a) (storage (moved t cap m a)) (without_dat a (with_copy t cap a m))"

lemma moved_simps [simp]:
  "a_blk (moved t cap m a) = a_blk a" "a_refs (moved t cap m a) = a_refs a" "a_len (moved t cap m a) = a_len a"
  "a_cap (moved t cap m a) = cap" "a_dat (moved t cap m a) = Some (fresh m)"
  by (simp_all add: moved_def)

lemma moved_elems: "stores m a \<Longrightarrow> elems (moved t cap m a) = elems a"
  using take_overwrite [of 0 "replicate (unat cap) (undef_of t)" "elems a"]
  by (simp add: elems_def [of "moved t cap m a"]) (simp add: moved_def)

lemma moved_slots: "stores m a \<Longrightarrow> a_len a \<le> cap \<Longrightarrow> length (a_slots (moved t cap m a)) = unat cap"
  by (simp add: moved_def length_overwrite word_le_nat_alt)

lemma moved_mem_counts: "avail (moved_mem t cap a m) = avail m - 1" "fresh (moved_mem t cap a m) = Suc (fresh m)"
  by (auto simp: moved_mem_def without_dat_def with_copy_def split: option.splits)

lemma moved_updates:
  assumes "stores m a" "a_len a \<le> cap"
  shows "updates m a (moved_mem t cap a m) (moved t cap m a)"
proof -
  have fp: "b < fresh m" if "b \<in> footprint a" for b using assms(1) that stores_less by blast
  have blk: "a_blk a \<in> footprint a" "a_blk a < fresh m" "fresh m \<notin> footprint a" using fp by (auto simp: footprint_def)
  note defs = moved_mem_def without_dat_def with_copy_def
  have "block (moved_mem t cap a m) (fresh m) = Some (Agg (a_slots (moved t cap m a)))"
    using blk fp by (auto simp: defs block_simps footprint_def split: option.splits)
  moreover have "block (moved_mem t cap a m) (a_blk a) = Some (storage (moved t cap m a))"
    using blk by (auto simp: defs block_simps split: option.splits)
  ultimately have "stores (moved_mem t cap a m) (moved t cap m a)"
    using assms moved_slots [OF assms] blk by (auto simp: stores_def)
  moreover have "block (moved_mem t cap a m) b = block m b" if "b < fresh m" "b \<notin> footprint a" for b
    using that by (auto simp: defs block_simps footprint_def split: option.splits)
  ultimately show ?thesis using moved_mem_counts(2) [of t cap a m] by (auto simp: updates_def footprint_def)
qed

lemma reallocate_run:
  assumes "stores m a" "classifyType t \<noteq> nontrivial" "small env t (unat (a_len a))"
    and "a_len a \<le> cap" "0 < avail m"
  shows "\<exists>m' a'. reallocate env t ops (self a) cap m = Inr ((), m') \<and> updates m a m' a' \<and> elems a' = elems a
    \<and> a_cap a' = cap \<and> a_len a' = a_len a \<and> a_dat a' \<noteq> None \<and> avail m' = avail m - 1"
proof -
  let ?m1 = "new_block (Agg (replicate (unat cap) (undef_of t))) m"
  let ?m2 = "with_copy t cap a m"
  have a: "fresh m \<notin> footprint a" using stores_less [OF assms(1)] by blast
  have s1: "stores ?m1 a" using a by (auto intro!: stores_frame [OF assms(1)] simp: block_new_block)
  have "a_slots (moved t cap m a) = overwrite (replicate (unat cap) (undef_of t)) 0 (elems a)" by (simp add: moved_def)
  then have mv: "move_n env t (e_mov ops) (e_dtor ops) (dat_ptr (a_dat a)) (a_len a) (Ptr (Some (fresh m, [0]))) ?m1
      = Inr ((), ?m2)"
    unfolding with_copy_def using move_n_run [OF s1 _ a _ assms(2,3)] assms(4) by (auto simp: block_new_block word_le_nat_alt)
  have s2: "stores ?m2 a" using s1 a by (auto intro!: stores_frame [OF s1] simp: with_copy_def block_set_block)
  have fr: "callFree (dat_ptr (a_dat a)) ?m2 = Inr ((), without_dat a ?m2)"
    using s2 by (auto simp: without_dat_def stores_def dat_ptr_def callFree_run split: option.splits)
  have b3: "block (without_dat a ?m2) (a_blk a) = Some (storage a)"
    using s2 by (auto simp: without_dat_def stores_def block_drop_block split: option.splits)
  have "reallocate env t ops (self a) cap m = Inr ((), moved_mem t cap a m)"
    using assms(5) b3 mv fr load_fields [OF s1]
    by (simp add: reallocate_def bindS_run callAlloc_run as_run)
       (simp add: run_simps block_set_block block_Some_less storage_def moved_mem_def dat_ptr_def numeral_3_eq_3)
  then show ?thesis
    using moved_updates [OF assms(1,4), of t] moved_elems [OF assms(1), of t cap] moved_mem_counts(1) [of t cap a m]
    by (intro exI [of _ "moved_mem t cap a m"] exI [of _ "moved t cap m a"]) simp
qed

text \<open>The capacity that an operation asks for is rounded up to a power of two.\<close>

lemma ceil_run:
  assumes "0 < unat need" "unat need < 2 ^ 31"
  shows "\<exists>cap. ceil_to_pow_2 need m = Inr (cap, m) \<and> need \<le> cap"
proof -
  obtain k where "k \<le> 31" "ceil_to_pow_2 need m = Inr (2 ^ k, m)" "unat need \<le> 2 ^ k"
    using ceil_to_pow_2_small [OF assms] by blast
  moreover have "unat (of_nat (2 ^ k) :: 32 word) = 2 ^ k"
    using \<open>k \<le> 31\<close> power_strict_increasing [of k 32 "2 :: nat"] by (simp only: unat_of_nat) (simp add: take_bit_nat_eq_self)
  ultimately show ?thesis by (auto simp: word_le_nat_alt)
qed

lemma grow_run:
  assumes "stores m a" "classifyType t \<noteq> nontrivial" "small env t (unat (a_len a))"
    and "unat need < 2 ^ 31" "a_len a \<le> need" "c \<longleftrightarrow> a_cap a < need" "c \<Longrightarrow> 0 < avail m"
  shows "\<exists>m' a'. (if c then bindS (ceil_to_pow_2 need) (\<lambda>cap. reallocate env t ops (self a) cap) else retS ()) m
      = Inr ((), m') \<and> updates m a m' a' \<and> elems a' = elems a \<and> a_len a' = a_len a \<and> need \<le> a_cap a'"
proof (cases c)
  case True
  then have "0 < unat need" using assms(6) by (simp add: word_less_nat_alt)
  then obtain cap where cap: "ceil_to_pow_2 need m = Inr (cap, m)" "need \<le> cap"
    using ceil_run [OF _ assms(4)] by blast
  then have "a_len a \<le> cap" using assms(5) by simp
  from reallocate_run [OF assms(1-3) this] True assms(7) cap show ?thesis
    by (auto simp: bindS_run) (metis (no_types, lifting))
next
  case False
  then have "need \<le> a_cap a" using assms(6) by simp
  then show ?thesis using False assms(1) by (auto simp: retS_run intro: updates_refl)
qed

lemma grow_fails:
  assumes "0 < unat need" "unat need < 2 ^ 31" "avail m = 0"
  shows "bindS (ceil_to_pow_2 need) (\<lambda>cap. reallocate env t ops b cap) m = Inl (panicked ''Out of memory'')"
  using ceil_run [OF assms(1,2), of m] assms(3) by (auto simp: bindS_run reallocate_def callAlloc_run)

subsection \<open>The operations\<close>

text \<open>Elements are written behind the last one, and then counted.\<close>

definition put_run :: "arr \<Rightarrow> rval list \<Rightarrow> mem \<Rightarrow> mem" where
  "put_run a vs m =
     (case a_dat a of
        None \<Rightarrow> m
      | Some d \<Rightarrow> set_block d (Agg (overwrite (a_slots a) (unat (a_len a)) vs)) m)"

lemma fill_run:
  assumes "stores m a" "unat l = unat (a_len a) + length vs" "l \<le> a_cap a"
  shows "\<exists>m' a'. createStore (I32 l) (structGEP (self a) 2) (put_run a vs m) = Inr ((), m') \<and> updates m a m' a'
    \<and> elems a' = elems a @ vs"
proof -
  let ?slots = "if a_dat a = None then a_slots a else overwrite (a_slots a) (unat (a_len a)) vs"
  let ?b = "a\<lparr>a_slots := ?slots\<rparr>"
  have len: "unat (a_len a) + length vs \<le> length (a_slots a)"
    using assms by (simp add: stores_def word_le_nat_alt)
  then have u: "updates m a (put_run a vs m) ?b"
    using assms(1) by (cases "a_dat a") (auto simp: put_run_def updates_refl length_overwrite intro: set_slots)
  from u obtain m' where st: "createStore (I32 l) (structGEP (self ?b) 2) (put_run a vs m) = Inr ((), m')"
      "updates (put_run a vs m) ?b m' (?b\<lparr>a_len := l\<rparr>)"
    using store_len [of "put_run a vs m" ?b l] assms(3) by (auto simp: updates_def)
  have "elems (?b\<lparr>a_len := l\<rparr>) = elems a @ vs"
    using assms(1,2) len take_overwrite [of "unat (a_len a)" "a_slots a" vs] dat_null [OF assms(1)] by (auto simp: elems_def)
  then show ?thesis using st(1) updates_trans [OF u st(2)] by auto
qed

lemma push_back_run:
  assumes "holds m p a" "classifyType t = trivially_copyable" "small env t (unat (a_len a))"
    and "unat (a_len a) + 1 < 2 ^ 31" "a_len a = a_cap a \<Longrightarrow> 0 < avail m"
  shows "\<exists>m' a'. btn_push_back env t ops (Ptr (Some p)) v m = Inr ((), m') \<and> updates m a m' a'
    \<and> elems a' = elems a @ [v]"
proof -
  have s: "stores m a" using assms(1) by (simp add: holds_def)
  have add: "nswAdd (a_len a) 1 m = Inr (a_len a + 1, m)" "unat (a_len a + 1) = unat (a_len a) + 1"
    using nswAdd_small [of "a_len a" 1] assms(4) by simp_all
  have "a_len a = a_cap a \<longleftrightarrow> a_cap a < a_len a + 1" "a_len a \<le> a_len a + 1"
    using s add(2) by (auto simp: stores_def word_le_nat_alt word_less_nat_alt word_unat_eq_iff)
  from grow_run [OF s _ assms(3) _ this(2,1) assms(5), of ops] add(2) assms(2,4)
  obtain m1 a1 where g: "(if a_len a = a_cap a then bindS (ceil_to_pow_2 (a_len a + 1)) (\<lambda>cap. reallocate env t ops (self a) cap)
      else retS ()) m = Inr ((), m1)" "updates m a m1 a1" "elems a1 = elems a" "a_len a1 = a_len a"
      "a_len a + 1 \<le> a_cap a1"
    by auto
  have s1: "stores m1 a1" and blk: "a_blk a1 = a_blk a" using g(2) by (auto simp: updates_def)
  obtain m2 a2 where st: "createStore (I32 (a_len a + 1)) (structGEP (self a1) 2) (put_run a1 [v] m1) = Inr ((), m2)"
      "updates m1 a1 m2 a2" "elems a2 = elems a1 @ [v]"
    using fill_run [OF s1, of "a_len a + 1" "[v]"] g(4,5) add(2) by auto
  have n: "unat (a_len a) < length (a_slots a1)" using s1 g(5) add(2) by (auto simp: stores_def word_le_nat_alt)
  then obtain d where d: "a_dat a1 = Some d" "block m1 d = Some (Agg (a_slots a1))"
    using s1 dat_null [OF s1] by (cases "a_dat a1") (auto simp: stores_def)
  have "createStore v (arrayIndex (dat_ptr (a_dat a1)) (a_len a)) m1 = Inr ((), put_run a1 [v] m1)"
    using d n g(4) overwrite_Cons [OF n, of v "[]"] by (simp add: run_simps dat_ptr_def put_run_def)
  then have "btn_push_back env t ops (Ptr (Some p)) v m = Inr ((), m2)"
    using st(1) assms(2) load_fields(4) [OF s1]
    by (simp add: btn_push_back_def holds_load [OF assms(1)] add(1) g(1) load_fields [OF s] as_run blk split del: if_split)
  then show ?thesis using updates_trans [OF g(2) st(2)] st(3) g(3) by auto
qed

lemma construct_n_run:
  assumes "stores m a" "classifyType t = trivially_copyable" "small env t (unat n)"
    and "unat (a_len a) + unat n \<le> unat (a_cap a)"
  shows "construct_n env t df (arrayIndex (dat_ptr (a_dat a)) (a_len a)) n m
    = Inr ((), put_run a (replicate (unat n) (zero_of t)) m)"
  using assms dat_null [OF assms(1)]
  by (cases "a_dat a")
     (auto simp: construct_n_def bindS_run small_run retS_run put_run_def dat_ptr_def arrayIndex_def indexGEP_run
       memSet_run stores_def)

lemma copy_n_run:
  assumes "stores m a" "stores m c" "c = a \<or> footprint c \<inter> footprint a = {}"
    and "classifyType t = trivially_copyable" "small env t (unat (a_len c))"
    and "unat (a_len a) + unat (a_len c) \<le> unat (a_cap a)"
  shows "copy_n env t cp (dat_ptr (a_dat c)) (a_len c) (arrayIndex (dat_ptr (a_dat a)) (a_len a)) m
    = Inr ((), put_run a (elems c) m)"
proof (cases "a_len c = 0")
  case True
  then show ?thesis using assms(1,4,5) dat_null [OF assms(1)]
    by (cases "a_dat a")
       (auto simp: copy_n_def bindS_run small_run retS_run put_run_def elems_def set_block_same stores_def)
next
  case False
  then have "0 < unat (a_len c)" by (simp add: unat_gt_0)
  then obtain d e where d: "a_dat a = Some d" "a_dat c = Some e"
    using assms(6) dat_null [OF assms(1)] dat_null [OF assms(2)] by fastforce
  have "block m d = Some (Agg (a_slots a))" using assms(1) d(1) by (simp add: stores_def)
  moreover have "block m e = Some (Agg (a_slots c))" using assms(2) d(2) by (simp add: stores_def)
  moreover have "e = d \<Longrightarrow> c = a" using assms(3) d by (auto simp: footprint_def)
  ultimately show ?thesis using d assms(4-6) len_le_slots [OF assms(2)] assms(1)
    by (simp add: copy_n_def bindS_run small_run put_run_def dat_ptr_def arrayIndex_def indexGEP_run elems_def stores_def memCpy_run)
qed


lemma append_run:
  assumes "holds m p a" "holds m q c" "c = a \<or> footprint c \<inter> footprint a = {}" "classifyType t = trivially_copyable"
    and "small env t (unat (a_len a))" "small env t (unat (a_len c))" "unat (a_len a) + unat (a_len c) < 2 ^ 31"
    and "unat (a_cap a) < unat (a_len a) + unat (a_len c) \<Longrightarrow> 0 < avail m"
  shows "\<exists>m' a'. btn_append env t ops (Ptr (Some p)) (Ptr (Some q)) m = Inr ((), m') \<and> updates m a m' a'
    \<and> elems a' = elems a @ elems c"
proof -
  let ?n = "a_len a + a_len c"
  have s: "stores m a" "stores m c" using assms(1,2) by (simp_all add: holds_def)
  have add: "nswAdd (a_len a) (a_len c) m = Inr (?n, m)" "unat ?n = unat (a_len a) + unat (a_len c)"
    using nswAdd_small [OF assms(7)] by simp_all
  then have "unat ?n < 2 ^ 31" "a_len a \<le> ?n" "a_cap a < ?n \<Longrightarrow> 0 < avail m"
    using assms(7,8) by (auto simp: word_le_nat_alt word_less_nat_alt)
  from grow_run [OF s(1) _ assms(5) this(1,2) refl this(3), of ops] assms(4)
  obtain m1 a1 where g: "(if a_cap a < ?n then bindS (ceil_to_pow_2 ?n) (\<lambda>cap. reallocate env t ops (self a) cap)
      else retS ()) m = Inr ((), m1)" "updates m a m1 a1" "elems a1 = elems a" "a_len a1 = a_len a" "?n \<le> a_cap a1"
    by auto
  define c1 where "c1 = (if c = a then a1 else c)"
  have s1: "stores m1 a1" and blk: "a_blk a1 = a_blk a" using g(2) by (auto simp: updates_def)
  have c1: "stores m1 c1" "a_blk c1 = a_blk c" "a_len c1 = a_len c" "elems c1 = elems c"
      "c1 = a1 \<or> footprint c1 \<inter> footprint a1 = {}"
    using s1 blk g(3,4) updates_other [OF g(2) s(2)] assms(3) by (auto simp: c1_def)
  have "unat (a_len a1) + unat (a_len c1) \<le> unat (a_cap a1)"
    using g(4,5) c1(3) add(2) by (simp add: word_le_nat_alt)
  from copy_n_run [OF s1 c1(1,5) assms(4) _ this] assms(6)
  have cp: "copy_n env t (e_cop ops) (dat_ptr (a_dat c1)) (a_len c) (arrayIndex (dat_ptr (a_dat a1)) (a_len a)) m1
      = Inr ((), put_run a1 (elems c) m1)"
    using c1(3,4) g(4) by simp
  obtain m2 a2 where st: "createStore (I32 ?n) (structGEP (self a1) 2) (put_run a1 (elems c) m1) = Inr ((), m2)"
      "updates m1 a1 m2 a2" "elems a2 = elems a1 @ elems c"
    using fill_run [OF s1, of ?n "elems c"] g(4,5) add(2) s(2) by auto
  have "btn_append env t ops (Ptr (Some p)) (Ptr (Some q)) m = Inr ((), m2)"
    using st(1) cp load_fields(4) [OF s1] load_fields(4) [OF c1(1)]
    by (simp add: btn_append_def holds_load [OF assms(1)] holds_load [OF assms(2)] add(1) g(1) load_fields [OF s(1)]
        load_fields [OF s(2)] as_run blk c1(2) split del: if_split)
  then show ?thesis using updates_trans [OF g(2) st(2)] st(3) g(3) by auto
qed

lemma destroy_trivial: "classifyType t = trivially_copyable \<Longrightarrow> destroy env t x = retS ()"
  by (induction t rule: classifyType.induct) auto

lemma pop_back_run:
  assumes "holds m p a" "classifyType t = trivially_copyable" "unat (a_len a) < 2 ^ 31" "a_len a \<noteq> 0"
  shows "\<exists>m' a'. btn_pop_back (ops_of env t) (Ptr (Some p)) m = Inr ((), m') \<and> updates m a m' a'
    \<and> elems a' = butlast (elems a)"
proof -
  have s: "stores m a" using assms(1) by (simp add: holds_def)
  have "0 < unat (a_len a)" using assms(4) by (simp add: unat_gt_0)
  then have sub: "nswSub (a_len a) 1 m = Inr (a_len a - 1, m)" "unat (a_len a - 1) = unat (a_len a) - 1"
    using nswSub_small [of 1 "a_len a"] assms(3) by auto
  then have "a_len a - 1 \<le> a_cap a" using s by (auto simp: stores_def word_le_nat_alt)
  from store_len [OF s this] obtain m' where st:
      "createStore (I32 (a_len a - 1)) (structGEP (self a) 2) m = Inr ((), m')" "updates m a m' (a\<lparr>a_len := a_len a - 1\<rparr>)"
    by blast
  have "loadStructElem (self a) 3 m' = Inr (dat_ptr (a_dat a), m')"
    using load_fields(4) [of m' "a\<lparr>a_len := a_len a - 1\<rparr>"] st(2) by (simp add: updates_def)
  then have "btn_pop_back (ops_of env t) (Ptr (Some p)) m = Inr ((), m')"
    using assms(4) st(1)
    by (simp add: btn_pop_back_def holds_load [OF assms(1)] load_fields [OF s] as_run sub(1) ops_of_def destroy_trivial [OF assms(2)])
  moreover have "elems (a\<lparr>a_len := a_len a - 1\<rparr>) = butlast (elems a)"
    using len_le_slots [OF s] sub(2) by (simp add: elems_def butlast_take)
  ultimately show ?thesis using st(2) by blast
qed

lemma pop_back_empty:
  assumes "holds m p a" "a_len a = 0"
  shows "btn_pop_back ops (Ptr (Some p)) m = Inl (panicked ''pop_back from empty array'')"
proof -
  have "stores m a" using assms(1) by (simp add: holds_def)
  then show ?thesis using assms(2)
    by (simp add: btn_pop_back_def bindS_run holds_load [OF assms(1)] load_fields as_run callPanic_def failS_run)
qed

lemma reserve_run:
  assumes "holds m p a" "classifyType t \<noteq> nontrivial" "small env t (unat (a_len a))" "a_cap a < n \<Longrightarrow> 0 < avail m"
  shows "\<exists>m' a'. btn_reserve env t ops (Ptr (Some p)) n m = Inr ((), m') \<and> updates m a m' a' \<and> elems a' = elems a
    \<and> a_cap a' = max (a_cap a) n"
proof -
  have s: "stores m a" using assms(1) by (simp add: holds_def)
  have le: "a_len a \<le> a_cap a" using s by (simp add: stores_def)
  show ?thesis
  proof (cases "a_cap a < n")
    case True
    with le have "a_len a \<le> n" by simp
    from reallocate_run [OF s assms(2,3) this assms(4) [OF True], of ops] True show ?thesis
      by (auto simp: btn_reserve_def bindS_run holds_load [OF assms(1)] load_fields [OF s] as_run max_def)
  next
    case False
    then show ?thesis using updates_refl [OF s]
      by (auto simp: btn_reserve_def bindS_run holds_load [OF assms(1)] load_fields [OF s] as_run max_def retS_run)
  qed
qed


lemma resize_shrink:
  assumes "holds m p a" "classifyType t = trivially_copyable" "unat (a_len a) < 2 ^ 31" "n \<le> a_len a"
  shows "\<exists>m' a'. btn_resize env t ops (Ptr (Some p)) n m = Inr ((), m') \<and> updates m a m' a'
    \<and> elems a' = take (unat n) (elems a)"
proof -
  have s: "stores m a" using assms(1) by (simp add: holds_def)
  have sub: "nswSub (a_len a) n m = Inr (a_len a - n, m)"
    using nswSub_small [of n "a_len a"] assms(3,4) by (simp add: word_le_nat_alt)
  have "n \<le> a_cap a" using s assms(4) by (auto simp: stores_def)
  from store_len [OF s this] obtain m' where st:
      "createStore (I32 n) (structGEP (self a) 2) m = Inr ((), m')" "updates m a m' (a\<lparr>a_len := n\<rparr>)"
    by blast
  have "btn_resize env t ops (Ptr (Some p)) n m = Inr ((), m')"
    using st(1) assms(2,4)
    by (simp add: btn_resize_def holds_load [OF assms(1)] load_fields [OF s] as_run sub destroy_n_def)
  moreover have "elems (a\<lparr>a_len := n\<rparr>) = take (unat n) (elems a)"
    using assms(4) by (simp add: elems_def word_le_nat_alt)
  ultimately show ?thesis using st(2) by blast
qed

lemma resize_grow:
  assumes "holds m p a" "classifyType t = trivially_copyable" "small env t (unat n)" "a_len a < n"
    and "a_cap a < n \<Longrightarrow> 0 < avail m"
  shows "\<exists>m' a'. btn_resize env t ops (Ptr (Some p)) n m = Inr ((), m') \<and> updates m a m' a'
    \<and> elems a' = elems a @ replicate (unat n - unat (a_len a)) (zero_of t)"
proof -
  have s: "stores m a" using assms(1) by (simp add: holds_def)
  have n: "unat n < 2 ^ 31" "unat (a_len a) < unat n" using assms(3,4) by (simp_all add: small_def word_less_nat_alt)
  have small: "small env t k" if "k \<le> unat n" for k
    using small_mono [OF assms(3) that] .
  from grow_run [OF s _ small n(1) less_imp_le [OF assms(4)] refl assms(5), of ops] assms(2) n(2)
  obtain m1 a1 where g: "(if a_cap a < n then bindS (ceil_to_pow_2 n) (\<lambda>cap. reallocate env t ops (self a) cap)
      else retS ()) m = Inr ((), m1)" "updates m a m1 a1" "elems a1 = elems a" "a_len a1 = a_len a" "n \<le> a_cap a1"
    by auto
  have s1: "stores m1 a1" and blk: "a_blk a1 = a_blk a" using g(2) by (auto simp: updates_def)
  have sub: "nswSub n (a_len a) m1 = Inr (n - a_len a, m1)" "unat (n - a_len a) = unat n - unat (a_len a)"
    using nswSub_small [of "a_len a" n] n by simp_all
  let ?vs = "replicate (unat n - unat (a_len a)) (zero_of t)"
  have cn: "construct_n env t (e_def ops) (arrayIndex (dat_ptr (a_dat a1)) (a_len a)) (n - a_len a) m1
      = Inr ((), put_run a1 ?vs m1)"
    using construct_n_run [OF s1 assms(2), of env "n - a_len a"] small sub(2) n(2) g(4,5) by (simp add: word_le_nat_alt)
  obtain m2 a2 where st: "createStore (I32 n) (structGEP (self a1) 2) (put_run a1 ?vs m1) = Inr ((), m2)"
      "updates m1 a1 m2 a2" "elems a2 = elems a1 @ ?vs"
    using fill_run [OF s1, of n ?vs] g(4,5) n(2) by auto
  have "\<not> n \<le> a_len a" using assms(4) by simp
  then have "btn_resize env t ops (Ptr (Some p)) n m = Inr ((), m2)"
    using st(1) cn load_fields(4) [OF s1]
    by (simp add: btn_resize_def holds_load [OF assms(1)] load_fields [OF s] as_run g(1) sub(1) blk split del: if_split)
  then show ?thesis using updates_trans [OF g(2) st(2)] st(3) g(3) by auto
qed

subsection \<open>Indexing\<close>

lemma generateArrayIdx_run:
  assumes "holds m p a"
  shows "generateArrayIdx chk (Ptr (Some p)) i m =
    (if chk i (a_len a) then Inr (arrayIndex (dat_ptr (a_dat a)) i, m) else Inl (panicked ''Index out of bounds''))"
proof -
  have s: "stores m a" using assms by (simp add: holds_def)
  show ?thesis
    by (simp add: generateArrayIdx_def bindS_run holds_load [OF assms] load_fields [OF s] as_run retS_run callPanic_def failS_run)
qed

lemma load_elem:
  assumes "stores m a" "unat i < unat (a_len a)"
  shows "createLoad (arrayIndex (dat_ptr (a_dat a)) i) m = Inr (elems a ! unat i, m)"
proof -
  have i: "unat i < length (a_slots a)" using len_le_slots [OF assms(1)] assms(2) by simp
  then obtain d where "a_dat a = Some d" using dat_null [OF assms(1)] by fastforce
  moreover from this have "block m d = Some (Agg (a_slots a))" using assms(1) by (simp add: stores_def)
  ultimately show ?thesis using i assms(2) by (simp add: run_simps dat_ptr_def elems_def)
qed

lemma signed_bounds:
  assumes "unat n < 2 ^ 31"
  shows "checkSignedBounds i n \<longleftrightarrow> unat i < unat n"
proof -
  have "0 \<le> sint i \<and> sint i < int (unat n) \<longleftrightarrow> unat i < unat n"
  proof (cases "unat i < 2 ^ 31")
    case True
    then show ?thesis using sint_small [OF True] by (simp only: of_nat_less_iff of_nat_0_le_iff simp_thms)
  next
    case False
    then have "sint i < 0"
      using top_bit [of i 31] bit_last_iff [of i] unsigned_less [of i, where ?'a = nat] by auto
    then show ?thesis using False assms by simp
  qed
  then show ?thesis using sint_small [OF assms] by (simp add: checkSignedBounds_def word_sle_eq word_sless_alt)
qed

end
