(* ===== verification/Runtime_Contract.thy ===== *)
theory Runtime_Contract
  imports Runtime_Arrays
begin

section \<open>Programs on arrays\<close>

text \<open>
  The contract of the builtin functions of arrays, whose elements are values of a builtin type: a program
  that calls them in any order computes what it computes on lists. The memory may run out, and then
  the program panics; it never does anything that has no defined behaviour.
\<close>

subsection \<open>Steps that refine an abstract machine\<close>

text \<open>
  The contract: an operation on the concrete state ends as its abstract counterpart does, or with the one
  error that the abstract machine does not know. A program then does the same.
\<close>

fun steps :: "('op \<Rightarrow> 's \<Rightarrow> 's res) \<Rightarrow> 'op list \<Rightarrow> 's \<Rightarrow> 's res" where
  "steps f [] s = Inr s"
| "steps f (x # xs) s = bindE (f x s) (steps f xs)"

fun all_ok :: "('op \<Rightarrow> 's \<Rightarrow> 's res) \<Rightarrow> ('op \<Rightarrow> 's \<Rightarrow> bool) \<Rightarrow> 'op list \<Rightarrow> 's \<Rightarrow> bool" where
  "all_ok f ok [] s \<longleftrightarrow> True"
| "all_ok f ok (x # xs) s \<longleftrightarrow> ok x s \<and> (case f x s of Inl e \<Rightarrow> True | Inr t \<Rightarrow> all_ok f ok xs t)"

locale refining =
  fixes rel :: "'c \<Rightarrow> 'a \<Rightarrow> bool"
    and exec :: "'op \<Rightarrow> 'c \<Rightarrow> 'c res"
    and spec :: "'op \<Rightarrow> 'a \<Rightarrow> 'a res"
    and ok :: "'op \<Rightarrow> 'a \<Rightarrow> bool"
    and oom :: error
  assumes fails: "rel s t \<Longrightarrow> ok x t \<Longrightarrow> exec x s = Inl e \<Longrightarrow> e = oom \<or> spec x t = Inl e"
    and returns: "rel s t \<Longrightarrow> ok x t \<Longrightarrow> exec x s = Inr s' \<Longrightarrow> \<exists>t'. spec x t = Inr t' \<and> rel s' t'"
begin

lemma program_fails:
  assumes "rel s t" "all_ok spec ok xs t" "steps exec xs s = Inl e"
  shows "e = oom \<or> steps spec xs t = Inl e"
  using assms
proof (induction xs arbitrary: s t)
  case (Cons x xs)
  show ?case
  proof (cases "exec x s")
    case (Inl e')
    then show ?thesis using fails [of s t x e'] Cons.prems by auto
  next
    case (Inr s')
    then obtain t' where "spec x t = Inr t'" "rel s' t'" using returns Cons.prems by fastforce
    then show ?thesis using Cons.IH [of s' t'] Cons.prems Inr by auto
  qed
qed simp

lemma program_returns:
  assumes "rel s t" "all_ok spec ok xs t" "steps exec xs s = Inr s'"
  shows "\<exists>t'. steps spec xs t = Inr t' \<and> rel s' t'"
  using assms
proof (induction xs arbitrary: s t)
  case (Cons x xs)
  then obtain s1 where "exec x s = Inr s1" "steps exec xs s1 = Inr s'" by auto
  moreover from this obtain t1 where "spec x t = Inr t1" "rel s1 t1" using returns Cons.prems by fastforce
  ultimately show ?case using Cons.IH [of s1 t1] Cons.prems by auto
qed auto

end

subsection \<open>Calls of the builtin functions\<close>

datatype arr_call =
    Push_back rval
  | Pop_back
  | Append_self
  | Resize "32 word"
  | Reserve "32 word"

definition run_call :: "rt_env \<Rightarrow> rty \<Rightarrow> nat \<times> nat list \<Rightarrow> arr_call \<Rightarrow> mem \<Rightarrow> mem res" where
  "run_call env t p c m =
     bindE ((case c of
         Push_back v \<Rightarrow> btn_push_back env t (ops_of env t) (Ptr (Some p)) v
       | Pop_back \<Rightarrow> btn_pop_back (ops_of env t) (Ptr (Some p))
       | Append_self \<Rightarrow> btn_append env t (ops_of env t) (Ptr (Some p)) (Ptr (Some p))
       | Resize n \<Rightarrow> btn_resize env t (ops_of env t) (Ptr (Some p)) n
       | Reserve n \<Rightarrow> btn_reserve env t (ops_of env t) (Ptr (Some p)) n) m) (\<lambda>(u, m'). Inr m')"

fun list_call :: "rty \<Rightarrow> arr_call \<Rightarrow> rval list \<Rightarrow> rval list res" where
  "list_call t (Push_back v) xs = Inr (xs @ [v])"
| "list_call t Pop_back xs = (if xs = [] then Inl (panicked ''pop_back from empty array'') else Inr (butlast xs))"
| "list_call t Append_self xs = Inr (xs @ xs)"
| "list_call t (Resize n) xs = Inr (take (unat n) xs @ replicate (unat n - length xs) (zero_of t))"
| "list_call t (Reserve n) xs = Inr xs"

text \<open>The bytes of the elements are counted in signed 32 bit numbers, before and after each call.\<close>

fun call_fits :: "rt_env \<Rightarrow> rty \<Rightarrow> arr_call \<Rightarrow> rval list \<Rightarrow> bool" where
  "call_fits env t (Push_back v) xs \<longleftrightarrow> small env t (Suc (length xs))"
| "call_fits env t Pop_back xs \<longleftrightarrow> small env t (length xs)"
| "call_fits env t Append_self xs \<longleftrightarrow> small env t (length xs + length xs)"
| "call_fits env t (Resize n) xs \<longleftrightarrow> small env t (length xs) \<and> small env t (unat n)"
| "call_fits env t (Reserve n) xs \<longleftrightarrow> small env t (length xs)"

definition out_of_memory :: error where
  "out_of_memory = panicked ''Out of memory''"

subsection \<open>Without memory\<close>

lemma reallocate_fails: "avail m = 0 \<Longrightarrow> reallocate env t ops b cap m = Inl out_of_memory"
  by (simp add: reallocate_def bindS_run callAlloc_run out_of_memory_def)

lemma push_back_fails:
  assumes "holds m p a" "unat (a_len a) + 1 < 2 ^ 31" "a_len a = a_cap a" "avail m = 0"
  shows "btn_push_back env t ops (Ptr (Some p)) v m = Inl out_of_memory"
proof -
  have s: "stores m a" using assms(1) by (simp add: holds_def)
  have add: "nswAdd (a_len a) 1 m = Inr (a_len a + 1, m)" "unat (a_len a + 1) = unat (a_len a) + 1"
    using nswAdd_small [of "a_len a" 1] assms(2) by simp_all
  then obtain cap where "ceil_to_pow_2 (a_len a + 1) m = Inr (cap, m)"
    using ceil_run [of "a_len a + 1" m] assms(2) by auto
  then show ?thesis using assms(3) add(1)
    by (simp add: btn_push_back_def bindS_run holds_load [OF assms(1)] load_fields [OF s] as_run reallocate_fails [OF assms(4)])
qed

lemma append_fails:
  assumes "holds m p a" "holds m q c" "unat (a_len a) + unat (a_len c) < 2 ^ 31"
    and "unat (a_cap a) < unat (a_len a) + unat (a_len c)" "avail m = 0"
  shows "btn_append env t ops (Ptr (Some p)) (Ptr (Some q)) m = Inl out_of_memory"
proof -
  have s: "stores m a" "stores m c" using assms(1,2) by (simp_all add: holds_def)
  have add: "nswAdd (a_len a) (a_len c) m = Inr (a_len a + a_len c, m)"
      "unat (a_len a + a_len c) = unat (a_len a) + unat (a_len c)"
    using nswAdd_small [OF assms(3)] by simp_all
  then obtain cap where "ceil_to_pow_2 (a_len a + a_len c) m = Inr (cap, m)"
    using ceil_run [of "a_len a + a_len c" m] assms(3,4) by (metis gr_zeroI not_less_zero)
  moreover have "a_cap a < a_len a + a_len c" using add(2) assms(4) by (simp add: word_less_nat_alt)
  ultimately show ?thesis using add(1)
    by (simp add: btn_append_def bindS_run holds_load [OF assms(1)] holds_load [OF assms(2)] load_fields [OF s(1)]
        load_fields [OF s(2)] as_run reallocate_fails [OF assms(5)])
qed

lemma resize_fails:
  assumes "holds m p a" "unat n < 2 ^ 31" "a_cap a < n" "avail m = 0"
  shows "btn_resize env t ops (Ptr (Some p)) n m = Inl out_of_memory"
proof -
  have s: "stores m a" using assms(1) by (simp add: holds_def)
  have "0 < unat n" using assms(3) by (simp add: word_less_nat_alt)
  then obtain cap where "ceil_to_pow_2 n m = Inr (cap, m)" using ceil_run [OF _ assms(2)] by blast
  moreover have "\<not> n \<le> a_len a" using s assms(3) by (auto simp: stores_def)
  ultimately show ?thesis using assms(3)
    by (simp add: btn_resize_def bindS_run holds_load [OF assms(1)] load_fields [OF s] as_run reallocate_fails [OF assms(4)])
qed

lemma reserve_fails:
  assumes "holds m p a" "a_cap a < n" "avail m = 0"
  shows "btn_reserve env t ops (Ptr (Some p)) n m = Inl out_of_memory"
proof -
  have s: "stores m a" using assms(1) by (simp add: holds_def)
  show ?thesis using assms(2)
    by (simp add: btn_reserve_def bindS_run holds_load [OF assms(1)] load_fields [OF s] as_run reallocate_fails [OF assms(3)])
qed

subsection \<open>The refinement\<close>

text \<open>One call, on memory and on lists.\<close>

definition call_refines :: "rt_env \<Rightarrow> rty \<Rightarrow> nat \<times> nat list \<Rightarrow> arr_call \<Rightarrow> mem \<Rightarrow> arr \<Rightarrow> bool" where
  "call_refines env t p c m a \<longleftrightarrow>
     run_call env t p c m = Inl out_of_memory
     \<or> (\<exists>e. run_call env t p c m = Inl e \<and> list_call t c (elems a) = Inl e)
     \<or> (\<exists>m' a'. run_call env t p c m = Inr m' \<and> updates m a m' a' \<and> list_call t c (elems a) = Inr (elems a'))"

lemma call_refinesI:
  assumes "\<exists>m' a'. f m = Inr ((), m') \<and> updates m a m' a' \<and> elems a' = xs"
    and "run_call env t p c m = bindE (f m) (\<lambda>(u, m'). Inr m')" "list_call t c (elems a) = Inr xs"
  shows "call_refines env t p c m a"
  using assms by (auto simp: call_refines_def)

lemma call_refines_oom: "run_call env t p c m = Inl out_of_memory \<Longrightarrow> call_refines env t p c m a"
  by (simp add: call_refines_def)

lemma push_back_refines:
  assumes "holds m p a" "classifyType t = trivially_copyable" "call_fits env t (Push_back v) (elems a)"
  shows "call_refines env t p (Push_back v) m a"
proof -
  have s: "stores m a" using assms(1) by (simp add: holds_def)
  then have n: "small env t (Suc (unat (a_len a)))" "unat (a_len a) + 1 < 2 ^ 31"
    using assms(3) by (simp_all add: small_def)
  show ?thesis
  proof (cases "a_len a = a_cap a \<and> avail m = 0")
    case True
    then show ?thesis using push_back_fails [OF assms(1) n(2)] by (intro call_refines_oom) (simp add: run_call_def)
  next
    case False
    then have "a_len a = a_cap a \<Longrightarrow> 0 < avail m" by simp
    from push_back_run [OF assms(1,2) small_mono [OF n(1)] n(2) this] show ?thesis
      by (intro call_refinesI) (auto simp: run_call_def)
  qed
qed

lemma pop_back_refines:
  assumes "holds m p a" "classifyType t = trivially_copyable" "call_fits env t Pop_back (elems a)"
  shows "call_refines env t p Pop_back m a"
proof (cases "a_len a = 0")
  case True
  then show ?thesis using pop_back_empty [OF assms(1)] by (simp add: call_refines_def run_call_def elems_def)
next
  case False
  have s: "stores m a" using assms(1) by (simp add: holds_def)
  then have n: "unat (a_len a) < 2 ^ 31" using assms(3) by (simp add: small_def)
  moreover have "elems a \<noteq> []" using s False by (metis length_elems length_0_conv unat_eq_0)
  ultimately show ?thesis using pop_back_run [OF assms(1,2) n False]
    by (intro call_refinesI) (auto simp: run_call_def)
qed

lemma append_refines:
  assumes "holds m p a" "classifyType t = trivially_copyable" "call_fits env t Append_self (elems a)"
  shows "call_refines env t p Append_self m a"
proof -
  have s: "stores m a" using assms(1) by (simp add: holds_def)
  then have n: "small env t (unat (a_len a) + unat (a_len a))" "unat (a_len a) + unat (a_len a) < 2 ^ 31"
    using assms(3) by (simp_all add: small_def)
  have small: "small env t (unat (a_len a))" using small_mono [OF n(1)] by simp
  show ?thesis
  proof (cases "unat (a_cap a) < unat (a_len a) + unat (a_len a) \<and> avail m = 0")
    case True
    then show ?thesis using append_fails [OF assms(1,1) n(2)] by (intro call_refines_oom) (simp add: run_call_def)
  next
    case False
    then have "unat (a_cap a) < unat (a_len a) + unat (a_len a) \<Longrightarrow> 0 < avail m" by simp
    from append_run [OF assms(1,1) _ assms(2) small small n(2) this] show ?thesis
      by (intro call_refinesI) (auto simp: run_call_def)
  qed
qed

lemma resize_refines:
  assumes "holds m p a" "classifyType t = trivially_copyable" "call_fits env t (Resize n) (elems a)"
  shows "call_refines env t p (Resize n) m a"
proof -
  have s: "stores m a" using assms(1) by (simp add: holds_def)
  then have n: "unat (a_len a) < 2 ^ 31" "small env t (unat n)" "unat n < 2 ^ 31"
    using assms(3) by (simp_all add: small_def)
  consider "n \<le> a_len a" | "a_len a < n" "a_cap a < n" "avail m = 0" | "a_len a < n" "a_cap a < n \<Longrightarrow> 0 < avail m"
    by fastforce
  then show ?thesis
  proof cases
    case 1
    then show ?thesis using resize_shrink [OF assms(1,2) n(1) 1] s
      by (intro call_refinesI) (auto simp: run_call_def word_le_nat_alt)
  next
    case 2
    then show ?thesis using resize_fails [OF assms(1) n(3)] by (intro call_refines_oom) (simp add: run_call_def)
  next
    case 3
    then show ?thesis using resize_grow [OF assms(1,2) n(2) 3] s
      by (intro call_refinesI) (auto simp: run_call_def word_less_nat_alt)
  qed
qed

lemma reserve_refines:
  assumes "holds m p a" "classifyType t = trivially_copyable" "call_fits env t (Reserve n) (elems a)"
  shows "call_refines env t p (Reserve n) m a"
proof (cases "a_cap a < n \<and> avail m = 0")
  case True
  then show ?thesis using reserve_fails [OF assms(1)] by (intro call_refines_oom) (simp add: run_call_def)
next
  case False
  have "stores m a" using assms(1) by (simp add: holds_def)
  then show ?thesis using reserve_run [OF assms(1), of t env n "ops_of env t"] assms(2,3) False
    by (intro call_refinesI) (auto simp: run_call_def)
qed

lemmas run_call_refines = push_back_refines pop_back_refines append_refines resize_refines reserve_refines

lemma call_step:
  assumes "holds m p a" "classifyType t = trivially_copyable" "call_fits env t c (elems a)"
  shows "call_refines env t p c m a"
  using assms by (cases c) (auto intro: run_call_refines)

text \<open>The contract holds for the model of the builtin functions, of every builtin type of elements.\<close>

definition array_rel :: "nat \<times> nat list \<Rightarrow> mem \<Rightarrow> rval list \<Rightarrow> bool" where
  "array_rel p m xs \<longleftrightarrow> (\<exists>a. holds m p a \<and> elems a = xs)"

interpretation btn_calls: refining "array_rel p" "run_call env (RBtn b) p" "list_call (RBtn b)" "call_fits env (RBtn b)" out_of_memory
  for p env b
proof
  fix m xs c e
  assume "array_rel p m xs" "call_fits env (RBtn b) c xs" "run_call env (RBtn b) p c m = Inl e"
  then show "e = out_of_memory \<or> list_call (RBtn b) c xs = Inl e"
    using call_step [of m p _ "RBtn b" env c] by (fastforce simp: array_rel_def call_refines_def)
next
  fix m xs c m'
  assume "array_rel p m xs" "call_fits env (RBtn b) c xs" "run_call env (RBtn b) p c m = Inr m'"
  then show "\<exists>xs'. list_call (RBtn b) c xs = Inr xs' \<and> array_rel p m' xs'"
    using call_step [of m p _ "RBtn b" env c] by (fastforce simp: array_rel_def call_refines_def dest: updates_holds)
qed

end
