(* ===== verification/Runtime_Sharing.thy ===== *)
theory Runtime_Sharing
  imports Runtime_Arrays
begin

section \<open>Arrays are shared\<close>

text \<open>
  An array variable is a counted reference to a storage. Assigning one array to another shares the storage
  of the source, and the storage of the destination is freed when that was its last reference.
\<close>

subsection \<open>Counting\<close>

definition with_refs :: "arr \<Rightarrow> 64 word \<Rightarrow> arr" where
  "with_refs a r = a\<lparr>a_refs := r\<rparr>"

definition set_refs :: "arr \<Rightarrow> 64 word \<Rightarrow> mem \<Rightarrow> mem" where
  "set_refs a r m = set_block (a_blk a) (storage (with_refs a r)) m"

lemma with_refs_simps [simp]:
  "footprint (with_refs a r) = footprint a" "elems (with_refs a r) = elems a" "a_blk (with_refs a r) = a_blk a"
  "a_refs (with_refs a r) = r" "a_len (with_refs a r) = a_len a" "a_dat (with_refs a r) = a_dat a"
  "with_refs a (a_refs a) = a" "with_refs (with_refs a r) r' = with_refs a r'"
  by (simp_all add: with_refs_def footprint_def elems_def)

lemma stores_set_refs: "stores m a \<Longrightarrow> stores (set_refs a r m) (with_refs a r)"
  by (auto simp: stores_def set_refs_def with_refs_def block_set_block block_Some_less split: option.splits)

lemma block_set_refs: "b \<notin> footprint a \<Longrightarrow> block (set_refs a r m) b = block m b"
  by (auto simp: set_refs_def footprint_def block_set_block)

lemma count_up:
  fixes r :: "64 word"
  assumes "sint r < 2 ^ 63 - 1"
  shows "nswAdd r 1 m = Inr (r + 1, m)" "sint (r + 1) = sint r + 1"
proof -
  show "sint (r + 1) = sint r + 1"
    using assms sint_ge [of r] by (subst sint_word_add) (simp add: signed_take_bit_int_eq_self)
  then show "nswAdd r 1 m = Inr (r + 1, m)" by (simp add: nswAdd_def nsw_def retS_def)
qed

lemma count_down:
  fixes r :: "64 word"
  assumes "0 < sint r"
  shows "nswSub r 1 m = Inr (r - 1, m)" "sint (r - 1) = sint r - 1"
proof -
  show "sint (r - 1) = sint r - 1"
    using assms sint_less [of r] by (subst sint_word_diff) (simp add: signed_take_bit_int_eq_self)
  then show "nswSub r 1 m = Inr (r - 1, m)" by (simp add: nswSub_def nsw_def retS_def)
qed

lemma store_refs:
  assumes "stores m a"
  shows "createStore (I64 r) (structGEP (self a) 0) m = Inr ((), set_refs a r m)"
  using assms by (simp add: stores_def storage_def set_refs_def with_refs_def run_simps)

lemma ptr_inc_run:
  assumes "stores m a" "sint (a_refs a) < 2 ^ 63 - 1"
  shows "ptr_inc (self a) m = Inr ((), set_refs a (a_refs a + 1) m)"
  by (auto simp: ptr_inc_def refChange_def isNotNull_def load_fields [OF assms(1)] as_run count_up(1) [OF assms(2)]
      store_refs [OF assms(1)])

lemma ptr_dec_shared:
  assumes "stores m a" "1 < sint (a_refs a)"
  shows "ptr_dec dt (self a) m = Inr ((), set_refs a (a_refs a - 1) m)"
proof -
  have "a_refs a - 1 \<noteq> 0" using count_down(2) [of "a_refs a"] assms(2) by (metis (no_types) add_0 diff_gt_0_iff_gt diff_add_cancel not_less_iff_gr_or_eq order_less_trans sint_0 zero_less_one)
  then show ?thesis using count_down(1) [of "a_refs a"] assms(2)
    by (auto simp: ptr_dec_def refChange_def isNotNull_def load_fields [OF assms(1)] as_run store_refs [OF assms(1)])
qed

lemma strg_dtor_run:
  assumes "stores m a" "classifyType t = trivially_copyable"
  shows "arr_strg_dtor t dt (self a) m = Inr ((), (case a_dat a of None \<Rightarrow> m | Some d \<Rightarrow> drop_block d m))"
proof -
  have "callFree (dat_ptr (a_dat a)) m = Inr ((), (case a_dat a of None \<Rightarrow> m | Some d \<Rightarrow> drop_block d m))"
    using assms(1) by (auto simp: stores_def dat_ptr_def callFree_run split: option.splits)
  then show ?thesis
    by (simp add: arr_strg_dtor_def load_fields [OF assms(1)] as_run destroy_n_def assms(2))
qed

text \<open>The last reference frees both blocks.\<close>

definition release :: "arr \<Rightarrow> mem \<Rightarrow> mem" where
  "release a m =
     drop_block (a_blk a) (case a_dat a of None \<Rightarrow> set_refs a 0 m | Some d \<Rightarrow> drop_block d (set_refs a 0 m))"

lemma block_release: "block (release a m) b = (if b \<in> footprint a then None else block m b)"
  by (auto simp: release_def footprint_def block_drop_block set_refs_def block_set_block split: option.splits)

lemma ptr_dec_last:
  assumes "stores m a" "a_refs a = 1" "classifyType t = trivially_copyable"
  shows "ptr_dec (arr_strg_dtor t dt) (self a) m = Inr ((), release a m)"
proof -
  have s: "stores (set_refs a 0 m) (with_refs a 0)" using stores_set_refs [OF assms(1)] .
  have "\<exists>u. block (case a_dat a of None \<Rightarrow> set_refs a 0 m | Some d \<Rightarrow> drop_block d (set_refs a 0 m)) (a_blk a) = Some u"
    using s by (auto simp: stores_def block_drop_block split: option.splits)
  then have "callFree (self a) (case a_dat a of None \<Rightarrow> set_refs a 0 m | Some d \<Rightarrow> drop_block d (set_refs a 0 m))
      = Inr ((), release a m)"
    by (auto simp: callFree_run release_def)
  then show ?thesis
    using strg_dtor_run [OF s assms(3), of dt] count_down(1) [of "1 :: 64 word" m] assms(2)
    by (auto simp: ptr_dec_def refChange_def isNotNull_def load_fields [OF assms(1)] as_run store_refs [OF assms(1)])
qed

subsection \<open>Writing a variable\<close>

lemma put_path_at: "at_path u q = Some v \<Longrightarrow> \<exists>u'. put_path u q w = Some u' \<and> at_path u' q = Some w"
proof (induction u q rule: at_path.induct)
  case (2 vs i q)
  then show ?case by (auto split: if_splits)
qed auto

lemma put_path_other:
  assumes "at_path u q = Some (Ptr x)" "at_path u r = Some (Ptr y)" "q \<noteq> r" "put_path u q w = Some u'"
  shows "at_path u' r = Some (Ptr y)"
  using assms
proof (induction u q arbitrary: r u' rule: at_path.induct)
  case (1 v)
  then show ?case by (cases r) auto
next
  case (2 vs i q)
  show ?case
  proof (cases r)
    case Nil
    then show ?thesis using 2 by simp
  next
    case (Cons j r')
    then show ?thesis using 2 by (auto split: if_splits simp: nth_list_update)
  qed
qed auto


definition put :: "nat \<times> nat list \<Rightarrow> rval \<Rightarrow> mem \<Rightarrow> mem" where
  "put p v m = (case Option.bind (block m (fst p)) (\<lambda>u. put_path u (snd p) v) of
     None \<Rightarrow> m | Some u \<Rightarrow> set_block (fst p) u m)"

lemma put_steps:
  assumes "peek m p = Some v"
  shows "createStore w (Ptr (Some p)) m = Inr ((), put p w m)" "peek (put p w m) p = Some w"
    "b \<noteq> fst p \<Longrightarrow> block (put p w m) b = block m b"
proof -
  obtain u where u: "block m (fst p) = Some u" "at_path u (snd p) = Some v"
    using assms by (cases "block m (fst p)") (auto simp: peek_def)
  then obtain u' where u': "put_path u (snd p) w = Some u'" "at_path u' (snd p) = Some w"
    using put_path_at by blast
  show "createStore w (Ptr (Some p)) m = Inr ((), put p w m)"
    using u u' by (cases p) (simp add: createStore_run put_def)
  show "peek (put p w m) p = Some w"
    using u u' by (simp add: peek_def put_def block_set_block block_Some_less)
  show "b \<noteq> fst p \<Longrightarrow> block (put p w m) b = block m b"
    using u u' by (simp add: put_def block_set_block)
qed

lemma put_other:
  assumes "peek m p = Some (Ptr x)" "peek m q = Some (Ptr y)" "p \<noteq> q"
  shows "peek (put p w m) q = Some (Ptr y)"
proof (cases "fst p = fst q")
  case True
  obtain u where u: "block m (fst p) = Some u" "at_path u (snd p) = Some (Ptr x)"
    using assms(1) by (cases "block m (fst p)") (auto simp: peek_def)
  then obtain u' where u': "put_path u (snd p) w = Some u'" using put_path_at by blast
  have "at_path u' (snd q) = Some (Ptr y)"
    using put_path_other [OF u(2) _ _ u'] assms(2,3) True u(1) by (auto simp: peek_def prod_eq_iff)
  then show ?thesis using True u u' by (simp add: peek_def put_def block_set_block block_Some_less)
next
  case False
  then show ?thesis using put_steps(3) [OF assms(1), of "fst q"] assms(2) by (simp add: peek_def)
qed

lemma stores_put: "stores m a \<Longrightarrow> peek m p = Some v \<Longrightarrow> fst p \<notin> footprint a \<Longrightarrow> stores (put p w m) a"
  by (rule stores_frame, assumption) (metis put_steps(3))

subsection \<open>Assignment\<close>

lemma cop_asgn_run:
  assumes "peek m p = Some (self a)" "peek m q = Some (self c)" "ptr_inc (self c) m = Inr ((), m1)"
    "ptr_dec dt (self a) m1 = Inr ((), m2)" "peek m2 p = Some v"
  shows "ptr_cop_asgn dt (Ptr (Some p)) (Ptr (Some q)) m = Inr ((), put p (self c) m2)"
  using assms put_steps(1) [OF assms(5)] by (simp add: ptr_cop_asgn_def peek_load)

lemma put_path_same: "at_path u q = Some v \<Longrightarrow> put_path u q v = Some u"
proof (induction u q rule: at_path.induct)
  case (2 vs i q)
  then show ?case by (auto split: if_splits)
qed auto

lemma put_same: "peek m p = Some v \<Longrightarrow> put p v m = m"
  by (cases "block m (fst p)") (auto simp: peek_def put_def put_path_same set_block_same)

lemma set_refs_simps:
  "set_refs (with_refs a r) r' m = set_refs a r' m" "set_refs a r' (set_refs a r m) = set_refs a r' m"
  by (simp_all add: set_refs_def)

lemma set_refs_same: "stores m a \<Longrightarrow> set_refs a (a_refs a) m = m"
  by (simp add: set_refs_def stores_def set_block_same)

lemma self_assign:
  assumes "holds m p a" "holds m q a" "0 < sint (a_refs a)" "sint (a_refs a) < 2 ^ 63 - 1"
  shows "arr_cop_asgn t dt (Ptr (Some p)) (Ptr (Some q)) m = Inr ((), m)"
proof -
  let ?a = "with_refs a (a_refs a + 1)"
  have h: "stores m a" "peek m p = Some (self a)" "peek m q = Some (self a)" using assms(1,2) by (simp_all add: holds_def)
  have "stores (set_refs a (a_refs a + 1) m) ?a" by (rule stores_set_refs [OF h(1)])
  from ptr_dec_shared [OF this, of "arr_strg_dtor t dt"] count_up(2) [OF assms(4)] assms(3)
  have "ptr_dec (arr_strg_dtor t dt) (self a) (set_refs a (a_refs a + 1) m) = Inr ((), m)"
    by (simp add: set_refs_simps set_refs_same [OF h(1)])
  from cop_asgn_run [OF h(2,3) ptr_inc_run [OF h(1) assms(4)] this h(2)] show ?thesis
    by (simp add: arr_cop_asgn_def put_same [OF h(2)])
qed

lemma holds_frame:
  assumes "holds m p a" "\<And>b. b \<in> footprint a \<Longrightarrow> block m' b = block m b" "block m' (fst p) = block m (fst p)"
  shows "holds m' p a"
  using assms stores_frame [of m a m'] by (simp add: holds_def peek_def)

lemma holds_set_refs: "holds m p a \<Longrightarrow> holds (set_refs a r m) p (with_refs a r)"
  by (auto simp: holds_def stores_set_refs peek_def block_set_refs)

text \<open>
  The variables \<open>p\<close> and \<open>q\<close> hold different arrays. After the assignment both hold the array of \<open>q\<close>, which has one
  more reference; the other array has one less, or is freed.
\<close>

lemma dec_frame:
  assumes "stores m a" "0 < sint (a_refs a)" "classifyType t = trivially_copyable"
  shows "\<exists>m'. ptr_dec (arr_strg_dtor t dt) (self a) m = Inr ((), m') \<and> (\<forall>b. b \<notin> footprint a \<longrightarrow> block m' b = block m b)
    \<and> (if a_refs a = 1 then \<forall>b \<in> footprint a. block m' b = None else stores m' (with_refs a (a_refs a - 1)))"
proof (cases "a_refs a = 1")
  case True
  then show ?thesis using ptr_dec_last [OF assms(1) True assms(3), of dt] by (auto simp: block_release)
next
  case False
  moreover have "sint (a_refs a) \<noteq> 1" 
    using False signed_word_eqI [of "a_refs a" 1, where ?'a = int] by auto
  ultimately have "1 < sint (a_refs a)" using assms(2) by linarith
  from ptr_dec_shared [OF assms(1) this] False show ?thesis
    by (auto simp: block_set_refs stores_set_refs [OF assms(1)])
qed

lemma assign_run:
  assumes "holds m p a" "holds m q c" "footprint c \<inter> footprint a = {}" "fst p \<notin> footprint c" "fst q \<notin> footprint a"
    and "classifyType t = trivially_copyable" "0 < sint (a_refs a)" "sint (a_refs c) < 2 ^ 63 - 1"
  shows "\<exists>m'. arr_cop_asgn t dt (Ptr (Some p)) (Ptr (Some q)) m = Inr ((), m')
    \<and> holds m' p (with_refs c (a_refs c + 1)) \<and> holds m' q (with_refs c (a_refs c + 1))
    \<and> (if a_refs a = 1 then \<forall>b \<in> footprint a. block m' b = None else stores m' (with_refs a (a_refs a - 1)))"
proof -
  let ?c = "with_refs c (a_refs c + 1)"
  let ?m1 = "set_refs c (a_refs c + 1) m"
  have h: "stores m a" "peek m p = Some (self a)" "stores m c" "peek m q = Some (self c)" "fst p \<notin> footprint a"
    using assms(1,2) by (simp_all add: holds_def)
  have s1: "stores ?m1 a" using assms(3) by (intro stores_frame [OF h(1)] block_set_refs) auto
  have c1: "holds ?m1 q ?c" using holds_set_refs [OF assms(2)] .
  have p1: "peek ?m1 p = Some (self a)" using h(2) assms(4) by (simp add: peek_def block_set_refs)
  obtain m2 where m2: "ptr_dec (arr_strg_dtor t dt) (self a) ?m1 = Inr ((), m2)"
      "\<And>b. b \<notin> footprint a \<Longrightarrow> block m2 b = block ?m1 b"
      "if a_refs a = 1 then \<forall>b \<in> footprint a. block m2 b = None else stores m2 (with_refs a (a_refs a - 1))"
    using dec_frame [OF s1 assms(7,6), of dt] by auto
  have c2: "holds m2 q ?c" using m2(2) assms(3,5) by (intro holds_frame [OF c1]) auto
  have p2: "peek m2 p = Some (self a)" using p1 m2(2) h(5) by (simp add: peek_def)
  have run: "arr_cop_asgn t dt (Ptr (Some p)) (Ptr (Some q)) m = Inr ((), put p (self c) m2)"
    using cop_asgn_run [OF h(2,4) ptr_inc_run [OF h(3) assms(8)] m2(1) p2] by (simp add: arr_cop_asgn_def)
  have s3: "stores (put p (self c) m2) ?c" using c2 p2 assms(4) by (auto simp: holds_def intro: stores_put)
  have "p \<noteq> q" using h(2,4) assms(3) by (auto simp: footprint_def)
  then have "holds (put p (self c) m2) q ?c"
    using put_other [OF p2 _ \<open>p \<noteq> q\<close>] c2 s3 by (simp add: holds_def)
  moreover have "holds (put p (self c) m2) p ?c"
    using put_steps(2) [OF p2] s3 assms(4) by (simp add: holds_def)
  moreover have "if a_refs a = 1 then \<forall>b \<in> footprint a. block (put p (self c) m2) b = None
      else stores (put p (self c) m2) (with_refs a (a_refs a - 1))"
  proof -
    have "block (put p (self c) m2) b = block m2 b" if "b \<in> footprint a" for b
      using that h(5) by (intro put_steps(3) [OF p2]) blast
    then show ?thesis using m2(3) h(5) stores_put [OF _ p2, of "with_refs a (a_refs a - 1)"] by (simp split: if_splits)
  qed
  ultimately show ?thesis using run by blast
qed


subsection \<open>Closures\<close>

text \<open>The fields of a closure at \<open>p\<close>.\<close>

definition closure_at :: "mem \<Rightarrow> nat \<times> nat list \<Rightarrow> nat \<Rightarrow> (nat \<times> nat list) option \<Rightarrow> bool" where
  "closure_at m p f dat \<longleftrightarrow> peek m p = Some (Agg [Fn f, Ptr dat])"

lemma at_path_append: "at_path u (q @ r) = Option.bind (at_path u q) (\<lambda>v. at_path v r)"
  by (induction u q rule: at_path.induct) auto

lemma put_path_append:
  "at_path u q = Some v \<Longrightarrow> put_path u (q @ r) w = Option.bind (put_path v r w) (put_path u q)"
proof (induction u q rule: at_path.induct)
  case (2 vs i q)
  then show ?case by (cases "put_path v r w") (auto split: if_splits)
qed (auto split: bind_splits)


lemma field_peek:
  assumes "peek m p = Some (Agg vs)" "i < length vs"
  shows "createLoad (structGEP (Ptr (Some p)) i) m = Inr (vs ! i, m)"
  using assms by (cases p; cases "block m (fst p)")
    (auto simp: structGEP_def createLoad_run at_path_append peek_def split: bind_splits)

lemma field_poke:
  assumes "peek m p = Some (Agg vs)" "i < length vs"
  shows "createStore w (structGEP (Ptr (Some p)) i) m = Inr ((), put p (Agg (vs[i := w])) m)"
proof -
  obtain u where u: "block m (fst p) = Some u" "at_path u (snd p) = Some (Agg vs)"
    using assms(1) by (cases "block m (fst p)") (auto simp: peek_def)
  then obtain u' where "put_path u (snd p) (Agg (vs[i := w])) = Some u'" using put_path_at by blast
  then show ?thesis using u assms(2)
    by (cases p) (simp add: structGEP_def createStore_run put_def put_path_append)
qed

lemma clo_asgn_run:
  assumes "closure_at m p f None" "closure_at m q g d"
  shows "\<exists>m'. cloAsgn env asgn (Ptr (Some p)) (Ptr (Some q)) m = Inr ((), m') \<and> closure_at m' p g None"
proof -
  let ?m = "put p (Agg [Fn g, Ptr None]) m"
  have p: "peek m p = Some (Agg [Fn f, Ptr None])" "peek m q = Some (Agg [Fn g, Ptr d])"
    using assms by (simp_all add: closure_at_def)
  have p': "peek ?m p = Some (Agg [Fn g, Ptr None])" using put_steps(2) [OF p(1)] .
  have "cloAsgn env asgn (Ptr (Some p)) (Ptr (Some q)) m = Inr ((), ?m)"
    using field_peek [OF p(2), of 0] field_poke [OF p(1), of 0 "Fn g"] field_peek [OF p', of 1]
    by (auto simp: cloAsgn_def assignFun_def loadStructElem_def isNotNull_def)
  then show ?thesis using p' by (auto simp: closure_at_def)
qed

end
