(* ===== verification/Runtime_Compare.thy ===== *)
theory Runtime_Compare
  imports Runtime_Arrays
begin

section \<open>Comparing arrays\<close>

text \<open>
  Comparing two arrays of a builtin integer type is comparing the lists of their numbers: equality, and the
  lexicographic order. The comparisons of real numbers that the generator derives from \<^verbatim>\<open><\<close> are not those of
  the IEEE standard when a number is not a number.
\<close>

subsection \<open>Numbers\<close>

definition int_key :: "BtnTypeEnum \<Rightarrow> rval \<Rightarrow> int option" where
  "int_key b v =
     (case (b, v) of
        (Sint, I32 w) \<Rightarrow> Some (sint w) | (Uint, I32 w) \<Rightarrow> Some (uint w)
      | (Char, I8 w) \<Rightarrow> Some (sint w) | (Byte, I8 w) \<Rightarrow> Some (uint w)
      | (Bool, I1 x) \<Rightarrow> Some (of_bool x)
      | _ \<Rightarrow> None)"

lemma icmp_run:
  assumes "int_key b v = Some k" "int_key b w = Some l"
  shows "icmpEQ v w m = Inr (k = l, m)"
    and "(case classifyArith b of Inr signed_int \<Rightarrow> icmpSLT v w | _ \<Rightarrow> icmpULT v w) m = Inr (k < l, m)"
    and "\<exists>c. classifyArith b = Inr c \<and> c \<noteq> floating_point"
  using assms
  by (auto simp: int_key_def icmpEQ_def icmpSLT_def icmpULT_def classifyArith_def retS_run word_sless_alt word_less_def
      of_bool_def split: BtnTypeEnum.splits if_splits rval.splits intro: signed_word_eqI unsigned_word_eqI)

lemma btn_compare_run:
  assumes "createLoad p m = Inr (v, m)" "createLoad q m = Inr (w, m)" "int_key b v = Some k" "int_key b w = Some l"
  shows "btn_eq b (p, lvalue) (q, lvalue) m = Inr (k = l, m)"
    and "btn_lt b (p, lvalue) (q, lvalue) m = Inr (k < l, m)"
proof -
  obtain c where c: "classifyArith b = Inr c" "c \<noteq> floating_point" using icmp_run(3) [OF assms(3,4)] by blast
  show "btn_eq b (p, lvalue) (q, lvalue) m = Inr (k = l, m)"
    using c assms icmp_run(1) [OF assms(3,4)] by (auto simp: btn_eq_def bindS_run liftE_def getBtnValue_def)
  show "btn_lt b (p, lvalue) (q, lvalue) m = Inr (k < l, m)"
    using c assms icmp_run(2) [OF assms(3,4)]
    by (cases c) (auto simp: btn_lt_def bindS_run liftE_def getBtnValue_def)
qed

subsection \<open>The loops\<close>

text \<open>The pointer to an element.\<close>

definition elem_ptr :: "arr \<Rightarrow> nat \<Rightarrow> rval" where
  "elem_ptr a i = indexGEP (dat_ptr (a_dat a)) i"

lemma elem_ptr_0: "elem_ptr a 0 = dat_ptr (a_dat a)"
  by (cases "a_dat a") (simp_all add: elem_ptr_def dat_ptr_def indexGEP_def)

lemma elem_ptr_Suc:
  assumes "stores m a" "i < unat (a_len a)"
  shows "indexGEP (elem_ptr a i) 1 = elem_ptr a (Suc i)"
proof -
  have "a_dat a \<noteq> None" using dat_null [OF assms(1)] assms(2) by (metis not_less_zero unat_0)
  then show ?thesis by (auto simp: elem_ptr_def dat_ptr_def indexGEP_run)
qed

lemma elem_ptr_eq:
  assumes "stores m a" "i \<le> unat (a_len a)"
  shows "elem_ptr a i = elem_ptr a (unat (a_len a)) \<longleftrightarrow> i = unat (a_len a)"
proof (cases "a_dat a")
  case None
  then show ?thesis using dat_null [OF assms(1)] assms(2) by auto
next
  case (Some d)
  then show ?thesis by (auto simp: elem_ptr_def dat_ptr_def indexGEP_run)
qed

lemma elem_load:
  assumes "stores m a" "i < unat (a_len a)"
  shows "createLoad (elem_ptr a i) m = Inr (elems a ! i, m)"
proof -
  have "unat (of_nat i :: 32 word) = i"
    using assms(2) unsigned_less [of "a_len a", where ?'a = nat] by (simp add: unat_of_nat take_bit_nat_eq_self)
  then show ?thesis using load_elem [OF assms(1), of "of_nat i"] assms(2) by (simp add: elem_ptr_def arrayIndex_def)
qed

lemma arr_eq_loop_run:
  assumes "stores m a" "stores m c" "a_len a = a_len c" "i \<le> unat (a_len c)"
    and "\<And>j. j < unat (a_len c) \<Longrightarrow> elem_eq (elem_ptr a j) (elem_ptr c j) m = Inr (ks ! j = ls ! j, m)"
    and "length ks = unat (a_len c)" "length ls = unat (a_len c)"
  shows "arr_eq_loop elem_eq (Suc (unat (a_len c) - i)) (elem_ptr a i) (elem_ptr c i) (elem_ptr c (unat (a_len c))) m
    = Inr (drop i ks = drop i ls, m)"
  using assms(4)
proof (induction "unat (a_len c) - i" arbitrary: i)
  case 0
  then show ?case using assms(6,7) by (simp add: retS_run)
next
  case (Suc k)
  then have i: "i < unat (a_len c)" by simp
  have ne: "elem_ptr c i \<noteq> elem_ptr c (unat (a_len c))" using elem_ptr_eq [OF assms(2), of i] i by simp
  have "k = unat (a_len c) - Suc i" using Suc.hyps(2) by simp
  from Suc.hyps(1) [OF this] i
  have IH: "arr_eq_loop elem_eq (Suc (unat (a_len c) - Suc i)) (elem_ptr a (Suc i)) (elem_ptr c (Suc i))
      (elem_ptr c (unat (a_len c))) m = Inr (drop (Suc i) ks = drop (Suc i) ls, m)" by simp
  have "drop i ks = drop i ls \<longleftrightarrow> ks ! i = ls ! i \<and> drop (Suc i) ks = drop (Suc i) ls"
    using i assms(6,7) by (metis Cons_nth_drop_Suc list.inject)
  moreover have "Suc (unat (a_len c) - i) = Suc (Suc (unat (a_len c) - Suc i))" using i by simp
  ultimately show ?case
    using ne IH assms(5) [OF i] elem_ptr_Suc [OF assms(2) i] elem_ptr_Suc [OF assms(1), of i] i assms(3)
    by (simp add: bindS_run retS_run)
qed

lemma arr_lt_loop_run:
  fixes ks ls :: "'k :: linorder list"
  assumes "stores m a" "stores m c" "i \<le> unat (a_len c)" "i \<le> unat (a_len a)"
    and "\<And>j. j < unat (a_len a) \<Longrightarrow> j < unat (a_len c) \<Longrightarrow> elem_lt (elem_ptr a j) (elem_ptr c j) m = Inr (ks ! j < ls ! j, m)"
    and "\<And>j. j < unat (a_len a) \<Longrightarrow> j < unat (a_len c) \<Longrightarrow> elem_lt (elem_ptr c j) (elem_ptr a j) m = Inr (ls ! j < ks ! j, m)"
    and "length ks = unat (a_len a)" "length ls = unat (a_len c)"
  shows "arr_lt_loop elem_lt (Suc (unat (a_len c) - i)) (elem_ptr a i) (elem_ptr c i) (elem_ptr a (unat (a_len a)))
    (elem_ptr c (unat (a_len c))) m = Inr ((drop i ks, drop i ls) \<in> lexord {(x, y). x < y}, m)"
  using assms(3,4)
proof (induction "unat (a_len c) - i" arbitrary: i)
  case 0
  then show ?case using assms(8) by (simp add: retS_run)
next
  case (Suc k)
  then have i: "i < unat (a_len c)" by simp
  then have ls: "drop i ls = ls ! i # drop (Suc i) ls" using assms(8) by (simp add: Cons_nth_drop_Suc)
  have ne: "elem_ptr c i \<noteq> elem_ptr c (unat (a_len c))" using elem_ptr_eq [OF assms(2), of i] i by simp
  show ?case
  proof (cases "i = unat (a_len a)")
    case True
    then show ?thesis using ne ls assms(7) by (simp add: retS_run)
  next
    case False
    then have ia: "i < unat (a_len a)" using Suc.prems(2) by simp
    then have ks: "drop i ks = ks ! i # drop (Suc i) ks" using assms(7) by (simp add: Cons_nth_drop_Suc)
    have na: "elem_ptr a i \<noteq> elem_ptr a (unat (a_len a))" using elem_ptr_eq [OF assms(1), of i] ia by simp
    have "k = unat (a_len c) - Suc i" using Suc.hyps(2) by simp
    from Suc.hyps(1) [OF this] i ia
    have IH: "arr_lt_loop elem_lt (Suc (unat (a_len c) - Suc i)) (elem_ptr a (Suc i)) (elem_ptr c (Suc i))
        (elem_ptr a (unat (a_len a))) (elem_ptr c (unat (a_len c))) m
        = Inr ((drop (Suc i) ks, drop (Suc i) ls) \<in> lexord {(x, y). x < y}, m)" by simp
    have "Suc (unat (a_len c) - i) = Suc (Suc (unat (a_len c) - Suc i))" using i by simp
    then show ?thesis
      using ne na IH assms(5,6) [OF ia i] elem_ptr_Suc [OF assms(2) i] elem_ptr_Suc [OF assms(1) ia] ks ls
      by (auto simp: bindS_run retS_run)
  qed
qed


subsection \<open>Arrays\<close>

lemma keys_nth:
  assumes "map (int_key b) (elems a) = map Some ks" "j < length ks"
  shows "int_key b (elems a ! j) = Some (ks ! j)"
proof -
  have "length (elems a) = length ks" using assms(1) by (metis length_map)
  then have "map (int_key b) (elems a) ! j = int_key b (elems a ! j)" using assms(2) by simp
  then show ?thesis using assms by simp
qed

lemma compare_array_run:
  assumes "holds m p a" "holds m q c"
    and "map (int_key b) (elems a) = map Some ks" "map (int_key b) (elems c) = map Some ls"
  shows "compare_eq env (RArray (RBtn b)) (Ptr (Some p), lvalue) (Ptr (Some q), lvalue) m = Inr (ks = ls, m)"
    and "compare_lt env (RArray (RBtn b)) (Ptr (Some p), lvalue) (Ptr (Some q), lvalue) m
      = Inr ((ks, ls) \<in> lexord {(x, y). x < y}, m)"
proof -
  have s: "stores m a" "stores m c" using assms(1,2) by (simp_all add: holds_def)
  have len: "length ks = unat (a_len a)" "length ls = unat (a_len c)"
    using s assms(3,4) by (metis length_elems length_map)+
  note cmp = btn_compare_run [OF elem_load [OF s(1)] elem_load [OF s(2)] keys_nth [OF assms(3)] keys_nth [OF assms(4)]]
    btn_compare_run [OF elem_load [OF s(2)] elem_load [OF s(1)] keys_nth [OF assms(4)] keys_nth [OF assms(3)]]
  have ends: "arrayIndex (dat_ptr (a_dat x)) (a_len x) = elem_ptr x (unat (a_len x))" for x
    by (simp add: elem_ptr_def arrayIndex_def)
  note run = holds_load [OF assms(1)] holds_load [OF assms(2)] load_fields [OF s(1)] load_fields [OF s(2)] as_run ends
  show "compare_eq env (RArray (RBtn b)) (Ptr (Some p), lvalue) (Ptr (Some q), lvalue) m = Inr (ks = ls, m)"
  proof (cases "a_len a = a_len c")
    case True
    have "arr_eq_loop (\<lambda>l r. btn_eq b (l, lvalue) (r, lvalue)) (Suc (unat (a_len c) - 0)) (elem_ptr a 0) (elem_ptr c 0)
        (elem_ptr c (unat (a_len c))) m = Inr (drop 0 ks = drop 0 ls, m)"
      by (rule arr_eq_loop_run [OF s True]) (use True len cmp(1) in auto)
    then show ?thesis using True by (simp add: arr_eq_def bindS_run run elem_ptr_0 del: arr_eq_loop.simps)
  next
    case False
    then have "ks \<noteq> ls" using len by (metis word_unat_eq_iff)
    then show ?thesis using False by (simp add: arr_eq_def bindS_run run retS_run)
  qed
  have "arr_lt_loop (\<lambda>l r. btn_lt b (l, lvalue) (r, lvalue)) (Suc (unat (a_len c) - 0)) (elem_ptr a 0) (elem_ptr c 0)
      (elem_ptr a (unat (a_len a))) (elem_ptr c (unat (a_len c))) m
      = Inr ((drop 0 ks, drop 0 ls) \<in> lexord {(x, y). x < y}, m)"
    by (rule arr_lt_loop_run [OF s]) (use len cmp(2,4) in auto)
  then show "compare_lt env (RArray (RBtn b)) (Ptr (Some p), lvalue) (Ptr (Some q), lvalue) m
      = Inr ((ks, ls) \<in> lexord {(x, y). x < y}, m)"
    by (simp add: arr_lt_def bindS_run run elem_ptr_0 del: arr_lt_loop.simps)
qed

lemma real_compare_nan:
  assumes "is_nan x \<or> is_nan y"
  shows "compare_lt env (RBtn Real) (F32 x, prvalue) (F32 y, prvalue) m = Inr (False, m)"
    "compare_lt env (RBtn Real) (F32 y, prvalue) (F32 x, prvalue) m = Inr (False, m)"
    "compare_eq env (RBtn Real) (F32 x, prvalue) (F32 y, prvalue) m = Inr (False, m)"
  using assms by (auto simp: btn_lt_def btn_eq_def bindS_run liftE_def classifyArith_def getBtnValue_def retS_run fcmp_def
      fcmpOLT_def fcmpOEQ_def)

end
