(* ===== verification/Runtime_Safety.thy ===== *)
theory Runtime_Safety
  imports Runtime_Contract Runtime_Sharing Runtime_Compare
begin

section \<open>What the run time library promises\<close>

text \<open>The properties of the functions that the code generator writes, with examples.\<close>

subsection \<open>A memory\<close>

text \<open>Two variables, an empty array and an array of two numbers.\<close>

definition env0 :: rt_env where
  "env0 = \<lparr>host = (\<lambda>f args. failS bad_access), vdtor = (\<lambda>f p. failS bad_access), stub_of = (\<lambda>t. 0), tsize = (\<lambda>t. 4)\<rparr>"

definition empty0 :: arr where
  "empty0 = \<lparr>a_blk = 1, a_refs = 1, a_cap = 0, a_len = 0, a_dat = None, a_slots = []\<rparr>"

definition pair0 :: arr where
  "pair0 = \<lparr>a_blk = 2, a_refs = 2, a_cap = 2, a_len = 2, a_dat = Some 3, a_slots = [I32 7, I32 9]\<rparr>"

definition mem0 :: mem where
  "mem0 =
     \<lparr>blocks = [Some (Agg [Ptr (Some (1, [0])), Ptr (Some (2, [0]))]), Some (storage empty0), Some (storage pair0),
        Some (Agg [I32 7, I32 9])], avail = 8\<rparr>"

lemma mem0_holds: "holds mem0 (0, [0]) empty0" "holds mem0 (0, [1]) pair0"
  by (simp_all add: holds_def stores_def peek_def footprint_def mem0_def empty0_def pair0_def block_def)

lemma small0: "small env0 t n \<longleftrightarrow> n * 4 < 2 ^ 31"
  by (auto simp: small_def env0_def)

subsection \<open>Arrays\<close>

text \<open>
  C10: a program of calls of \<^verbatim>\<open>push_back\<close>, \<^verbatim>\<open>pop_back\<close>, \<^verbatim>\<open>append\<close> of the array to itself, \<^verbatim>\<open>resize\<close> and \<^verbatim>\<open>reserve\<close> on an array of values of a builtin
  type does what it does on a list, while the bytes of the elements can be counted in 31 bits: it
  returns with the array that holds the list, panics when the list is empty and an element is popped, or
  panics because memory has run out. It never reads or writes outside of the elements.
\<close>

theorem array_calls_refine:
  assumes "holds m p a" "all_ok (list_call (RBtn b)) (call_fits env (RBtn b)) cs (elems a)"
  shows "case steps (run_call env (RBtn b) p) cs m of
      Inl e \<Rightarrow> e = out_of_memory \<or> steps (list_call (RBtn b)) cs (elems a) = Inl e
    | Inr m' \<Rightarrow> \<exists>a'. holds m' p a' \<and> steps (list_call (RBtn b)) cs (elems a) = Inr (elems a')"
proof -
  have rel: "array_rel p m (elems a)" using assms(1) by (auto simp: array_rel_def)
  show ?thesis
  proof (cases "steps (run_call env (RBtn b) p) cs m")
    case (Inl e)
    then show ?thesis using btn_calls.program_fails [OF rel assms(2)] by simp
  next
    case (Inr m')
    then show ?thesis using btn_calls.program_returns [OF rel assms(2) Inr] by (auto simp: array_rel_def)
  qed
qed

theorem array_calls_refine_witness:
  "\<exists>cs. all_ok (list_call (RBtn Sint)) (call_fits env0 (RBtn Sint)) cs (elems empty0)
    \<and> steps (list_call (RBtn Sint)) cs (elems empty0) = Inr [I32 1, I32 2, I32 1, I32 0, I32 0]
    \<and> (case steps (run_call env0 (RBtn Sint) (0, [0])) cs mem0 of
        Inl e \<Rightarrow> e = out_of_memory
      | Inr m' \<Rightarrow> \<exists>a'. holds m' (0, [0]) a' \<and> elems a' = [I32 1, I32 2, I32 1, I32 0, I32 0])"
proof (intro exI conjI)
  let ?cs = "[Push_back (I32 1), Push_back (I32 2), Append_self, Pop_back, Reserve 9, Resize 5]"
  show fits: "all_ok (list_call (RBtn Sint)) (call_fits env0 (RBtn Sint)) ?cs (elems empty0)"
    by (simp add: small0 elems_def empty0_def)
  show run: "steps (list_call (RBtn Sint)) ?cs (elems empty0) = Inr [I32 1, I32 2, I32 1, I32 0, I32 0]"
    by (simp add: elems_def empty0_def) (simp add: numeral_eq_Suc)
  show "case steps (run_call env0 (RBtn Sint) (0, [0])) ?cs mem0 of
        Inl e \<Rightarrow> e = out_of_memory
      | Inr m' \<Rightarrow> \<exists>a'. holds m' (0, [0]) a' \<and> elems a' = [I32 1, I32 2, I32 1, I32 0, I32 0]"
    using array_calls_refine [OF mem0_holds(1) fits] unfolding run by (auto split: sum.splits)
qed

text \<open>
  C27: \<^verbatim>\<open>append\<close> puts copies of the elements of one array behind those of another, which may be the same array:
  there is room for them or new memory for all. The arrays that share no block with it are untouched.
\<close>

theorem append_concatenates:
  assumes "holds m p a" "holds m q c" "c = a \<or> footprint c \<inter> footprint a = {}" "classifyType t = trivially_copyable"
    and "small env t (unat (a_len a) + unat (a_len c))"
    and "unat (a_cap a) < unat (a_len a) + unat (a_len c) \<Longrightarrow> 0 < avail m"
  shows "\<exists>m' a'. btn_append env t (ops_of env t) (Ptr (Some p)) (Ptr (Some q)) m = Inr ((), m') \<and> holds m' p a'
    \<and> elems a' = elems a @ elems c \<and> (\<forall>d. stores m d \<longrightarrow> footprint d \<inter> footprint a = {} \<longrightarrow> stores m' d)"
proof -
  have "small env t (unat (a_len a))" "small env t (unat (a_len c))" "unat (a_len a) + unat (a_len c) < 2 ^ 31"
    using small_mono [OF assms(5)] assms(5) by (simp_all add: small_def)
  from append_run [OF assms(1-4) this assms(6), of "ops_of env t"] show ?thesis
    using updates_holds [OF _ assms(1)] updates_other(1) by metis
qed

theorem append_concatenates_witness:
  "\<exists>m' a'. btn_append env0 (RBtn Sint) (ops_of env0 (RBtn Sint)) (Ptr (Some (0, [1]))) (Ptr (Some (0, [1]))) mem0 = Inr ((), m')
    \<and> holds m' (0, [1]) a' \<and> elems a' = [I32 7, I32 9, I32 7, I32 9] \<and> stores m' empty0"
proof -
  have "0 < avail mem0" "small env0 (RBtn Sint) (unat (a_len pair0) + unat (a_len pair0))"
    "classifyType (RBtn Sint) = trivially_copyable" "stores mem0 empty0" "footprint empty0 \<inter> footprint pair0 = {}"
    "elems pair0 = [I32 7, I32 9]"
    using mem0_holds(1) by (auto simp: mem0_def small0 pair0_def empty0_def footprint_def elems_def holds_def)
  then show ?thesis
    using append_concatenates [OF mem0_holds(2,2), of "RBtn Sint" env0] by fastforce
qed

text \<open>
  C13: indexing with a signed or an unsigned number gives the address of that element, or panics when there is
  no such element; an array has less than 2 to the power of 31 elements.
\<close>

theorem array_index_safe:
  assumes "holds m p a" "unat (a_len a) < 2 ^ 31" "idx = arr_idx_s \<or> idx = arr_idx_u"
  shows "if unat i < length (elems a)
    then \<exists>q. idx (Ptr (Some p)) i m = Inr (q, m) \<and> createLoad q m = Inr (elems a ! unat i, m)
    else idx (Ptr (Some p)) i m = Inl (panicked ''Index out of bounds'')"
proof -
  have s: "stores m a" using assms(1) by (simp add: holds_def)
  have "idx (Ptr (Some p)) i m = (if unat i < unat (a_len a) then Inr (arrayIndex (dat_ptr (a_dat a)) i, m)
      else Inl (panicked ''Index out of bounds''))"
    using assms(3) generateArrayIdx_run [OF assms(1)] signed_bounds [OF assms(2)]
    by (auto simp: arr_idx_s_def arr_idx_u_def checkUnsignedBounds_def word_less_nat_alt)
  then show ?thesis using load_elem [OF s, of i] s by auto
qed

theorem array_index_safe_witness:
  "(\<exists>q. arr_idx_s (Ptr (Some (0, [1]))) 1 mem0 = Inr (q, mem0) \<and> createLoad q mem0 = Inr (I32 9, mem0))
    \<and> arr_idx_s (Ptr (Some (0, [1]))) 0xffffffff mem0 = Inl (panicked ''Index out of bounds'')"
proof -
  have "unat (a_len pair0) < 2 ^ 31" "elems pair0 = [I32 7, I32 9]" by (simp_all add: pair0_def elems_def)
  then show ?thesis
    using array_index_safe [OF mem0_holds(2), of arr_idx_s 1] array_index_safe [OF mem0_holds(2), of arr_idx_s "0xffffffff"]
    by simp
qed

text \<open>
  C29: the capacity of an array that grows is the least power of two that is not below the size it asks for;
  the function has no defined result for zero, as its comment says, and from 2 to the power of 31 on.
\<close>

theorem ceil_to_pow_2_least:
  "if 0 < unat x \<and> unat x < 2 ^ 31
   then \<exists>k \<le> 31. ceil_to_pow_2 x m = Inr (2 ^ k, m) \<and> unat x \<le> 2 ^ k \<and> (\<forall>j. 2 ^ j < (2 :: nat) ^ k \<longrightarrow> 2 ^ j < unat x)
   else ceil_to_pow_2 x m = Inl poison"
proof (cases "0 < unat x \<and> unat x < 2 ^ 31")
  case True
  then show ?thesis using ceil_to_pow_2_small [of x m] by (simp only: if_True) (metis linorder_not_less power_increasing one_le_numeral)
next
  case False
  then have "unat x = 0 \<or> 2 ^ 31 \<le> unat x" by auto
  from ceil_to_pow_2_large [OF this] False show ?thesis by (simp only: if_False)
qed


theorem ceil_to_pow_2_least_witness: "ceil_to_pow_2 5 mem0 = Inr (8, mem0)"
proof -
  obtain k where k: "ceil_to_pow_2 5 mem0 = Inr (2 ^ k, mem0)" "5 \<le> (2 :: nat) ^ k"
      "\<And>j. 2 ^ j < (2 :: nat) ^ k \<Longrightarrow> 2 ^ j < (5 :: nat)"
    using ceil_to_pow_2_least [of 5 mem0] by auto
  have "\<not> k < 3"
  proof
    assume "k < 3"
    then have "k = 0 \<or> k = 1 \<or> k = 2" by linarith
    then show False using k(2) by auto
  qed
  moreover have "\<not> 3 < k" using k(3) [of 3] power_strict_increasing [of 3 k "2 :: nat"] by auto
  ultimately have "k = 3" by linarith
  then show ?thesis using k(1) by simp
qed

text \<open>
  C11: assigning an array to another shares it: both variables hold the array of the source, with one more
  reference, and the array that was there has one reference less or, with the last one, its two blocks
  are freed. Assigning an array to itself, or to another variable of the same array, changes nothing.
\<close>

theorem array_assign_shares:
  assumes "holds m p a" "holds m q c" "classifyType t = trivially_copyable" "0 < sint (a_refs a)" "sint (a_refs c) < 2 ^ 63 - 1"
    and "c = a \<or> footprint c \<inter> footprint a = {} \<and> fst p \<notin> footprint c \<and> fst q \<notin> footprint a"
  shows "\<exists>m'. copyAssign env (RArray t) (Ptr (Some p)) (Ptr (Some q)) m = Inr ((), m')
    \<and> (if c = a then m' = m
       else holds m' p (with_refs c (a_refs c + 1)) \<and> holds m' q (with_refs c (a_refs c + 1))
         \<and> (if a_refs a = 1 then \<forall>b \<in> footprint a. block m' b = None else stores m' (with_refs a (a_refs a - 1))))"
proof (cases "c = a")
  case True
  then show ?thesis using self_assign [of m p a q t "destroy env t"] assms(1,2,4,5) by simp
next
  case False
  then have "footprint c \<inter> footprint a = {}" "fst p \<notin> footprint c" "fst q \<notin> footprint a" using assms(6) by blast+
  from assign_run [OF assms(1,2) this assms(3-5), of "destroy env t"] False show ?thesis by simp
qed

theorem array_assign_shares_witness:
  "\<exists>m'. copyAssign env0 (RArray (RBtn Sint)) (Ptr (Some (0, [0]))) (Ptr (Some (0, [1]))) mem0 = Inr ((), m')
    \<and> holds m' (0, [0]) (with_refs pair0 3) \<and> block m' 1 = None"
proof -
  have "0 < sint (a_refs empty0)" "sint (a_refs pair0) < 2 ^ 63 - 1" "a_refs pair0 + 1 = 3" "a_refs empty0 = 1" "pair0 \<noteq> empty0"
    "footprint empty0 = {1}" "footprint pair0 = {2, 3}"
    by (auto simp: empty0_def pair0_def footprint_def)
  then show ?thesis using array_assign_shares [OF mem0_holds(1,2), of "RBtn Sint" env0] by auto
qed

text \<open>
  C28: comparing two arrays of a builtin integer type, of equal or different lengths, compares their numbers,
  signed for \<^verbatim>\<open>sint\<close> and \<^verbatim>\<open>char\<close> and unsigned for the others: all of them for equality, in lexicographic order for
  \<^verbatim>\<open><\<close>. The comparison reads nothing but the two arrays and changes nothing.
\<close>

theorem array_compare:
  assumes "holds m p a" "holds m q c"
    and "map (int_key b) (elems a) = map Some ks" "map (int_key b) (elems c) = map Some ls"
  shows "compare_eq env (RArray (RBtn b)) (Ptr (Some p), lvalue) (Ptr (Some q), lvalue) m = Inr (ks = ls, m)
    \<and> compare_lt env (RArray (RBtn b)) (Ptr (Some p), lvalue) (Ptr (Some q), lvalue) m
      = Inr ((ks, ls) \<in> lexord {(x, y). x < y}, m)"
  using compare_array_run [OF assms] by simp

theorem array_compare_witness:
  "compare_lt env0 (RArray (RBtn Sint)) (Ptr (Some (0, [0])), lvalue) (Ptr (Some (0, [1])), lvalue) mem0 = Inr (True, mem0)
    \<and> compare_eq env0 (RArray (RBtn Sint)) (Ptr (Some (0, [1])), lvalue) (Ptr (Some (0, [1])), lvalue) mem0 = Inr (True, mem0)"
proof -
  have e: "map (int_key Sint) (elems empty0) = map Some []" and p: "map (int_key Sint) (elems pair0) = map Some [7, 9]"
    by (simp_all add: elems_def empty0_def pair0_def int_key_def)
  show ?thesis
    using array_compare [OF mem0_holds(1,2) e p, of env0] array_compare [OF mem0_holds(2,2) p p, of env0] by simp
qed

subsection \<open>Where the library falls short\<close>

text \<open>
  C38: assigning a closure with captured variables to a variable whose closure has none takes over the
  function but not its captures: the data of the variable stay null, and the function is called without
  the variables it reads. This holds for copies and for moves.
\<close>

theorem closure_assign_drops_captures:
  assumes "closure_at m p f None" "closure_at m q g (Some d)" "asgn = clo_cop_asgn env \<or> asgn = clo_mov_asgn env"
  shows "\<exists>m'. asgn (Ptr (Some p)) (Ptr (Some q)) m = Inr ((), m') \<and> closure_at m' p g None"
  using assms(3) clo_asgn_run [OF assms(1,2)] by (auto simp: clo_cop_asgn_def clo_mov_asgn_def)

definition mem1 :: mem where
  "mem1 =
     \<lparr>blocks = [Some (Agg [Agg [Fn 0, Ptr None], Agg [Fn 5, Ptr (Some (1, [0]))]]), Some (Agg [Agg [I64 1, Fn 6, I32 7]])],
      avail = 0\<rparr>"

theorem closure_assign_drops_captures_witness:
  "\<exists>m'. clo_cop_asgn env0 (Ptr (Some (0, [0]))) (Ptr (Some (0, [1]))) mem1 = Inr ((), m') \<and> closure_at m' (0, [0]) 5 None"
proof -
  have "closure_at mem1 (0, [0]) 0 None" "closure_at mem1 (0, [1]) 5 (Some (1, [0]))"
    by (simp_all add: closure_at_def mem1_def peek_def block_def)
  then show ?thesis using closure_assign_drops_captures [of mem1 "(0, [0])" 0 "(0, [1])" 5 "(1, [0])" "clo_cop_asgn env0" env0]
    by simp
qed

text \<open>
  \<^verbatim>\<open><=\<close> and \<^verbatim>\<open>>=\<close> are the negations of \<^verbatim>\<open>>\<close> and \<^verbatim>\<open><\<close>, so that both hold of a real number and one that is not a number,
  although neither \<^verbatim>\<open><\<close>, \<^verbatim>\<open>>\<close> nor \<^verbatim>\<open>==\<close> does.
\<close>

theorem real_order_nan:
  assumes "is_nan x \<or> is_nan y"
  shows "compare_le env (RBtn Real) (F32 x, prvalue) (F32 y, prvalue) m = Inr (True, m)
    \<and> compare_ge env (RBtn Real) (F32 x, prvalue) (F32 y, prvalue) m = Inr (True, m)
    \<and> compare_gt env (RBtn Real) (F32 x, prvalue) (F32 y, prvalue) m = Inr (False, m)
    \<and> compare_lt env (RBtn Real) (F32 x, prvalue) (F32 y, prvalue) m = Inr (False, m)
    \<and> compare_eq env (RBtn Real) (F32 x, prvalue) (F32 y, prvalue) m = Inr (False, m)"
  using real_compare_nan [OF assms]
  by (auto simp: compare_le_def compare_ge_def compare_gt_def createNot_def)

theorem real_order_nan_witness:
  "compare_le env0 (RBtn Real) (F32 0x3f800000, prvalue) (F32 0x7fc00000, prvalue) mem0 = Inr (True, mem0)"
proof -
  have "is_nan 0x7fc00000" by (simp add: is_nan_def)
  then show ?thesis using real_order_nan [of "0x3f800000" "0x7fc00000" env0 mem0] by simp
qed

end
