(* ===== verification/Gen_Types.thy ===== *)
theory Gen_Types
  imports Runtime_Safety
begin

section \<open>The types of generated code\<close>

text \<open>
  \<^verbatim>\<open>src/CodeGen/generate type.cpp\<close>, \<^verbatim>\<open>gen types.cpp\<close>, \<^verbatim>\<open>func instantiations.hpp\<close> and the categories of values: which LLVM type stands for a type of the
  language, how parameters and results are passed, and the table of the functions of the run time library
  that were generated already. An LLVM type is unique, so that comparing the pointers is comparing the
  types; the field in which \<^verbatim>\<open>generateType\<close> remembers its result is left out.
\<close>

subsection \<open>LLVM types\<close>

datatype llty =
    LVoid
  | LInt nat
  | LFloat
  | LPtr llty
  | LStruct bool "llty list"
  | LArray llty nat
  | LFunc llty "llty list"

definition getSizedType :: "nat \<Rightarrow> llty res" where
  "getSizedType n =
     (if n \<in> {1, 2, 4, 8, 16} then Inr (LInt (8 * n)) else Inl (Undefined ''UNREACHABLE''))"

definition lenTy :: llty where "lenTy = LInt 32"

definition refTy :: llty where "refTy = LInt 64"

definition voidPtrTy :: llty where "voidPtrTy = LPtr (LInt 8)"

definition dtorTy :: llty where "dtorTy = LFunc LVoid [voidPtrTy]"

definition cloDataTy :: llty where "cloDataTy = LStruct False [refTy, LPtr dtorTy]"

definition arrayTy :: "llty \<Rightarrow> llty" where
  "arrayTy elem = LStruct True [refTy, lenTy, lenTy, LPtr elem]"

definition ptrToArrayTy :: "llty \<Rightarrow> llty" where
  "ptrToArrayTy elem = LPtr (arrayTy elem)"

fun mapE :: "('a \<Rightarrow> 'b res) \<Rightarrow> 'a list \<Rightarrow> 'b list res" where
  "mapE f [] = Inr []"
| "mapE f (x # xs) = bindE (f x) (\<lambda>y. bindE (mapE f xs) (\<lambda>ys. Inr (y # ys)))"

lemma mapE_cong [fundef_cong]:
  "xs = ys \<Longrightarrow> (\<And>x. x \<in> set ys \<Longrightarrow> f x = g x) \<Longrightarrow> mapE f xs = mapE g ys"
  by (induction ys arbitrary: xs) auto

subsection \<open>Signatures\<close>

text \<open>A parameter or a receiver of \<open>None\<close> has no type; the function \<open>gen\<close> is \<^verbatim>\<open>generateType\<close>.\<close>

record Signature =
  s_receiver :: "(ParamRef \<times> rty) option"
  s_params :: "(ParamRef \<times> rty) list"
  s_ret :: "rty option"

definition getSignature :: "(ParamRef \<times> rty) list \<Rightarrow> rty option \<Rightarrow> Signature" where
  "getSignature ps r = \<lparr>s_receiver = None, s_params = ps, s_ret = r\<rparr>"

lemma getSignature_simps [simp, termination_simp]:
  "s_receiver (getSignature ps r) = None" "s_params (getSignature ps r) = ps" "s_ret (getSignature ps r) = r"
  by (simp_all add: getSignature_def)

lemma param_size [termination_simp]:
  "(p, t) \<in> set ps \<Longrightarrow> size t < Suc (size_list (\<lambda>x. Suc (size (snd x))) ps + n)"
  using field_size [of p t ps] by simp

definition convertParamF :: "(rty \<Rightarrow> llty res) \<Rightarrow> ParamRef \<times> rty \<Rightarrow> llty res" where
  "convertParamF gen param =
     bindE (gen (snd param)) (\<lambda>t.
       Inr (if fst param = ref \<or> classifyType (snd param) \<noteq> trivially_copyable then LPtr t else t))"

definition generateSigF :: "(rty \<Rightarrow> llty res) \<Rightarrow> Signature \<Rightarrow> llty res" where
  "generateSigF gen sig =
     bindE (case s_receiver sig of Some param \<Rightarrow> convertParamF gen param | None \<Rightarrow> Inr voidPtrTy) (\<lambda>receiver.
     bindE (mapE (convertParamF gen) (s_params sig)) (\<lambda>params.
       case s_ret sig of
         None \<Rightarrow> Inl (Undefined ''assertion: type'')
       | Some r \<Rightarrow>
           bindE (gen r) (\<lambda>t.
             Inr (if classifyType r = trivially_copyable then LFunc t (receiver # params)
                  else LFunc LVoid (receiver # params @ [LPtr t])))))"

lemma convertParamF_cong [fundef_cong]:
  "p = q \<Longrightarrow> f (snd q) = g (snd q) \<Longrightarrow> convertParamF f p = convertParamF g q"
  by (simp add: convertParamF_def)

lemma generateSigF_cong [fundef_cong]:
  assumes "s = s'" "\<And>p. p \<in> set (s_params s') \<Longrightarrow> f (snd p) = g (snd p)"
    and "\<And>p. s_receiver s' = Some p \<Longrightarrow> f (snd p) = g (snd p)" "\<And>r. s_ret s' = Some r \<Longrightarrow> f r = g r"
  shows "generateSigF f s = generateSigF g s'"
proof -
  have "mapE (convertParamF f) (s_params s') = mapE (convertParamF g) (s_params s')"
    using assms(2) by (intro mapE_cong refl convertParamF_cong)
  then show ?thesis using assms(1,3,4)
    by (auto simp: generateSigF_def split: option.splits intro!: bindE_cong convertParamF_cong)
qed

subsection \<open>Types\<close>

fun btnTy :: "BtnTypeEnum \<Rightarrow> llty" where
  "btnTy Void = LVoid"
| "btnTy Opaq = voidPtrTy"
| "btnTy Bool = LInt 1"
| "btnTy Byte = LInt 8"
| "btnTy Char = LInt 8"
| "btnTy Real = LFloat"
| "btnTy Sint = LInt 32"
| "btnTy Uint = LInt 32"

fun generateType :: "rty \<Rightarrow> llty res" where
  "generateType (RBtn b) = Inr (btnTy b)"
| "generateType (RArray t) = bindE (generateType t) (\<lambda>elem. Inr (ptrToArrayTy elem))"
| "generateType (RFunc ps r) =
     bindE (generateSigF generateType (getSignature ps r)) (\<lambda>sig. Inr (LStruct False [LPtr sig, LPtr cloDataTy]))"
| "generateType (RNamed _ _ t) = generateType t"
| "generateType (RStruct fs) = bindE (mapE (\<lambda>(n, t). generateType t) fs) (\<lambda>elems. Inr (LStruct False elems))"
| "generateType (RUser fs sz al ops) = bindE (getSizedType al) (\<lambda>t. Inr (LArray t (sz div al)))"

definition convertParam :: "ParamRef \<times> rty \<Rightarrow> llty res" where
  "convertParam = convertParamF generateType"

definition generateSig :: "Signature \<Rightarrow> llty res" where
  "generateSig = generateSigF generateType"

fun concreteType :: "rty \<Rightarrow> rty" where
  "concreteType (RNamed _ _ t) = concreteType t"
| "concreteType t = t"

definition isBoolType :: "rty \<Rightarrow> bool" where
  "isBoolType t \<longleftrightarrow> concreteType t = RBtn Bool"

definition isBoolCast :: "rty option \<Rightarrow> rty option \<Rightarrow> bool" where
  "isBoolCast to from' = (case (to, from') of (Some t, Some f) \<Rightarrow> isBoolType t \<and> \<not> isBoolType f | _ \<Rightarrow> False)"

definition generateLambdaCapture :: "rty list \<Rightarrow> llty res" where
  "generateLambdaCapture captures =
     bindE (mapE generateType captures) (\<lambda>types. Inr (LStruct False (refTy # LPtr dtorTy # types)))"


subsection \<open>Categories of values\<close>

text \<open>
  \<^verbatim>\<open>ValueVisitor\<close> and \<^verbatim>\<open>LValueVisitor\<close> of \<^verbatim>\<open>categories.cpp\<close>. What they read of the tree that semantic analysis has written: whether an
  identifier names a function, whether a \<^verbatim>\<open>make\<close> casts, and the types of expressions and of a \<^verbatim>\<open>make\<close>.
\<close>

record annotations =
  names_func :: "expr \<Rightarrow> bool"
  casts :: "expr \<Rightarrow> bool"
  expr_ty :: "expr \<Rightarrow> rty option"
  make_ty :: "ty \<Rightarrow> rty option"

definition member_cat :: "ValueCat \<Rightarrow> ValueCat" where
  "member_cat c = (if c = prvalue then xvalue else c)"

fun classifyValue :: "annotations \<Rightarrow> expr \<Rightarrow> ValueCat" where
  "classifyValue ann (MemberIdent l obj n) = member_cat (classifyValue ann obj)"
| "classifyValue ann (Subscript l obj i) = member_cat (classifyValue ann obj)"
| "classifyValue ann (Identifier l n) = (if names_func ann (Identifier l n) then prvalue else lvalue)"
| "classifyValue ann (Ternary l c troo fols) =
     (if classifyValue ann troo = lvalue \<and> classifyValue ann fols = lvalue then lvalue else prvalue)"
| "classifyValue ann (Make l t e) =
     (if casts ann (Make l t e) then prvalue
      else if isBoolCast (make_ty ann t) (expr_ty ann e) then prvalue
      else classifyValue ann e)"
| "classifyValue ann e = prvalue"

fun rootLvalue :: "annotations \<Rightarrow> expr \<Rightarrow> expr option" where
  "rootLvalue ann (MemberIdent l obj n) = rootLvalue ann obj"
| "rootLvalue ann (Identifier l n) = (if names_func ann (Identifier l n) then None else Some (Identifier l n))"
| "rootLvalue ann e = None"

text \<open>An expression with a root is an lvalue; only an identifier is a root.\<close>

lemma rootLvalue_lvalue:
  "rootLvalue ann e = Some r \<Longrightarrow> classifyValue ann e = lvalue \<and> (\<exists>l n. r = Identifier l n) \<and> rootLvalue ann r = Some r"
  by (induction ann e rule: rootLvalue.induct) (auto simp: member_cat_def split: if_splits)

subsection \<open>Equal types\<close>

text \<open>
  A type without its names. Strong aliases are compared by name, so that equal types are the same in
  generated code only if a strong name stands for one type; \<open>\<Gamma>\<close> is that type.
\<close>

fun strip :: "rty \<Rightarrow> rty" where
  "strip (RBtn b) = RBtn b"
| "strip (RArray t) = RArray (strip t)"
| "strip (RFunc ps r) = RFunc (map (\<lambda>(p, t). (p, strip t)) ps) (map_option strip r)"
| "strip (RNamed _ _ t) = strip t"
| "strip (RStruct fs) = RStruct (map (\<lambda>(n, t). (n, strip t)) fs)"
| "strip (RUser fs sz al ops) = RUser [] sz al no_ops"

fun strip_norm :: "(name \<Rightarrow> rty) \<Rightarrow> rty \<Rightarrow> rty" where
  "strip_norm \<Gamma> (RBtn b) = RBtn b"
| "strip_norm \<Gamma> (RArray t) = RArray (strip_norm \<Gamma> t)"
| "strip_norm \<Gamma> (RFunc ps r) = RFunc (map (\<lambda>(p, t). (p, strip_norm \<Gamma> t)) ps) (map_option (strip_norm \<Gamma>) r)"
| "strip_norm \<Gamma> (RNamed n strong t) = (if strong then strip (\<Gamma> n) else strip_norm \<Gamma> t)"
| "strip_norm \<Gamma> (RStruct fs) = RStruct (map (\<lambda>(n, t). (n, strip_norm \<Gamma> t)) fs)"
| "strip_norm \<Gamma> (RUser fs sz al ops) = RUser [] sz al no_ops"

fun strong_in :: "(name \<Rightarrow> rty) \<Rightarrow> rty \<Rightarrow> bool" where
  "strong_in \<Gamma> (RBtn b) \<longleftrightarrow> True"
| "strong_in \<Gamma> (RArray t) \<longleftrightarrow> strong_in \<Gamma> t"
| "strong_in \<Gamma> (RFunc ps r) \<longleftrightarrow> list_all (\<lambda>(p, t). strong_in \<Gamma> t) ps \<and> pred_option (strong_in \<Gamma>) r"
| "strong_in \<Gamma> (RNamed n strong t) \<longleftrightarrow> (strong \<longrightarrow> t = \<Gamma> n) \<and> strong_in \<Gamma> t"
| "strong_in \<Gamma> (RStruct fs) \<longleftrightarrow> list_all (\<lambda>(n, t). strong_in \<Gamma> t) fs"
| "strong_in \<Gamma> (RUser fs sz al ops) \<longleftrightarrow> True"

lemma strip_norm_norm: "strong_in \<Gamma> t \<Longrightarrow> strip_norm \<Gamma> (norm t) = strip t"
proof (induction t rule: strip.induct)
  case (3 ps r)
  then show ?case by (cases r) (auto simp: list_all_iff)
qed (auto simp: list_all_iff)

lemma classifyType_strip: "classifyType (strip t) = classifyType t"
  by (induction t rule: strip.induct) auto

lemma mapE_map: "mapE f (map g xs) = mapE (f \<circ> g) xs"
  by (induction xs) auto

lemma generateType_strip: "generateType (strip t) = generateType t"
proof (induction t rule: strip.induct)
  case (3 ps r)
  have "mapE (convertParamF generateType) (map (\<lambda>(p, t). (p, strip t)) ps) = mapE (convertParamF generateType) ps"
    unfolding mapE_map using 3(1) by (intro mapE_cong refl) (auto simp: convertParamF_def classifyType_strip)
  then show ?case using 3(2) by (cases r) (simp_all add: generateSigF_def classifyType_strip)
next
  case (5 fs)
  have "mapE (\<lambda>(n, t). generateType t) (map (\<lambda>(n, t). (n, strip t)) fs) = mapE (\<lambda>(n, t). generateType t) fs"
    unfolding mapE_map using 5 by (intro mapE_cong refl) auto
  then show ?case by simp
qed simp_all

lemma equal_types_generate:
  assumes "compareTypes (Some a) (Some b)" "strong_in \<Gamma> a" "strong_in \<Gamma> b"
  shows "generateType a = generateType b" "classifyType a = classifyType b"
proof -
  have "norm a = norm b" using assms(1) by (simp only: compareTypes_iff option.map option.inject)
  then have "strip a = strip b" using strip_norm_norm assms(2,3) by metis
  then show "generateType a = generateType b" "classifyType a = classifyType b"
    by (metis generateType_strip, metis classifyType_strip)
qed

subsection \<open>The table of instantiations\<close>

text \<open>
  \<^verbatim>\<open>FuncInst::get\<close> for one of the functions: \<open>genFn\<close> is the generator, the table maps LLVM types to what was generated.
\<close>

definition inst_get :: "(rty \<Rightarrow> 'fn) \<Rightarrow> rty \<Rightarrow> (llty \<rightharpoonup> 'fn) \<Rightarrow> ('fn \<times> (llty \<rightharpoonup> 'fn)) res" where
  "inst_get genFn param table =
     bindE (generateType param) (\<lambda>type.
       case table type of
         Some func \<Rightarrow> Inr (func, table)
       | None \<Rightarrow> Inr (genFn param, table(type \<mapsto> genFn param)))"


subsection \<open>Properties\<close>

text \<open>
  C12: types that semantic analysis takes for the same, because weak aliases are looked through and strong ones
  compared by name, are the same in generated code, as values and as parameters, provided that a strong name
  stands for one type.
\<close>

theorem equal_types_one_representation:
  assumes "compareTypes (Some a) (Some b)" "strong_in \<Gamma> a" "strong_in \<Gamma> b"
  shows "generateType a = generateType b \<and> convertParam (r, a) = convertParam (r, b)"
  using equal_types_generate [OF assms] by (simp add: convertParam_def convertParamF_def)

theorem equal_types_one_representation_witness:
  "generateType (RStruct [(''x'', RNamed ''Int'' False (RBtn Sint)), (''f'', RFunc [(val, RBtn Real)] (Some (RNamed ''Id'' True (RBtn Uint))))])
    = generateType (RStruct [(''x'', RBtn Sint), (''f'', RFunc [(val, RNamed ''R'' False (RBtn Real))] (Some (RNamed ''Id'' True (RBtn Uint))))])"
proof -
  let ?a = "RStruct [(''x'', RNamed ''Int'' False (RBtn Sint)), (''f'', RFunc [(val, RBtn Real)] (Some (RNamed ''Id'' True (RBtn Uint))))]"
  let ?b = "RStruct [(''x'', RBtn Sint), (''f'', RFunc [(val, RNamed ''R'' False (RBtn Real))] (Some (RNamed ''Id'' True (RBtn Uint))))]"
  have "compareTypes (Some ?a) (Some ?b)" by (simp only: compareTypes_iff) simp
  moreover have "strong_in (\<lambda>n. RBtn Uint) ?a" "strong_in (\<lambda>n. RBtn Uint) ?b" by simp_all
  ultimately show ?thesis using equal_types_one_representation by blast
qed

text \<open>
  C39: the table of instantiations is indexed by LLVM types, which do not tell signed from unsigned numbers.
  After arrays of \<^verbatim>\<open>uint\<close> have been compared, comparing arrays of \<^verbatim>\<open>sint\<close> calls the same function: \<^verbatim>\<open>[-1] < [0]\<close> is false,
  where the function that would have been generated says true.
\<close>

theorem instances_lose_signedness:
  assumes "holds m p a" "holds m q c" "elems a = [I32 0xffffffff]" "elems c = [I32 0]"
    and "cmp = (\<lambda>t l r. compare_lt env t (l, lvalue) (r, lvalue))"
  shows "\<exists>table f. inst_get cmp (RArray (RBtn Uint)) Map.empty = Inr (cmp (RArray (RBtn Uint)), table)
    \<and> inst_get cmp (RArray (RBtn Sint)) table = Inr (f, table)
    \<and> f (Ptr (Some p)) (Ptr (Some q)) m = Inr (False, m)
    \<and> cmp (RArray (RBtn Sint)) (Ptr (Some p)) (Ptr (Some q)) m = Inr (True, m)"
proof -
  have u: "map (int_key Uint) (elems a) = map Some [0xffffffff]" "map (int_key Uint) (elems c) = map Some [0]"
    and s: "map (int_key Sint) (elems a) = map Some [-1]" "map (int_key Sint) (elems c) = map Some [0]"
    using assms(3,4) by (simp_all add: int_key_def)
  show ?thesis
    using compare_array_run(2) [OF assms(1,2) u, of env] compare_array_run(2) [OF assms(1,2) s, of env] assms(5)
    by (auto simp: inst_get_def simp del: compare_lt.simps)
qed

definition mem2 :: mem where
  "mem2 =
     \<lparr>blocks = [Some (Agg [Ptr (Some (1, [0])), Ptr (Some (2, [0]))]),
        Some (Agg [Agg [I64 1, I32 1, I32 1, Ptr (Some (3, [0]))]]), Some (Agg [Agg [I64 1, I32 1, I32 1, Ptr (Some (4, [0]))]]),
        Some (Agg [I32 0xffffffff]), Some (Agg [I32 0])], avail = 0\<rparr>"

theorem instances_lose_signedness_witness:
  "\<exists>table f. inst_get (\<lambda>t l r. compare_lt env0 t (l, lvalue) (r, lvalue)) (RArray (RBtn Sint)) table = Inr (f, table)
    \<and> f (Ptr (Some (0, [0]))) (Ptr (Some (0, [1]))) mem2 = Inr (False, mem2)"
proof -
  let ?a = "\<lparr>a_blk = 1, a_refs = 1, a_cap = 1, a_len = 1, a_dat = Some 3, a_slots = [I32 0xffffffff]\<rparr>"
  let ?c = "\<lparr>a_blk = 2, a_refs = 1, a_cap = 1, a_len = 1, a_dat = Some 4, a_slots = [I32 0]\<rparr>"
  have "holds mem2 (0, [0]) ?a" "holds mem2 (0, [1]) ?c" "elems ?a = [I32 0xffffffff]" "elems ?c = [I32 0]"
    by (simp_all add: holds_def stores_def peek_def footprint_def storage_def dat_ptr_def mem2_def block_def elems_def)
  from instances_lose_signedness [OF this refl, of env0] show ?thesis by blast
qed

end
