(* ===== verification/Lowering.thy ===== *)
theory Lowering
  imports Infer Missing_Return
begin

section \<open>Lowering of assignments\<close>

text \<open>
  \<^verbatim>\<open>src/CodeGen/lower expressions.cpp\<close>, the first thing the code generator does to the body of a function: compound
  assignments and increments become plain assignments. The pointer that is replaced, \<^verbatim>\<open>statPtr\<close> or \<^verbatim>\<open>asgnPtr\<close>, is
  the node that was visited last, so that a visitor returns the new node. The argument \<open>tyOf\<close> is the type
  that semantic analysis has written into an expression. A node that is made here has no location.
\<close>

subsection \<open>Operators and the number one\<close>

fun convert :: "AssignOp \<Rightarrow> BinOp" where
  "convert a_add = add"
| "convert a_sub = sub"
| "convert a_mul = mul"
| "convert a_div = div_op"
| "convert a_mod = mod_op"
| "convert a_bit_or = bit_or"
| "convert a_bit_xor = bit_xor"
| "convert a_bit_and = bit_and"
| "convert a_bit_shl = bit_shl"
| "convert a_bit_shr = bit_shr"

text \<open>
  The number one of a type. A literal of the tree is its text; the text of this one has the suffix that
  makes it a literal of the type.
\<close>

fun getOne :: "BtnTypeEnum \<Rightarrow> string res" where
  "getOne Char = Inr ''1c''"
| "getOne Real = Inr ''1r''"
| "getOne Sint = Inr ''1s''"
| "getOne Uint = Inr ''1u''"
| "getOne _ = Inl (Undefined ''UNREACHABLE'')"

definition lowerIncr :: "(expr \<Rightarrow> rty option) \<Rightarrow> expr \<Rightarrow> bool \<Rightarrow> asgn res" where
  "lowerIncr tyOf e incr =
     (case concrete_btn (tyOf e) of
        None \<Rightarrow> Inl (Undefined ''assertion: concrete type'')
      | Some b \<Rightarrow>
          bindE (getOne b) (\<lambda>one.
            Inr (Assign no_loc e (BinaryExpr no_loc e (if incr then add else sub) (NumberLiteral no_loc one)))))"

fun lower_asgn :: "(expr \<Rightarrow> rty option) \<Rightarrow> asgn \<Rightarrow> asgn res" where
  "lower_asgn tyOf (CompAssign l dst oper src) =
     Inr (Assign no_loc dst (BinaryExpr no_loc dst (convert oper) src))"
| "lower_asgn tyOf (IncrDecr l e incr) = lowerIncr tyOf e incr"
| "lower_asgn tyOf a = Inr a"

fun lower_opt :: "(expr \<Rightarrow> rty option) \<Rightarrow> asgn option \<Rightarrow> asgn option res" where
  "lower_opt tyOf None = Inr None"
| "lower_opt tyOf (Some a) = bindE (lower_asgn tyOf a) (\<lambda>a. Inr (Some a))"

subsection \<open>Statements\<close>

fun lower_stat :: "(expr \<Rightarrow> rty option) \<Rightarrow> stat \<Rightarrow> stat res"
  and lower_nodes :: "(expr \<Rightarrow> rty option) \<Rightarrow> stat list \<Rightarrow> stat list res"
  and lower_cases :: "(expr \<Rightarrow> rty option) \<Rightarrow> (loc \<times> expr option \<times> stat) list \<Rightarrow> (loc \<times> expr option \<times> stat) list res" where
  "lower_stat tyOf (Block l nodes) = bindE (lower_nodes tyOf nodes) (\<lambda>nodes. Inr (Block l nodes))"
| "lower_stat tyOf (If l c body None) = bindE (lower_stat tyOf body) (\<lambda>body. Inr (If l c body None))"
| "lower_stat tyOf (If l c body (Some other)) =
     bindE (lower_stat tyOf body) (\<lambda>body.
     bindE (lower_stat tyOf other) (\<lambda>other. Inr (If l c body (Some other))))"
| "lower_stat tyOf (Switch l e cases always) =
     bindE (lower_cases tyOf cases) (\<lambda>cases. Inr (Switch l e cases always))"
| "lower_stat tyOf (While l c body) = bindE (lower_stat tyOf body) (\<lambda>body. Inr (While l c body))"
| "lower_stat tyOf (For l init c incr body) =
     bindE (lower_opt tyOf init) (\<lambda>init.
     bindE (lower_stat tyOf body) (\<lambda>body.
     bindE (lower_opt tyOf incr) (\<lambda>incr. Inr (For l init c incr body))))"
| "lower_stat tyOf (SAsgn a) = bindE (lower_asgn tyOf a) (\<lambda>a. Inr (SAsgn a))"
| "lower_stat tyOf s = Inr s"
| "lower_nodes tyOf [] = Inr []"
| "lower_nodes tyOf (s # nodes) =
     bindE (lower_stat tyOf s) (\<lambda>s. bindE (lower_nodes tyOf nodes) (\<lambda>nodes. Inr (s # nodes)))"
| "lower_cases tyOf [] = Inr []"
| "lower_cases tyOf ((l, e, body) # cases) =
     bindE (lower_stat tyOf body) (\<lambda>body.
     bindE (lower_cases tyOf cases) (\<lambda>cases. Inr ((l, e, body) # cases)))"

definition lowerExpressions :: "(expr \<Rightarrow> rty option) \<Rightarrow> stat list \<Rightarrow> stat list res" where
  "lowerExpressions tyOf nodes = lower_nodes tyOf nodes"

subsection \<open>Lowered statements\<close>

fun plain_asgn :: "asgn \<Rightarrow> bool" where
  "plain_asgn (CompAssign _ _ _ _) \<longleftrightarrow> False"
| "plain_asgn (IncrDecr _ _ _) \<longleftrightarrow> False"
| "plain_asgn _ \<longleftrightarrow> True"

definition plain_opt :: "asgn option \<Rightarrow> bool" where
  "plain_opt a \<longleftrightarrow> (case a of None \<Rightarrow> True | Some a \<Rightarrow> plain_asgn a)"

fun plain :: "stat \<Rightarrow> bool"
  and plain_nodes :: "stat list \<Rightarrow> bool"
  and plain_cases :: "(loc \<times> expr option \<times> stat) list \<Rightarrow> bool" where
  "plain (Block l nodes) \<longleftrightarrow> plain_nodes nodes"
| "plain (If l c body None) \<longleftrightarrow> plain body"
| "plain (If l c body (Some other)) \<longleftrightarrow> plain body \<and> plain other"
| "plain (Switch l e cases always) \<longleftrightarrow> plain_cases cases"
| "plain (While l c body) \<longleftrightarrow> plain body"
| "plain (For l init c incr body) \<longleftrightarrow> plain_opt init \<and> plain_opt incr \<and> plain body"
| "plain (SAsgn a) \<longleftrightarrow> plain_asgn a"
| "plain s \<longleftrightarrow> True"
| "plain_nodes [] \<longleftrightarrow> True"
| "plain_nodes (s # nodes) \<longleftrightarrow> plain s \<and> plain_nodes nodes"
| "plain_cases [] \<longleftrightarrow> True"
| "plain_cases ((l, e, body) # cases) \<longleftrightarrow> plain body \<and> plain_cases cases"

lemma lower_asgn_plain: "lower_asgn ty a = Inr a' \<Longrightarrow> plain_asgn a'"
  by (cases a) (auto simp: lowerIncr_def split: option.splits)

lemma lower_opt_plain: "lower_opt ty a = Inr a' \<Longrightarrow> plain_opt a'"
  by (cases a) (auto simp: plain_opt_def lower_asgn_plain)

lemma lower_plain:
  "lower_stat ty s = Inr s' \<Longrightarrow> plain s'"
  "lower_nodes ty ns = Inr ns' \<Longrightarrow> plain_nodes ns'"
  "lower_cases ty cs = Inr cs' \<Longrightarrow> plain_cases cs'"
  by (induction ty s and ty ns and ty cs arbitrary: s' and ns' and cs' rule: lower_stat_lower_nodes_lower_cases.induct)
     (auto simp: lower_asgn_plain lower_opt_plain)

lemma plain_asgn_same: "plain_asgn a \<Longrightarrow> lower_asgn ty a = Inr a"
  by (cases a) auto

lemma plain_opt_same: "plain_opt a \<Longrightarrow> lower_opt ty a = Inr a"
  by (cases a) (auto simp: plain_opt_def plain_asgn_same)

lemma plain_same:
  "plain s \<Longrightarrow> lower_stat ty s = Inr s"
  "plain_nodes ns \<Longrightarrow> lower_nodes ty ns = Inr ns"
  "plain_cases cs \<Longrightarrow> lower_cases ty cs = Inr cs"
  by (induction s and ns and cs rule: plain_plain_nodes_plain_cases.induct)
     (auto simp: plain_asgn_same plain_opt_same)


text \<open>The literals are the numbers one.\<close>

lemma getOne_number:
  "parseNumberLiteral ld ''1c'' = Inr (NChar 1)" "parseNumberLiteral ld ''1s'' = Inr (NSint 1)"
  "parseNumberLiteral ld ''1u'' = Inr (NUint 1)"
  by code_simp+


subsection \<open>Control flow\<close>

text \<open>Lowering leaves the control flow as it is: a lowered statement is left in no other way.\<close>

lemma lower_StatD:
  "lower_stat ty s = Inr (Block l ns') \<Longrightarrow> \<exists>ns. s = Block l ns \<and> lower_nodes ty ns = Inr ns'"
  "lower_stat ty s = Inr (If l c b' o') \<Longrightarrow> \<exists>b oth. s = If l c b oth \<and> lower_stat ty b = Inr b'
    \<and> (case oth of None \<Rightarrow> o' = None | Some x \<Rightarrow> \<exists>x'. o' = Some x' \<and> lower_stat ty x = Inr x')"
  "lower_stat ty s = Inr (Switch l e cs' a) \<Longrightarrow> \<exists>cs. s = Switch l e cs a \<and> lower_cases ty cs = Inr cs'"
  "lower_stat ty s = Inr (While l c b') \<Longrightarrow> \<exists>b. s = While l c b \<and> lower_stat ty b = Inr b'"
  "lower_stat ty s = Inr (For l i' c n' b') \<Longrightarrow> \<exists>i n b. s = For l i c n b \<and> lower_stat ty b = Inr b'"
  "lower_stat ty s = Inr Terminate \<Longrightarrow> s = Terminate"
  "lower_stat ty s = Inr (Break l) \<Longrightarrow> s = Break l"
  "lower_stat ty s = Inr (Continue l) \<Longrightarrow> s = Continue l"
  "lower_stat ty s = Inr (Return l r) \<Longrightarrow> s = Return l r"
  "lower_stat ty s = Inr (SDecl d) \<Longrightarrow> s = SDecl d"
  "lower_stat ty s = Inr (SAsgn a') \<Longrightarrow> \<exists>a. s = SAsgn a"
  by (cases "(ty, s)" rule: lower_stat.cases; auto)+

lemma lower_nodesD:
  "lower_nodes ty ns = Inr [] \<Longrightarrow> ns = []"
  "lower_nodes ty ns = Inr (s' # ns') \<Longrightarrow> \<exists>s ms. ns = s # ms \<and> lower_stat ty s = Inr s' \<and> lower_nodes ty ms = Inr ns'"
  by (cases ns; auto)+

lemma lower_casesD:
  "lower_cases ty cs = Inr ((l, e, b') # cs') \<Longrightarrow> \<exists>b ds. cs = (l, e, b) # ds \<and> lower_stat ty b = Inr b' \<and> lower_cases ty ds = Inr cs'"
  "lower_cases ty cs = Inr [] \<Longrightarrow> cs = []"
  by (cases cs; auto)+

lemma lower_cases_drop:
  "lower_cases ty cs = Inr cs' \<Longrightarrow> lower_cases ty (drop i cs) = Inr (drop i cs') \<and> length cs = length cs'
    \<and> map (\<lambda>(l, e, b). e) cs = map (\<lambda>(l, e, b). e) cs'"
proof (induction cs arbitrary: cs' i)
  case (Cons c cs)
  obtain l e b where c: "c = (l, e, b)" by (cases c) auto
  from Cons.prems obtain b' ds where d: "cs' = (l, e, b') # ds" "lower_stat ty b = Inr b'" "lower_cases ty cs = Inr ds"
    by (auto simp: c)
  show ?case using Cons.IH [OF d(3)] Cons.prems by (cases i) (auto simp: c d)
qed auto

lemma no_default: "(\<forall>(_, e, _) \<in> set cs. e \<noteq> None) \<longleftrightarrow> None \<notin> set (map (\<lambda>(l, e, b). e) cs)"
  by (induction cs) auto

lemma lower_exec:
  "exec s' r \<Longrightarrow> lower_stat ty s = Inr s' \<Longrightarrow> exec s r"
  "execs ns' r \<Longrightarrow> lower_nodes ty ns = Inr ns' \<Longrightarrow> execs ns r"
  "exec_cases cs' r \<Longrightarrow> lower_cases ty cs = Inr cs' \<Longrightarrow> exec_cases cs r"
proof (induction arbitrary: s and ns and cs rule: exec_execs_exec_cases.inducts)
  case (exec_If_false oth r l c b)
  then show ?case by (fastforce dest: lower_StatD(2) intro: exec_execs_exec_cases.exec_If_false split: option.splits)
next
  case (exec_Switch_case i cases r l e a)
  then obtain cs where cs: "s = Switch l e cs a" "lower_cases ty cs = Inr cases" by (auto dest: lower_StatD(3))
  have "exec_cases (drop i cs) r" "i < length cs"
    using lower_cases_drop [OF cs(2), of i] exec_Switch_case by auto
  then show ?case using cs by (auto intro: exec_execs_exec_cases.exec_Switch_case)
next
  case (exec_Switch_skip cases l e a)
  then obtain cs where cs: "s = Switch l e cs a" "lower_cases ty cs = Inr cases" by (auto dest: lower_StatD(3))
  have "\<forall>(_, e, _) \<in> set cs. e \<noteq> None"
    using lower_cases_drop [OF cs(2), of 0] exec_Switch_skip(1) by (simp only: no_default not_False_eq_True)
  then show ?case using cs by (auto intro: exec_execs_exec_cases.exec_Switch_skip)
next
  case (exec_While_loop body r l c r')
  obtain b where b: "s = While l c b" "lower_stat ty b = Inr body" using lower_StatD(4) [OF exec_While_loop.prems] by blast
  show ?case unfolding b(1)
    using exec_execs_exec_cases.exec_While_loop [OF exec_While_loop.IH(1) [OF b(2)] exec_While_loop.hyps(2)]
      exec_While_loop.IH(2) [OF exec_While_loop.prems] b(1) by blast
next
  case (exec_For_loop body r l init c incr r')
  obtain i n b where b: "s = For l i c n b" "lower_stat ty b = Inr body" using lower_StatD(5) [OF exec_For_loop.prems] by blast
  show ?case unfolding b(1)
    using exec_execs_exec_cases.exec_For_loop [OF exec_For_loop.IH(1) [OF b(2)] exec_For_loop.hyps(2)]
      exec_For_loop.IH(2) [OF exec_For_loop.prems] b(1) by blast
next
  case (cases_next body cases r l e)
  then show ?case by (blast dest: lower_casesD(1) intro: exec_execs_exec_cases.cases_next)
next
  case (cases_leave body r l e cases)
  then show ?case by (blast dest: lower_casesD(1) intro: exec_execs_exec_cases.cases_leave)
next
  case (cases_last body l e)
  then show ?case using lower_casesD [of ty] by (blast intro: exec_execs_exec_cases.cases_last)
qed (auto dest!: lower_StatD lower_nodesD lower_casesD intro: exec_execs_exec_cases.intros split: option.splits)


subsection \<open>Checked increments\<close>

text \<open>Every increment that semantic analysis accepts has a number one.\<close>

fun incr_ok :: "(expr \<Rightarrow> expr_type) \<Rightarrow> asgn \<Rightarrow> bool" where
  "incr_ok et (IncrDecr l e incr) \<longleftrightarrow> travIncrDecr l incr (et e) = Inr ()"
| "incr_ok et _ \<longleftrightarrow> True"

definition incr_opt :: "(expr \<Rightarrow> expr_type) \<Rightarrow> asgn option \<Rightarrow> bool" where
  "incr_opt et a \<longleftrightarrow> (case a of None \<Rightarrow> True | Some a \<Rightarrow> incr_ok et a)"

fun checked :: "(expr \<Rightarrow> expr_type) \<Rightarrow> stat \<Rightarrow> bool"
  and checked_nodes :: "(expr \<Rightarrow> expr_type) \<Rightarrow> stat list \<Rightarrow> bool"
  and checked_cases :: "(expr \<Rightarrow> expr_type) \<Rightarrow> (loc \<times> expr option \<times> stat) list \<Rightarrow> bool" where
  "checked et (Block l nodes) \<longleftrightarrow> checked_nodes et nodes"
| "checked et (If l c body None) \<longleftrightarrow> checked et body"
| "checked et (If l c body (Some other)) \<longleftrightarrow> checked et body \<and> checked et other"
| "checked et (Switch l e cases always) \<longleftrightarrow> checked_cases et cases"
| "checked et (While l c body) \<longleftrightarrow> checked et body"
| "checked et (For l init c incr body) \<longleftrightarrow> incr_opt et init \<and> incr_opt et incr \<and> checked et body"
| "checked et (SAsgn a) \<longleftrightarrow> incr_ok et a"
| "checked et s \<longleftrightarrow> True"
| "checked_nodes et [] \<longleftrightarrow> True"
| "checked_nodes et (s # nodes) \<longleftrightarrow> checked et s \<and> checked_nodes et nodes"
| "checked_cases et [] \<longleftrightarrow> True"
| "checked_cases et ((l, e, body) # cases) \<longleftrightarrow> checked et body \<and> checked_cases et cases"

lemma validIncr_one: "validIncr b \<Longrightarrow> \<exists>one. getOne b = Inr one"
  by (cases b) (auto simp: validIncr_def isArithType_def enum_order)

lemma incr_ok_lowers: "incr_ok et a \<Longrightarrow> \<exists>a'. lower_asgn (et_type \<circ> et) a = Inr a'"
  using validIncr_one
  by (cases a) (auto simp: travIncrDecr_def lowerIncr_def split: if_splits option.splits)

lemma incr_opt_lowers: "incr_opt et a \<Longrightarrow> \<exists>a'. lower_opt (et_type \<circ> et) a = Inr a'"
  using incr_ok_lowers by (cases a) (fastforce simp: incr_opt_def)+

lemma checked_lowers:
  "checked et s \<Longrightarrow> \<exists>s'. lower_stat (et_type \<circ> et) s = Inr s'"
  "checked_nodes et ns \<Longrightarrow> \<exists>ns'. lower_nodes (et_type \<circ> et) ns = Inr ns'"
  "checked_cases et cs \<Longrightarrow> \<exists>cs'. lower_cases (et_type \<circ> et) cs = Inr cs'"
  by (induction et s and et ns and et cs rule: checked_checked_nodes_checked_cases.induct)
     (auto dest!: incr_ok_lowers incr_opt_lowers)

subsection \<open>Calls\<close>

text \<open>The calls that evaluating an expression may make; the body of a lambda is not evaluated.\<close>

fun calls :: "expr \<Rightarrow> nat" where
  "calls (BinaryExpr _ a _ b) = calls a + calls b"
| "calls (UnaryExpr _ _ a) = calls a"
| "calls (FuncCall _ f args) = Suc (calls f + sum_list (map calls args))"
| "calls (MemberIdent _ a _) = calls a"
| "calls (Subscript _ a i) = calls a + calls i"
| "calls (Ternary _ c a b) = calls c + calls a + calls b"
| "calls (Make _ _ a) = calls a"
| "calls (ArrayLiteral _ es) = sum_list (map calls es)"
| "calls (InitList _ es) = sum_list (map calls es)"
| "calls _ = 0"

fun asgn_calls :: "asgn \<Rightarrow> nat" where
  "asgn_calls (CompAssign _ dst _ src) = calls dst + calls src"
| "asgn_calls (IncrDecr _ e _) = calls e"
| "asgn_calls (Assign _ dst src) = calls dst + calls src"
| "asgn_calls (DeclAssign _ _ e) = calls e"
| "asgn_calls (CallAssign _ f args _) = Suc (calls f + sum_list (map calls args))"

text \<open>
  The destination of a compound assignment and the operand of an increment are evaluated twice: the
  lowered assignment makes the calls in them once more, so that \<^verbatim>\<open>array[next()] += 1\<close> calls \<^verbatim>\<open>next\<close> twice, and may
  read one element and write another.
\<close>

lemma lower_calls:
  assumes "lower_asgn ty a = Inr a'"
  shows "asgn_calls a' = asgn_calls a + (case a of CompAssign _ dst _ _ \<Rightarrow> calls dst | IncrDecr _ e _ \<Rightarrow> calls e | _ \<Rightarrow> 0)"
  using assms by (cases a) (auto simp: lowerIncr_def split: option.splits)


subsection \<open>Properties\<close>

text \<open>
  C16: lowering a body whose increments passed semantic analysis returns a body without compound assignments
  and increments, which lowering again does not change, and which is left in no way in which the given
  body cannot be left: what the check for missing returns has found holds for what code is generated from.
\<close>

theorem lowerExpressions_sound:
  assumes "checked_nodes et nodes"
  shows "\<exists>nodes'. lowerExpressions (et_type \<circ> et) nodes = Inr nodes' \<and> plain_nodes nodes'
    \<and> lowerExpressions (et_type \<circ> et) nodes' = Inr nodes' \<and> (\<forall>r. execs nodes' r \<longrightarrow> execs nodes r)"
proof -
  obtain nodes' where n: "lower_nodes (et_type \<circ> et) nodes = Inr nodes'" using checked_lowers(2) [OF assms] by blast
  then have "plain_nodes nodes'" by (rule lower_plain(2))
  then show ?thesis using n plain_same(2) [of nodes'] lower_exec(2) [OF _ n] by (auto simp: lowerExpressions_def)
qed

theorem lowerExpressions_sound_witness:
  "\<exists>nodes'. lowerExpressions (\<lambda>e. Some (RBtn Sint)) [While no_loc (BoolLiteral no_loc True) (SAsgn (IncrDecr no_loc (Identifier no_loc ''i'') True))] = Inr nodes'
    \<and> plain_nodes nodes' \<and> \<not> execs nodes' Breaks"
proof -
  let ?et = "\<lambda>e :: expr. \<lparr>et_type = Some (RBtn Sint), et_mut = mut_var, et_ref = ref_val\<rparr>"
  let ?nodes = "[While no_loc (BoolLiteral no_loc True) (SAsgn (IncrDecr no_loc (Identifier no_loc ''i'') True))]"
  have "checked_nodes ?et ?nodes"
    by (simp add: travIncrDecr_def validIncr_def isArithType_def enum_order concrete_btn_def)
  from lowerExpressions_sound [OF this] obtain nodes' where n:
      "lowerExpressions (et_type \<circ> ?et) ?nodes = Inr nodes'" "plain_nodes nodes'" "execs nodes' Breaks \<longrightarrow> execs ?nodes Breaks"
    by blast
  have "\<not> execs ?nodes Breaks" using jump_free_outcome(2) [of ?nodes Breaks] by auto
  then show ?thesis using n by (auto simp: comp_def)
qed

end
