(* ===== verification/Object_Lifetimes.thy ===== *)
theory Object_Lifetimes
  imports Lowering
begin

section \<open>The lifetimes of objects\<close>

text \<open>
  How \<^verbatim>\<open>src/CodeGen/generate stat.cpp\<close> keeps track of the objects of a function: a stack of scopes, in each of which the
  objects that were constructed in it, in order. What it writes into the blocks is modelled by the paths
  through them: a path is the list of the objects that it constructs and destroys, and the way in which it
  leaves the statement. The scopes belong to the generator and not to the path, so that they are those of
  the statement before in the text. The objects here are the variables; the temporaries of an expression
  are in a scope of their own that is destroyed behind the expression, and are left out.
\<close>

subsection \<open>Scopes\<close>

type_synonym obj = "loc \<times> name"
type_synonym scope_stack = "obj list list"

datatype event = Constructs obj | Destroys obj

text \<open>\<^verbatim>\<open>enterScope\<close>, \<^verbatim>\<open>pushObj\<close> and \<^verbatim>\<open>destroy\<close>; the innermost scope and the youngest object come first.\<close>

definition enterScope_gen :: "scope_stack \<Rightarrow> scope_stack" where
  "enterScope_gen sc = [] # sc"

fun pushObj :: "obj \<Rightarrow> scope_stack \<Rightarrow> scope_stack" where
  "pushObj x [] = []"
| "pushObj x (s # sc) = (x # s) # sc"

definition destroy_scopes :: "scope_stack \<Rightarrow> nat \<Rightarrow> event list" where
  "destroy_scopes sc index = map Destroys (concat (take (length sc - index) sc))"

fun declared_asgn :: "asgn \<Rightarrow> obj option" where
  "declared_asgn (DeclAssign l n e) = Some (l, n)"
| "declared_asgn _ = None"

fun declared :: "stat \<Rightarrow> obj option" where
  "declared (SDecl (Var l ext n t e)) = Some (l, n)"
| "declared (SDecl (Let l ext n t e)) = Some (l, n)"
| "declared (SAsgn a) = declared_asgn a"
| "declared _ = None"

definition insertVar :: "obj option \<Rightarrow> event list" where
  "insertVar x = (case x of None \<Rightarrow> [] | Some x \<Rightarrow> [Constructs x])"

definition inserted :: "obj option \<Rightarrow> scope_stack \<Rightarrow> scope_stack" where
  "inserted x sc = (case x of None \<Rightarrow> sc | Some x \<Rightarrow> pushObj x sc)"

definition opt_asgn :: "asgn option \<Rightarrow> obj option" where
  "opt_asgn a = Option.bind a declared_asgn"

text \<open>The scopes behind a statement: only a declaration, or one that is a branch of an \<^verbatim>\<open>if\<close>, changes them.\<close>

fun scopes_after :: "stat \<Rightarrow> scope_stack \<Rightarrow> scope_stack" where
  "scopes_after (If l c body None) sc = scopes_after body sc"
| "scopes_after (If l c body (Some other)) sc = scopes_after other (scopes_after body sc)"
| "scopes_after s sc = inserted (declared s) sc"

subsection \<open>Paths\<close>

text \<open>
  The second argument is \<^verbatim>\<open>flow.scopeIndex\<close>, which is not set outside of loops and switches.
\<close>

inductive path :: "scope_stack \<Rightarrow> nat option \<Rightarrow> stat \<Rightarrow> event list \<Rightarrow> outcome \<Rightarrow> bool"
  and paths :: "scope_stack \<Rightarrow> nat option \<Rightarrow> stat list \<Rightarrow> event list \<Rightarrow> outcome \<Rightarrow> bool"
  and path_cases :: "scope_stack \<Rightarrow> (loc \<times> expr option \<times> stat) list \<Rightarrow> event list \<Rightarrow> outcome \<Rightarrow> bool"
  and path_for :: "scope_stack \<Rightarrow> asgn option \<Rightarrow> stat \<Rightarrow> event list \<Rightarrow> outcome \<Rightarrow> bool" where
  path_Block: "paths (enterScope_gen sc) k nodes tr r \<Longrightarrow> path sc k (Block l nodes) tr r"
| path_If_true: "path sc k body tr r \<Longrightarrow> path sc k (If l c body other) tr r"
| path_If_false: "path (scopes_after body sc) k other tr r \<Longrightarrow> path sc k (If l c body (Some other)) tr r"
| path_If_skip: "path sc k (If l c body None) [] Falls"
| path_Switch_case:
    "path_cases (enterScope_gen sc) (drop i cases) tr r \<Longrightarrow> i < length cases \<Longrightarrow> path sc k (Switch l e cases a) tr r"
| path_Switch_skip: "\<forall>(_, e, _) \<in> set cases. e \<noteq> None \<Longrightarrow> path sc k (Switch l e cases a) [] Falls"
| path_Terminate: "path sc k Terminate (destroy_scopes sc (length sc - 1)) Falls"
| path_Break: "k = Some i \<Longrightarrow> path sc k (Break l) (destroy_scopes sc i) Breaks"
| path_Continue: "k = Some i \<Longrightarrow> path sc k (Continue l) (destroy_scopes sc i) Continues"
| path_Return: "path sc k (Return l e) (destroy_scopes sc 0) Returns"
| path_While_skip: "path sc k (While l c body) [] Falls"
| path_While_break:
    "path (enterScope_gen sc) (Some (length sc)) body tr Breaks \<Longrightarrow> path sc k (While l c body) tr Falls"
| path_While_loop:
    "path (enterScope_gen sc) (Some (length sc)) body tr r \<Longrightarrow> r \<in> {Falls, Continues}
      \<Longrightarrow> path sc k (While l c body) tr' r' \<Longrightarrow> path sc k (While l c body) (tr @ tr') r'"
| path_While_leave:
    "path (enterScope_gen sc) (Some (length sc)) body tr r \<Longrightarrow> r \<in> {Returns, Stuck} \<Longrightarrow> path sc k (While l c body) tr r"
| path_For_done:
    "sc' = inserted (opt_asgn init) (enterScope_gen sc) \<Longrightarrow> path_for sc' incr body tr Falls
      \<Longrightarrow> path sc k (For l init c incr body)
        (insertVar (opt_asgn init) @ tr @ destroy_scopes (inserted (opt_asgn incr) sc') (length sc)) Falls"
| path_For_leave:
    "sc' = inserted (opt_asgn init) (enterScope_gen sc) \<Longrightarrow> path_for sc' incr body tr r \<Longrightarrow> r \<noteq> Falls
      \<Longrightarrow> path sc k (For l init c incr body) (insertVar (opt_asgn init) @ tr) r"
| path_SDecl: "path sc k (SDecl d) (insertVar (declared (SDecl d))) Falls"
| path_SAsgn: "path sc k (SAsgn a) (insertVar (declared_asgn a)) Falls"
| paths_Nil: "paths sc k [] [] Falls"
| paths_next:
    "path sc k s tr Falls \<Longrightarrow> paths (scopes_after s sc) k nodes tr' r \<Longrightarrow> paths sc k (s # nodes) (tr @ tr') r"
| paths_leave: "path sc k s tr r \<Longrightarrow> r \<noteq> Falls \<Longrightarrow> paths sc k (s # nodes) tr r"
| cases_done:
    "path (enterScope_gen sc) (Some (length sc)) body tr r \<Longrightarrow> r \<in> {Falls, Breaks}
      \<Longrightarrow> path_cases sc ((l, e, body) # cases) tr Falls"
| cases_next:
    "path (enterScope_gen sc) (Some (length sc)) body tr Continues \<Longrightarrow> path_cases sc cases tr' r
      \<Longrightarrow> path_cases sc ((l, e, body) # cases) (tr @ tr') r"
| cases_last: "path (enterScope_gen sc) (Some (length sc)) body tr Continues \<Longrightarrow> path_cases sc [(l, e, body)] tr Stuck"
| cases_leave:
    "path (enterScope_gen sc) (Some (length sc)) body tr r \<Longrightarrow> r \<in> {Returns, Stuck}
      \<Longrightarrow> path_cases sc ((l, e, body) # cases) tr r"
| for_skip: "path_for sc incr body [] Falls"
| for_break: "path (enterScope_gen sc) (Some (length sc)) body tr Breaks \<Longrightarrow> path_for sc incr body tr Falls"
| for_loop:
    "path (enterScope_gen sc) (Some (length sc)) body tr r \<Longrightarrow> r \<in> {Falls, Continues} \<Longrightarrow> path_for sc incr body tr' r'
      \<Longrightarrow> path_for sc incr body (tr @ insertVar (opt_asgn incr) @ tr') r'"
| for_leave:
    "path (enterScope_gen sc) (Some (length sc)) body tr r \<Longrightarrow> r \<in> {Returns, Stuck} \<Longrightarrow> path_for sc incr body tr r"

text \<open>The nodes of a function body are in the scope that \<^verbatim>\<open>generateStat\<close> enters.\<close>

definition body_path :: "stat list \<Rightarrow> event list \<Rightarrow> outcome \<Rightarrow> bool" where
  "body_path nodes tr r \<longleftrightarrow> paths (enterScope_gen []) None nodes tr r"

subsection \<open>Paths are paths of the control flow\<close>

lemma path_exec:
  "path sc k s tr r \<Longrightarrow> exec s r"
  "paths sc k ns tr r \<Longrightarrow> execs ns r"
  "path_cases sc cs tr r \<Longrightarrow> exec_cases cs r"
  "path_for sc incr body tr r \<Longrightarrow> exec (For l init c incr body) r"
  by (induction arbitrary: and and and l init c rule: path_paths_path_cases_path_for.inducts)
     (auto intro: exec_execs_exec_cases.intros)


inductive_cases path_TerminateE: "path sc k Terminate tr r"

subsection \<open>Objects are destroyed in the reverse order\<close>

text \<open>
  The discipline of a path: an object is destroyed when it is the youngest one that is alive. The result is
  the objects that are alive at the end, the youngest first.
\<close>

fun lifo :: "event list \<Rightarrow> obj list \<Rightarrow> obj list option" where
  "lifo [] alive = Some alive"
| "lifo (Constructs x # tr) alive = lifo tr (x # alive)"
| "lifo (Destroys x # tr) [] = None"
| "lifo (Destroys x # tr) (y # alive) = (if x = y then lifo tr alive else None)"

lemma lifo_append: "lifo (tr @ tr') alive = Option.bind (lifo tr alive) (lifo tr')"
  by (induction tr alive rule: lifo.induct) auto

lemma lifo_map: "lifo (map Destroys xs) (xs @ ys) = Some ys"
  by (induction xs) auto

lemma lifo_destroy: "lifo (destroy_scopes sc i) (concat sc) = Some (concat (drop (length sc - i) sc))"
proof -
  have "concat sc = concat (take (length sc - i) sc) @ concat (drop (length sc - i) sc)"
    by (metis append_take_drop_id concat_append)
  then show ?thesis unfolding destroy_scopes_def by (metis lifo_map)
qed

lemma inserted_None [simp]: "inserted None sc = sc" "insertVar None = []"
  by (simp_all add: inserted_def insertVar_def)

lemma inserted_shape [simp]:
  "length (inserted x sc) = length sc" "tl (inserted x sc) = tl sc" "inserted x sc = [] \<longleftrightarrow> sc = []"
  by (auto simp: inserted_def split: option.splits) (cases sc; auto)+

lemma scopes_after_shape [simp]:
  "length (scopes_after s sc) = length sc" "tl (scopes_after s sc) = tl sc" "scopes_after s sc = [] \<longleftrightarrow> sc = []"
  by (induction s sc rule: scopes_after.induct) auto

lemma lifo_insertVar: "sc \<noteq> [] \<Longrightarrow> lifo (insertVar x) (concat sc) = Some (concat (inserted x sc))"
  by (cases sc) (auto simp: insertVar_def inserted_def split: option.splits)

text \<open>\<open>keeps s\<close>: \<open>s\<close> leaves no object in the scope it is in.\<close>

fun keeps :: "stat \<Rightarrow> bool" where
  "keeps (If l c body None) \<longleftrightarrow> keeps body"
| "keeps (If l c body (Some other)) \<longleftrightarrow> keeps body \<and> keeps other"
| "keeps Terminate \<longleftrightarrow> False"
| "keeps s \<longleftrightarrow> declared s = None"

lemma keeps_scopes: "keeps s \<Longrightarrow> scopes_after s sc = sc"
  by (induction s rule: keeps.induct) (auto simp: inserted_def)

text \<open>
  \<open>tidy s\<close>, for a statement that the check for missing returns has rewritten: a block ends with
  \<open>Terminate\<close> or is not left at its end, and what is not in a block of its own declares nothing.
\<close>

fun tidy :: "stat \<Rightarrow> bool" where
  "tidy (Block l nodes) \<longleftrightarrow> (\<forall>s \<in> set nodes. tidy s) \<and> Terminate \<notin> set (butlast nodes)
     \<and> (nodes \<noteq> [] \<and> last nodes = Terminate \<or> \<not> execs nodes Falls)"
| "tidy (If l c body None) \<longleftrightarrow> tidy body \<and> keeps body"
| "tidy (If l c body (Some other)) \<longleftrightarrow> tidy body \<and> keeps body \<and> tidy other \<and> keeps other"
| "tidy (Switch l e cases a) \<longleftrightarrow> (\<forall>(_, _, body) \<in> set cases. tidy body \<and> keeps body)"
| "tidy (While l c body) \<longleftrightarrow> tidy body \<and> keeps body"
| "tidy (For l init c incr body) \<longleftrightarrow> tidy body \<and> keeps body \<and> opt_asgn incr = None"
| "tidy s \<longleftrightarrow> True"

text \<open>The objects that are alive when control has left a statement, or nodes, in one of the ways.\<close>

definition left_by :: "nat option \<Rightarrow> scope_stack \<Rightarrow> obj list \<Rightarrow> outcome \<Rightarrow> obj list" where
  "left_by k sc falls r =
     (case r of
        Falls \<Rightarrow> falls
      | Returns \<Rightarrow> []
      | _ \<Rightarrow> (case k of None \<Rightarrow> [] | Some i \<Rightarrow> concat (drop (length sc - i) sc)))"

definition alive_after :: "stat \<Rightarrow> scope_stack \<Rightarrow> obj list" where
  "alive_after s sc = (if s = Terminate then concat (tl sc) else concat (scopes_after s sc))"

definition alive_behind :: "stat list \<Rightarrow> scope_stack \<Rightarrow> obj list" where
  "alive_behind nodes sc =
     (if nodes \<noteq> [] \<and> last nodes = Terminate then concat (tl sc) else concat (fold scopes_after nodes sc))"

lemma left_by_simps [simp]:
  "left_by k sc x Falls = x" "left_by k sc x Returns = []"
  "left_by (Some i) sc x Breaks = concat (drop (length sc - i) sc)"
  "left_by (Some i) sc x Continues = concat (drop (length sc - i) sc)"
  by (simp_all add: left_by_def)

lemma left_by_out: "r \<noteq> Falls \<Longrightarrow> left_by k sc x r = left_by k sc y r"
  by (cases r) (simp_all add: left_by_def)

lemma keeps_alive: "keeps s \<Longrightarrow> alive_after s sc = concat sc"
  by (auto simp: alive_after_def keeps_scopes)

lemma alive_behind_Cons:
  "alive_behind (s # nodes) sc = (if nodes = [] then alive_after s sc else alive_behind nodes (scopes_after s sc))"
  by (auto simp: alive_behind_def alive_after_def)


lemma left_by_enter:
  "k = Some i \<Longrightarrow> i \<le> length sc \<Longrightarrow> left_by k (enterScope_gen sc) x r = left_by k sc x r"
  by (cases r) (auto simp: left_by_def enterScope_gen_def Suc_diff_le)

lemma left_by_shape:
  "length sc = length sc' \<Longrightarrow> tl sc = tl sc' \<Longrightarrow> \<forall>i. k = Some i \<longrightarrow> i < length sc \<Longrightarrow> left_by k sc x r = left_by k sc' x r"
  by (cases sc; cases sc'; cases r; cases k) (auto simp: left_by_def Suc_diff_le less_Suc_eq_le)

lemma concat_enterScope [simp]: "concat (enterScope_gen sc) = concat sc" "length (enterScope_gen sc) = Suc (length sc)" "enterScope_gen sc \<noteq> []" "tl (enterScope_gen sc) = sc"
  "drop (Suc i) (enterScope_gen sc) = drop i sc"
  by (simp_all add: enterScope_gen_def)

lemma left_by_body:
  "r \<noteq> Stuck \<Longrightarrow> left_by (Some (length sc)) (enterScope_gen sc) (concat sc) r = (if r = Returns then [] else concat sc)"
  by (cases r) (simp_all add: left_by_def enterScope_gen_def)

lemma path_lifo:
  "path sc k s tr r \<Longrightarrow> tidy s \<Longrightarrow> sc \<noteq> [] \<Longrightarrow> \<forall>i. k = Some i \<longrightarrow> i < length sc \<Longrightarrow> r \<noteq> Stuck
     \<Longrightarrow> lifo tr (concat sc) = Some (left_by k sc (alive_after s sc) r)"
  "paths sc k nodes tr r \<Longrightarrow> \<forall>s \<in> set nodes. tidy s \<Longrightarrow> Terminate \<notin> set (butlast nodes) \<Longrightarrow> sc \<noteq> []
     \<Longrightarrow> \<forall>i. k = Some i \<longrightarrow> i < length sc \<Longrightarrow> r \<noteq> Stuck
     \<Longrightarrow> lifo tr (concat sc) = Some (left_by k sc (alive_behind nodes sc) r)"
  "path_cases sc cs tr r \<Longrightarrow> \<forall>(_, _, body) \<in> set cs. tidy body \<and> keeps body \<Longrightarrow> r \<noteq> Stuck
     \<Longrightarrow> lifo tr (concat sc) = Some (if r = Returns then [] else concat sc)"
  "path_for sc incr body tr r \<Longrightarrow> tidy body \<Longrightarrow> keeps body \<Longrightarrow> opt_asgn incr = None \<Longrightarrow> r \<noteq> Stuck
     \<Longrightarrow> lifo tr (concat sc) = Some (if r = Returns then [] else concat sc)"
proof (induction rule: path_paths_path_cases_path_for.inducts)
  case (path_Block sc k nodes tr r l)
  have run: "lifo tr (concat sc) = Some (left_by k (enterScope_gen sc) (alive_behind nodes (enterScope_gen sc)) r)"
    using path_Block by (auto simp: less_Suc_eq)
  have falls: "r = Falls \<Longrightarrow> alive_behind nodes (enterScope_gen sc) = concat sc"
    using path_Block(1) path_Block.prems(1) path_exec(2) by (auto simp: alive_behind_def)
  show ?case
  proof (cases "r = Falls")
    case True
    then show ?thesis using run falls by (simp add: alive_after_def inserted_def)
  next
    case False
    then show ?thesis using run left_by_enter path_Block.prems(3) left_by_out
      by (cases k) (force simp: left_by_def split: outcome.splits)+
  qed
next
  case (path_If_true sc k body tr r l c other)
  then show ?case by (cases other) (auto simp: keeps_alive)
next
  case (path_If_false sc k other tr r l c body)
  then show ?case by (auto simp: keeps_alive keeps_scopes)
next
  case (path_Switch_case sc i cases tr r k l e a)
  then have "lifo tr (concat (enterScope_gen sc)) = Some (if r = Returns then [] else concat (enterScope_gen sc))"
    by (fastforce dest: in_set_dropD)
  moreover have "r \<notin> {Breaks, Continues}" using path_exec(3) [OF path_Switch_case(1)] jump_free_outcome(3) by blast
  ultimately show ?case using path_Switch_case.prems(4) by (cases r) (auto simp: alive_after_def inserted_def)
next
  case (path_Terminate sc k)
  then have "length sc - (length sc - 1) = Suc 0" by (cases sc) auto
  then show ?case by (simp add: lifo_destroy alive_after_def drop_Suc)
next
  case (path_While_loop sc body tr r k l c tr' r')
  then show ?case by (auto simp: keeps_scopes lifo_append left_by_body alive_after_def inserted_def)
next
  case (path_For_done sc' init sc incr body tr k l c)
  then have "lifo tr (concat sc') = Some (concat sc')" "tl sc' = sc" "length sc' = Suc (length sc)" by auto
  moreover have "lifo (insertVar (opt_asgn init)) (concat sc) = Some (concat sc')"
    using lifo_insertVar [of "enterScope_gen sc" "opt_asgn init"] path_For_done(1) by simp
  ultimately show ?case using path_For_done.prems
    by (auto simp: lifo_append lifo_destroy alive_after_def drop_Suc)
next
  case (path_For_leave sc' init sc incr body tr r k l c)
  then have "lifo tr (concat sc') = Some (if r = Returns then [] else concat sc')" by auto
  moreover have "lifo (insertVar (opt_asgn init)) (concat sc) = Some (concat sc')"
    using lifo_insertVar [of "enterScope_gen sc" "opt_asgn init"] path_For_leave(1) by simp
  moreover have "r = Returns"
    using path_exec(4) [OF path_For_leave(2), of no_loc init c] jump_free_outcome(1) path_For_leave.hyps path_For_leave.prems(4)
    by (cases r) fastforce+
  ultimately show ?case by (auto simp: lifo_append)
next
  case (paths_next sc k s tr nodes tr' r)
  show ?case
  proof (cases "nodes = []")
    case True
    then show ?thesis using paths_next by (auto simp: lifo_append alive_behind_Cons elim: paths.cases)
  next
    case False
    then show ?thesis using paths_next left_by_shape [of "scopes_after s sc" sc k]
      by (auto simp: lifo_append alive_behind_Cons alive_after_def)
  qed
next
  case (paths_leave sc k s tr r nodes)
  then show ?case using left_by_out by (auto) 
qed (auto simp: keeps_scopes alive_after_def alive_behind_def lifo_destroy lifo_insertVar lifo_append left_by_body)

subsection \<open>What the check for missing returns leaves\<close>

text \<open>
  \<open>orderly s\<close>, for a statement as the parser makes it: a branch of an \<^verbatim>\<open>if\<close>, the body of a loop and of a case,
  and the step of a \<^verbatim>\<open>for\<close> declare nothing outside of a block.
\<close>

fun orderly :: "stat \<Rightarrow> bool" where
  "orderly (Block l nodes) \<longleftrightarrow> (\<forall>s \<in> set nodes. orderly s)"
| "orderly (If l c body None) \<longleftrightarrow> orderly body \<and> keeps body"
| "orderly (If l c body (Some other)) \<longleftrightarrow> orderly body \<and> keeps body \<and> orderly other \<and> keeps other"
| "orderly (Switch l e cases a) \<longleftrightarrow> (\<forall>(_, _, body) \<in> set cases. orderly body \<and> keeps body)"
| "orderly (While l c body) \<longleftrightarrow> orderly body \<and> keeps body"
| "orderly (For l init c incr body) \<longleftrightarrow> orderly body \<and> keeps body \<and> opt_asgn incr = None"
| "orderly Terminate \<longleftrightarrow> False"
| "orderly s \<longleftrightarrow> True"

lemma visit_keeps_scope: "visit_stat s f = Inr (s', f') \<Longrightarrow> keeps s' = keeps s \<and> (s' = Terminate \<longleftrightarrow> s = Terminate)"
  by (induction s arbitrary: f s' f' rule: keeps.induct) (fastforce simp: Let_def)+

lemma visit_tidy:
  "visit_stat s f = Inr (s', f') \<Longrightarrow> structured s \<Longrightarrow> orderly s \<Longrightarrow> tidy s'"
  "visit_nodes nodes ml bt f = Inr (nodes', ml', bt', f') \<Longrightarrow> \<forall>s \<in> set nodes. structured s \<and> orderly s
     \<Longrightarrow> \<forall>s \<in> set nodes'. tidy s \<and> s \<noteq> Terminate"
  "visit_cases cs k f = Inr (cs', k', f') \<Longrightarrow> \<forall>(_, _, body) \<in> set cs. structured body \<and> orderly body \<and> keeps body
     \<Longrightarrow> \<forall>(_, _, body) \<in> set cs'. tidy body \<and> keeps body"
proof (induction s f and nodes ml bt f and cs k f arbitrary: s' f' and nodes' ml' bt' f' and cs' k' f'
    rule: visit_stat_visit_nodes_visit_cases.induct)
  case (1 l nodes f)
  then obtain ns ml1 bt1 f1 where v: "visit_nodes nodes False continues (f\<lparr>occurs := no\<rparr>) = Inr (ns, ml1, bt1, f1)"
    and s': "s' = Block l ns \<and> occurs f1 = yes \<or> s' = Block l (ns @ [Terminate])"
    by (auto simp: Let_def split: if_splits)
  have tidy: "\<forall>s \<in> set ns. tidy s \<and> s \<noteq> Terminate" using 1 v by auto
  have "occurs f1 = yes \<Longrightarrow> \<not> execs ns Falls" using visit_yes(2) [OF v] 1(3) by auto
  moreover have "Terminate \<notin> set (butlast ns)" using tidy by (blast dest: in_set_butlastD)
  ultimately show ?case using s' tidy by auto
next
  case (14 s nodes ml bt f)
  then obtain s1 f1 where v: "visit_stat s f = Inr (s1, f1)" by auto
  obtain nodes1 ml1 bt1 where n: "nodes' = s1 # nodes1" "visit_nodes nodes ml1 bt1 f1 = Inr (nodes1, ml', bt', f')"
    using 14(3) v by (auto split: if_splits)
  have "\<forall>s \<in> set nodes1. tidy s \<and> s \<noteq> Terminate" using 14(2) [OF v] 14(3,4) v n(1) by (auto split: if_splits)
  moreover have "tidy s1" "s1 \<noteq> Terminate" using 14(1) [OF v] visit_keeps_scope [OF v] 14(4) by auto
  ultimately show ?case using n(1) by auto
next
  case (16 l e body cs k f)
  then obtain body1 f1 where v: "visit_stat body f = Inr (body1, f1)" by auto
  obtain cs1 where n: "cs' = (l, e, body1) # cs1" using 16(3) v by (auto split: if_splits)
  have "\<forall>(_, _, body) \<in> set cs1. tidy body \<and> keeps body" using 16(2) [OF v] 16(3,4) v n by (auto split: if_splits)
  moreover have "tidy body1" "keeps body1" using 16(1) [OF v] visit_keeps_scope [OF v] 16(4) by auto
  ultimately show ?case using n by auto
qed (fastforce simp: Let_def dest: visit_keeps_scope)+

subsection \<open>Lowering keeps the lifetimes\<close>

lemma lower_declared: "lower_asgn ty a = Inr a' \<Longrightarrow> declared_asgn a' = declared_asgn a"
  by (cases a) (auto simp: lowerIncr_def split: option.splits)

lemma lower_opt_declared: "lower_opt ty a = Inr a' \<Longrightarrow> opt_asgn a' = opt_asgn a"
  by (cases a) (auto simp: opt_asgn_def lower_declared)

lemma lower_keeps_scope: "lower_stat ty s = Inr s' \<Longrightarrow> keeps s' = keeps s \<and> (s' = Terminate \<longleftrightarrow> s = Terminate)"
  by (induction s arbitrary: s' rule: keeps.induct) (auto simp: lower_declared)

lemma lower_nodes_last:
  "lower_nodes ty ns = Inr ns' \<Longrightarrow> (ns' = [] \<longleftrightarrow> ns = []) \<and> (ns \<noteq> [] \<longrightarrow> (last ns' = Terminate \<longleftrightarrow> last ns = Terminate))
     \<and> (Terminate \<in> set (butlast ns') \<longleftrightarrow> Terminate \<in> set (butlast ns))"
  by (induction ns arbitrary: ns') (fastforce dest: lower_keeps_scope)+

lemma lower_tidy:
  "lower_stat ty s = Inr s' \<Longrightarrow> tidy s \<Longrightarrow> tidy s'"
  "lower_nodes ty ns = Inr ns' \<Longrightarrow> \<forall>s \<in> set ns. tidy s \<Longrightarrow> \<forall>s \<in> set ns'. tidy s"
  "lower_cases ty cs = Inr cs' \<Longrightarrow> \<forall>(_, _, body) \<in> set cs. tidy body \<and> keeps body
     \<Longrightarrow> \<forall>(_, _, body) \<in> set cs'. tidy body \<and> keeps body"
proof (induction ty s and ty ns and ty cs arbitrary: s' and ns' and cs' rule: lower_stat_lower_nodes_lower_cases.induct)
  case (1 ty l nodes)
  then obtain ns where n: "lower_nodes ty nodes = Inr ns" "s' = Block l ns" by auto
  then show ?case using 1 lower_nodes_last [OF n(1)] lower_exec(2) [OF _ n(1)] by auto
next
  case (12 ty l e body cases)
  then obtain b cs where "lower_stat ty body = Inr b" "lower_cases ty cases = Inr cs" "cs' = (l, e, b) # cs" by auto
  then show ?case using 12 lower_keeps_scope [of ty body b] by auto
qed (auto dest: lower_keeps_scope simp: lower_opt_declared)

subsection \<open>Properties\<close>

lemma checked_tidy:
  assumes ok: "checkMissingRet retVoid l bl nodes = Inr nodes'"
    and shape: "\<forall>s \<in> set nodes. structured s \<and> orderly s"
  shows "(\<forall>s \<in> set nodes'. tidy s) \<and> Terminate \<notin> set (butlast nodes')"
proof -
  obtain ns f where v: "visit_stat (Block bl nodes) \<lparr>terminator = continues, occurs = no\<rparr> = Inr (Block bl ns, f)"
    and n: "nodes' = (if occurs f = yes then ns
                else (if ns \<noteq> [] \<and> last ns = Terminate then butlast ns else ns) @ [Return no_loc None])"
    using checkMissingRet_nodes [OF ok] by blast
  have "tidy (Block bl ns)" using visit_tidy(1) [OF v] shape by simp
  then have t: "\<forall>s \<in> set ns. tidy s" "Terminate \<notin> set (butlast ns)" by simp_all
  show ?thesis
  proof (cases "occurs f = yes")
    case True
    then show ?thesis using n t by simp
  next
    case False
    then show ?thesis using n t by (cases ns rule: rev_cases) auto
  qed
qed


text \<open>
  C15: the body of a function, as the check for missing returns and the lowering of assignments leave it, destroys
  every object it constructs exactly once, in the reverse order, on every path, however that path leaves
  the blocks, loops, branches and switches it goes through; no path destroys what is not alive, and at the
  \<^verbatim>\<open>return\<close> nothing is. The body is structured, no \<^verbatim>\<open>break\<close> or \<^verbatim>\<open>continue\<close> leaves it, and in it branches, the bodies of
  loops and cases and the step of a \<^verbatim>\<open>for\<close> declare nothing outside of a block.
\<close>

theorem objects_destroyed_once:
  assumes ok: "checkMissingRet retVoid l bl nodes = Inr checked_body"
    and low: "lowerExpressions ty checked_body = Inr lowered"
    and shape: "\<forall>s \<in> set nodes. structured s \<and> jump_free s \<and> orderly s"
    and run: "body_path lowered tr r"
  shows "lifo tr [] = Some [] \<and> r = Returns"
proof -
  have l: "lower_nodes ty checked_body = Inr lowered" using low by (simp add: lowerExpressions_def)
  have p: "paths (enterScope_gen []) None lowered tr r" using run by (simp add: body_path_def)
  have "execs checked_body r" by (rule lower_exec(2) [OF path_exec(2) [OF p] l])
  then have r: "r = Returns" using checkMissingRet_nodes [OF ok] visited_returns [of bl nodes] shape by blast
  have "(\<forall>s \<in> set checked_body. tidy s) \<and> Terminate \<notin> set (butlast checked_body)"
    using checked_tidy [OF ok] shape by blast
  then have "\<forall>s \<in> set lowered. tidy s" "Terminate \<notin> set (butlast lowered)"
    using lower_tidy(2) [OF l] lower_nodes_last [OF l] by auto
  then show ?thesis using path_lifo(2) [OF p] r by simp
qed

theorem objects_destroyed_once_witness:
  "let x = SAsgn (DeclAssign no_loc ''x'' (NumberLiteral no_loc ''1''));
       loop = While no_loc (BoolLiteral no_loc True) (Block no_loc [x, If no_loc (BoolLiteral no_loc True) (Break no_loc) None]);
       loop' = While no_loc (BoolLiteral no_loc True) (Block no_loc [x, If no_loc (BoolLiteral no_loc True) (Break no_loc) None, Terminate]);
       checked = [loop', Return no_loc None];
       tr = [Constructs (no_loc, ''x''), Destroys (no_loc, ''x'')]
   in checkMissingRet True no_loc no_loc [loop] = Inr checked \<and> lowerExpressions (\<lambda>_. None) checked = Inr checked
     \<and> body_path checked tr Returns \<and> lifo tr [] = Some []"
proof -
  let ?x = "SAsgn (DeclAssign no_loc ''x'' (NumberLiteral no_loc ''1''))"
  let ?if = "If no_loc (BoolLiteral no_loc True) (Break no_loc) None"
  let ?loop = "While no_loc (BoolLiteral no_loc True) (Block no_loc [?x, ?if])"
  let ?loop' = "While no_loc (BoolLiteral no_loc True) (Block no_loc [?x, ?if, Terminate])"
  let ?tr = "[Constructs (no_loc, ''x''), Destroys (no_loc, ''x'')]"
  have ok: "checkMissingRet True no_loc no_loc [?loop] = Inr [?loop', Return no_loc None]"
    by (simp add: checkMissingRet_def afterIf_def afterLoop_def maxTerm_def)
  have low: "lowerExpressions (\<lambda>_. None) [?loop', Return no_loc None] = Inr [?loop', Return no_loc None]"
    by (simp add: lowerExpressions_def)
  have brk: "paths [[(no_loc, ''x'')], [], []] (Some 1) [?if, Terminate] [Destroys (no_loc, ''x'')] Breaks"
    using paths_leave [OF path_If_true [OF path_Break [of "Some 1" 1 "[[(no_loc, ''x'')], [], []]"]]]
    by (simp add: destroy_scopes_def)
  have "paths [[], [], []] (Some 1) [?x, ?if, Terminate] ([Constructs (no_loc, ''x'')] @ [Destroys (no_loc, ''x'')]) Breaks"
    by (rule paths_next) (use path_SAsgn [of "[[], [], []]" "Some 1" "DeclAssign no_loc ''x'' (NumberLiteral no_loc ''1'')"] brk
        in \<open>simp_all add: insertVar_def inserted_def\<close>)
  then have "path [[]] None ?loop' ?tr Falls"
    by (auto intro!: path_While_break path_Block simp: enterScope_gen_def)
  then have run: "body_path [?loop', Return no_loc None] ?tr Returns"
    using paths_next [of "[[]]" None ?loop' ?tr "[Return no_loc None]" "[]" Returns]
      paths_leave [OF path_Return [of "[[]]" None no_loc None]]
    by (simp add: body_path_def enterScope_gen_def destroy_scopes_def)
  show ?thesis using objects_destroyed_once [OF ok low _ run] ok low run by (simp add: Let_def opt_asgn_def)
qed

text \<open>
  C40: the condition on declarations is needed, and the parser does not ask for it: the body of
  \<^verbatim>\<open>if (c) x := e\<close> pushes its object onto the scope of the \<^verbatim>\<open>if\<close>, so that the function destroys \<open>x\<close> also when
  the branch is not taken, when it was never constructed.
\<close>

theorem branch_declaration_destroyed_anyway:
  "\<exists>nodes'. checkMissingRet True l bl [If l1 c (SAsgn (DeclAssign l2 n e)) None] = Inr nodes'
    \<and> lowerExpressions ty nodes' = Inr nodes'
    \<and> body_path nodes' [Constructs (l2, n), Destroys (l2, n)] Returns
    \<and> body_path nodes' [Destroys (l2, n)] Returns \<and> lifo [Destroys (l2, n)] [] = None"
proof -
  let ?if = "If l1 c (SAsgn (DeclAssign l2 n e)) None"
  have "checkMissingRet True l bl [?if] = Inr [?if, Return no_loc None]"
    by (simp add: checkMissingRet_def afterIf_def maxTerm_def)
  moreover have "lowerExpressions ty [?if, Return no_loc None] = Inr [?if, Return no_loc None]"
    by (simp add: lowerExpressions_def)
  moreover have ret: "paths (scopes_after ?if [[]]) None [Return no_loc None] [Destroys (l2, n)] Returns"
    using paths_leave [OF path_Return [of "[[(l2, n)]]" None no_loc None]] by (simp add: inserted_def destroy_scopes_def)
  moreover have "path [[]] None ?if [Constructs (l2, n)] Falls"
    using path_If_true [OF path_SAsgn [of "[[]]" None "DeclAssign l2 n e"]] by (simp add: insertVar_def)
  ultimately show ?thesis
    using paths_next [OF path_If_skip ret] paths_next [OF _ ret, of "[Constructs (l2, n)]"]
    by (auto simp: body_path_def enterScope_gen_def)
qed

end
