(* ===== verification/Spec2Isabelle.thy ===== *)
theory Spec2Isabelle
  imports Expr_Syntax Module_Order Literals Semantic_Faults Module_Safety Retain_Safety Gen_Types Object_Lifetimes
begin

text \<open>
  A model of STELA, a compiler for a small statically typed scripting language, with the theorems that make
  its parts correct. All paths below are under \<^verbatim>\<open>src/\<close>.

  \<^bold>\<open>The program.\<close> The source of a module is turned into tokens (\<^verbatim>\<open>src/Lex\<close>), the tokens into a syntax tree by
  recursive descent (\<^verbatim>\<open>src/Syntax\<close>). The modules of a program are put in an order in which every module stands
  behind those it imports, and each is checked against the symbols of those before it (\<^verbatim>\<open>src/Semantic\<close>):
  names are looked up, types inferred, functions checked for missing returns. The checked tree is turned
  into LLVM IR (\<^verbatim>\<open>src/CodeGen\<close>), together with a library of functions on pointers, arrays and closures that
  every generated program calls. A tree can also be printed (\<^verbatim>\<open>src/Format\<close>). All nodes, types and symbols are
  kept by \<^verbatim>\<open>retain_ptr\<close>, an intrusive counted pointer (\<^verbatim>\<open>include/STELA/retain ptr.hpp\<close>).

  \<^bold>\<open>Conventions.\<close> A function that may throw or fail an assertion has a result of type \<^typ>\<open>'a res\<close>: \<open>Fatal l msg\<close> is the
  exception that the log throws for an error at a location, \<open>Undefined msg\<close> a failed assertion, an
  unreachable point or undefined behaviour of C++ or LLVM, \<open>Out_of_fuel\<close> the end of a bound on a recursion.
  Functions that change a shared context are steps of the state and error monad of \<open>Error_State\<close>. Visitors
  are functions by cases on the node. Machine integers are words where the code counts or shifts with them.
  Strings are lists of characters.

  \<^bold>\<open>Theories.\<close> A theory of definitions is followed by the theories that prove facts of it.

  \<^item> \<open>Prelude\<close>, \<open>Error_State\<close>: locations, errors, both monads, lemmas on lists and suffixes.
  \<^item> \<open>Ast\<close>: the syntax tree of \<^verbatim>\<open>include/STELA/ast.hpp\<close>, with the fields that the parser writes.
  \<^item> \<open>Parse_String\<close> (\<^verbatim>\<open>src/Utils/parse string\<close>), \<open>Number_Literal\<close> (\<^verbatim>\<open>src/Lex/number literal.cpp\<close>), \<open>Lexer\<close> (\<^verbatim>\<open>lexical
    analysis.cpp\<close>): the cursor with its line and column, the literals, the scanners and \<open>tokenize\<close>. A tokenised
    source is blanks, comments and tokens of the right shape, each the longest there is, at its true line.
    \<open>Literals\<close> joins the lexer and the reader of escapes: any string survives being escaped, quoted, lexed and
    read back, and no literal of the lexer fails the assertion of the reader.
  \<^item> \<open>Parse_Tokens\<close>, \<open>Parser\<close> (all of \<^verbatim>\<open>src/Syntax\<close>), with the locale \<open>parser_env\<close> of
    \<open>Parser_Contract\<close> over the lemmas of \<open>Parse_Contract\<close>: the token cursor, the stack of contexts and every parsing function. A parsing
    function that returns a node has consumed tokens and restored the contexts, one that returns none has
    changed nothing. The recursion is bounded by the number of tokens; \<open>parser_equations\<close> shows that the bound is
    enough, as the bounded functions satisfy the equations of the source, and so every input is parsed in
    finitely many steps. \<open>Expr_Syntax\<close> writes expressions with the parentheses that a table of precedences
    asks for, and shows that the expression parsers read them back.
  \<^item> \<open>Module_Order\<close> (\<^verbatim>\<open>src/Semantic/modules.cpp\<close>): the depth first search over imports. The order contains each module
    once and behind its imports; it exists exactly when names are distinct, imports resolve and there is no
    cycle; each error names its reason. The recursion is bounded by the number of modules not visited yet.
  \<^item> \<open>Sem_Types\<close>, \<open>Expr_Stack\<close>, \<open>Scopes\<close>, \<open>Expr_Lookup\<close>, \<open>Infer\<close>, \<open>Semantic\<close>: the other files of \<^verbatim>\<open>src/Semantic\<close>, with symbols by
    position in a table in place of pointers. Comparing types is equality of normal forms; overloads that
    accept the same call collide. \<open>Sem_State\<close>, \<open>Sem_Insert\<close>, \<open>Sem_Visit\<close>, \<open>Sem_Lookup\<close>, \<open>Sem_Safety\<close>, \<open>Semantic_Safety\<close> and
    \<open>Module_Safety\<close> carry an invariant of the symbols through every operation up to \<open>compileModules\<close>, which ends
    in success, an error message, or one of a short list of failures; \<open>Semantic_Faults\<close> gives programs that
    reach them, and shows that the branches of a conditional expression are not visited with the type that is
    expected of it.
  \<^item> \<open>Missing_Return\<close> (\<^verbatim>\<open>check missing return.cpp\<close>, and the control flow of \<^verbatim>\<open>generate stat.cpp\<close> as semantics): a body
    that passes the check is left by \<^verbatim>\<open>return\<close> only, if its branches are blocks or control statements; two programs
    show why the condition is needed.
  \<^item> \<open>Format\<close> (\<^verbatim>\<open>src/Format\<close>): the visitor that writes tokens, plain text and HTML. Indentation is balanced; parentheses
    are lost.
  \<^item> \<open>Retain_Ptr\<close>, \<open>Retain_Safety\<close>: \<^verbatim>\<open>retain_ptr\<close> on a heap of counted objects that own each other. For the operations that a
    guard allows, counts equal owners,
    nothing dangles, objects that are not in a circle are kept exactly while they are reachable. The work of
    nested destructors is a list; each step of it releases a reference or frees an object, and that ends.
    Outside of the guard, copy assignment is shown to use a freed object exactly when only the target reached it.
  \<^item> \<open>Runtime_Memory\<close>, \<open>Runtime\<close>: the run time library, that is the functions that \<^verbatim>\<open>generate pointer.cpp\<close>, \<^verbatim>\<open>generate
    array.cpp\<close>, \<^verbatim>\<open>generate builtin.cpp\<close>, \<^verbatim>\<open>generate closure.cpp\<close>, \<^verbatim>\<open>generate struct.cpp\<close>, \<^verbatim>\<open>lifetime exprs.cpp\<close> and \<^verbatim>\<open>compare
    exprs.cpp\<close> write, on a memory of blocks that may run out. \<open>Runtime_Steps\<close> has the equations of the instructions,
    \<open>Runtime_Arrays\<close> what each array function does to the elements and that it leaves other blocks alone,
    \<open>Runtime_Contract\<close> the locale \<open>refining\<close> and its instance: programs on arrays refine programs on lists.
    \<open>Runtime_Sharing\<close> and \<open>Runtime_Compare\<close> treat assignment of arrays and closures, and comparison. The properties
    are in \<open>Runtime_Safety\<close>; they are about elements of builtin types. The loops over arrays end because the
    length goes down, and the comparisons are bounded by the length of the right array. A function of a type
    calls the functions generated for the types of its parts; that the table of instantiations may give it those
    of another type is in \<open>Gen_Types\<close>. Attributes of parameters, such as nonnull, are left out.
  \<^item> \<open>Gen_Types\<close> (\<^verbatim>\<open>generate type.cpp\<close>, \<^verbatim>\<open>gen types.cpp\<close>, \<^verbatim>\<open>func instantiations.hpp\<close>): the LLVM types of types and signatures,
    the categories of values, and the table of generated functions. Types that compare equal are represented alike; the table mixes up
    signed and unsigned arrays.
  \<^item> \<open>Lowering\<close> (\<^verbatim>\<open>lower expressions.cpp\<close>): compound assignments and increments become assignments, and that keeps
    the control flow.
  \<^item> \<open>Object_Lifetimes\<close> (\<^verbatim>\<open>generate stat.cpp\<close>): the scopes of the generator and the paths through the blocks it writes.
    From the check for missing returns through lowering to the generated blocks, every path destroys each
    variable once and in the reverse order, if declarations stand in blocks; a program shows why they must.

  \<^bold>\<open>Not modelled.\<close> The rest of \<^verbatim>\<open>src/CodeGen\<close> computes nodes of the LLVM library, a third party whose instructions the
  run time library above needed only in part: the translation of expressions and declarations,
  the optimiser and the JIT. The fields that semantic analysis writes into the tree for it are left out. The
  log writes to streams, and the console format to a terminal. Reflection is template code over C++ types
  of the host program. The visitors' \<^verbatim>\<open>accept\<close> functions are dispatch. Of the C library, \<^verbatim>\<open>strtold\<close>, \<^verbatim>\<open>strtoll\<close> and
  \<^verbatim>\<open>strtoull\<close> are modelled by their specification, with the format of \<^verbatim>\<open>long double\<close> as a parameter. Strings of messages are kept; verbose messages are left out.
\<close>

end
